(* ===== verification/Prelude.thy ===== *)
theory Prelude
  imports Main "HOL-Library.AList" "HOL-Library.Word"
begin

text \<open>
  The part of the library every component shares: the type names of the model, the
  hash map of the Rust standard library as an association list with the laws its
  clients rely on (a locale and its interpretation), clocks, and generic facts on
  lists and options.
\<close>

named_theorems hmap_laws \<open>how the lookups of a hash map see its updates\<close>
named_theorems wf_intros \<open>every operation keeps its component well formed\<close>

type_synonym bytes = "8 word list"
type_synonym u64 = "64 word"

section \<open>Hash maps\<close>

text \<open>
  A \<^verbatim>\<open>HashMap\<close> is an association list with distinct keys. The order of the list stands
  for the (unspecified) iteration order; no property depends on it.
\<close>

type_synonym ('k, 'v) hmap = "('k \<times> 'v) list"

definition hget :: "('k, 'v) hmap \<Rightarrow> 'k \<Rightarrow> 'v option" where
  "hget m k = map_of m k"

definition hput :: "'k \<Rightarrow> 'v \<Rightarrow> ('k, 'v) hmap \<Rightarrow> ('k, 'v) hmap" where
  "hput k v m = AList.update k v m"

definition hdel :: "'k \<Rightarrow> ('k, 'v) hmap \<Rightarrow> ('k, 'v) hmap" where
  "hdel k m = AList.delete k m"

definition hretain :: "('k \<Rightarrow> 'v \<Rightarrow> bool) \<Rightarrow> ('k, 'v) hmap \<Rightarrow> ('k, 'v) hmap" where
  "hretain P m = filter (\<lambda>(k, v). P k v) m"

definition hlen :: "('k, 'v) hmap \<Rightarrow> nat" where
  "hlen m = length m"

definition hwf :: "('k, 'v) hmap \<Rightarrow> bool" where
  "hwf m \<longleftrightarrow> distinct (map fst m)"

text \<open>
  The contract of a finite map with a size, as the clients of \<^verbatim>\<open>HashMap\<close> use it.
\<close>

locale sized_map =
  fixes get :: "'m \<Rightarrow> 'k \<Rightarrow> 'v option"
    and put :: "'k \<Rightarrow> 'v \<Rightarrow> 'm \<Rightarrow> 'm"
    and del :: "'k \<Rightarrow> 'm \<Rightarrow> 'm"
    and len :: "'m \<Rightarrow> nat"
    and emp :: "'m"
    and wf :: "'m \<Rightarrow> bool"
  assumes get_emp: "get emp k = None"
    and get_put: "get (put k v m) k' = (if k' = k then Some v else get m k')"
    and get_del: "get (del k m) k' = (if k' = k then None else get m k')"
    and wf_emp: "wf emp"
    and wf_put: "wf m \<Longrightarrow> wf (put k v m)"
    and wf_del: "wf m \<Longrightarrow> wf (del k m)"
    and len_emp: "len emp = 0"
    and len_card: "wf m \<Longrightarrow> len m = card (dom (get m))"
    and fin: "finite (dom (get m))"
begin

lemma dom_put: "dom (get (put k v m)) = insert k (dom (get m))"
  by (auto simp: get_put)

lemma dom_del: "dom (get (del k m)) = dom (get m) - {k}"
  by (auto simp: get_del split: if_splits)

lemma len_put_present: "wf m \<Longrightarrow> get m k = Some v0 \<Longrightarrow> len (put k v m) = len m"
  by (simp add: len_card wf_put dom_put insert_absorb domI)

lemma len_put_absent: "wf m \<Longrightarrow> get m k = None \<Longrightarrow> len (put k v m) = Suc (len m)"
  by (simp add: len_card wf_put dom_put fin domIff)

lemma len_put_le: "wf m \<Longrightarrow> len (put k v m) \<le> Suc (len m)"
  by (cases "get m k") (simp_all add: len_put_present len_put_absent)

lemma len_del_le: "wf m \<Longrightarrow> len (del k m) \<le> len m"
  by (simp add: len_card wf_del dom_del fin card_mono)

lemma len_del_present: "wf m \<Longrightarrow> get m k = Some v0 \<Longrightarrow> Suc (len (del k m)) = len m"
proof -
  assume m: "wf m" "get m k = Some v0"
  then have "Suc (card (dom (get m) - {k})) = card (dom (get m))"
    by (intro card.remove [symmetric] fin) auto
  with m show "Suc (len (del k m)) = len m"
    by (simp add: len_card wf_del dom_del)
qed

lemma put_then_del_len: "wf m \<Longrightarrow> get m k = None \<Longrightarrow> len (del k (put k v m)) = len m"
  using len_del_present [of "put k v m" k v] by (simp add: wf_put get_put len_put_absent)

end

lemma hget_map_of: "hget m = map_of m"
  by (rule ext) (simp add: hget_def)

lemma hget_put [simp, hmap_laws]: "hget (hput k v m) k' = (if k' = k then Some v else hget m k')"
  by (simp add: hget_def hput_def update_conv')

lemma hget_del [simp, hmap_laws]: "hget (hdel k m) k' = (if k' = k then None else hget m k')"
  by (simp add: hget_def hdel_def delete_conv')

lemma hget_Nil [simp, hmap_laws]: "hget [] k = None"
  by (simp add: hget_def)

lemma hwf_Nil [simp, wf_intros]: "hwf []"
  by (simp add: hwf_def)

lemma hwf_put [simp, wf_intros]: "hwf m \<Longrightarrow> hwf (hput k v m)"
  by (simp add: hwf_def hput_def distinct_update)

lemma hwf_del [simp, wf_intros]: "hwf m \<Longrightarrow> hwf (hdel k m)"
  by (simp add: hwf_def hdel_def distinct_delete)

lemma hwf_retain [simp, wf_intros]: "hwf m \<Longrightarrow> hwf (hretain P m)"
  unfolding hwf_def hretain_def by (induction m) auto

lemma hlen_retain_le: "hlen (hretain P m) \<le> hlen m"
  by (simp add: hlen_def hretain_def)

lemma hget_in_set: "hwf m \<Longrightarrow> (k, v) \<in> set m \<longleftrightarrow> hget m k = Some v"
  by (simp add: hwf_def hget_def)

lemma hget_retain:
  "hwf m \<Longrightarrow> hget (hretain P m) k =
    (case hget m k of None \<Rightarrow> None | Some v \<Rightarrow> if P k v then Some v else None)"
  unfolding hwf_def hget_def hretain_def
  by (induction m) (auto split: option.splits simp: map_of_eq_None_iff rev_image_eqI)

lemma hput_absent: "hget m k = None \<Longrightarrow> hput k v m = m @ [(k, v)]"
  unfolding hget_def hput_def by (induction m) (auto split: if_splits)

lemma hput_set: "(k', w) \<in> set (hput k v m) \<Longrightarrow> (k', w) = (k, v) \<or> (k', w) \<in> set m"
  unfolding hput_def by (induction m) (auto split: if_splits)

lemma hdel_set: "(k', w) \<in> set (hdel k m) \<Longrightarrow> k' \<noteq> k \<and> (k', w) \<in> set m"
  by (auto simp: hdel_def AList.delete_eq)

interpretation hm: sized_map hget hput hdel hlen "[]" hwf
proof unfold_locales
  fix m :: "('a, 'b) hmap"
  show "finite (dom (hget m))"
    by (simp add: hget_map_of finite_dom_map_of)
  assume "hwf m"
  then show "hlen m = card (dom (hget m))"
    unfolding hwf_def hlen_def hget_map_of
    by (simp add: dom_map_of_conv_image_fst distinct_card flip: set_map)
qed (simp_all add: hlen_def)

section \<open>Clocks\<close>

text \<open>
  An \<^verbatim>\<open>Instant\<close> is a number of nanoseconds; \<^verbatim>\<open>elapsed\<close> saturates at zero, as the standard
  library's does, which is what subtraction on \<^typ>\<open>nat\<close> is.
\<close>

type_synonym instant = nat

definition elapsed_secs :: "instant \<Rightarrow> instant \<Rightarrow> nat" where
  "elapsed_secs now t = (now - t) div 10 ^ 9"

definition elapsed_millis :: "instant \<Rightarrow> instant \<Rightarrow> nat" where
  "elapsed_millis now t = (now - t) div 10 ^ 6"

definition after_millis :: "instant \<Rightarrow> nat \<Rightarrow> instant" where
  "after_millis now ms = now + ms * 10 ^ 6"

lemma elapsed_secs_mono: "t \<le> t' \<Longrightarrow> elapsed_secs now t' \<le> elapsed_secs now t"
  by (simp add: elapsed_secs_def div_le_mono)

lemma elapsed_self [simp]: "elapsed_secs t t = 0" "elapsed_millis t t = 0"
  by (simp_all add: elapsed_secs_def elapsed_millis_def)

section \<open>Systems with an invariant\<close>

text \<open>The contract of every step relation of the development: the states it starts in satisfy the
  invariant and each step keeps it.\<close>

locale invariant_system =
  fixes step :: "'s \<Rightarrow> 's \<Rightarrow> bool"
    and start :: "'s \<Rightarrow> bool"
    and inv :: "'s \<Rightarrow> bool"
  assumes start_inv: "start s \<Longrightarrow> inv s"
    and step_inv: "step s s' \<Longrightarrow> inv s \<Longrightarrow> inv s'"
begin

lemma steps_inv: "step\<^sup>*\<^sup>* s t \<Longrightarrow> inv s \<Longrightarrow> inv t"
  by (induction rule: rtranclp_induct) (auto intro: step_inv)

lemma reachable_inv: "start s \<Longrightarrow> step\<^sup>*\<^sup>* s t \<Longrightarrow> inv t"
  using steps_inv start_inv by blast

end

text \<open>A system that implements another one: seen through \<open>abs\<close>, each of its steps is a step of the
  specification or none at all. What every step of the specification keeps, every run keeps.\<close>

locale simulation = invariant_system step start inv
  for step :: "'s \<Rightarrow> 's \<Rightarrow> bool" and start :: "'s \<Rightarrow> bool" and inv :: "'s \<Rightarrow> bool" +
  fixes spec :: "'a \<Rightarrow> 'a \<Rightarrow> bool"
    and abs :: "'s \<Rightarrow> 'a"
  assumes step_spec: "step s s' \<Longrightarrow> inv s \<Longrightarrow> abs s' = abs s \<or> spec (abs s) (abs s')"
begin

lemma steps_spec: "step\<^sup>*\<^sup>* s t \<Longrightarrow> inv s \<Longrightarrow> spec\<^sup>*\<^sup>* (abs s) (abs t)"
proof (induction rule: rtranclp_induct)
  case (step t u)
  with step_spec [of t u] steps_inv [of s t] show ?case by (metis rtranclp.rtrancl_into_rtrancl)
qed simp

lemma steps_keep:
  assumes "step\<^sup>*\<^sup>* s t" "inv s" "\<And>a a'. spec a a' \<Longrightarrow> P a \<Longrightarrow> P a'" "P (abs s)"
  shows "P (abs t)"
  using steps_spec [OF assms(1,2)] assms(4)
  by (induction rule: rtranclp_induct) (auto intro: assms(3))

end

section \<open>Lists and options\<close>

lemma find_SomeD: "List.find P xs = Some x \<Longrightarrow> x \<in> set xs \<and> P x"
  by (induction xs) (auto split: if_splits)

lemma find_None_iff_set: "List.find P xs = None \<longleftrightarrow> (\<forall>x \<in> set xs. \<not> P x)"
  by (induction xs) auto

lemma find_first_index:
  assumes "List.find P xs = Some x"
  shows "\<exists>i < length xs. xs ! i = x \<and> P x \<and> (\<forall>j < i. \<not> P (xs ! j))"
  using assms by (auto simp: find_Some_iff)

end
