(* ===== verification/Rust_Str.thy ===== *)
theory Rust_Str
  imports Prelude
begin

text \<open>
  The operations of the Rust standard library on text that the program uses: trimming,
  splitting, lines, case mapping, searching, and reading and printing integers. Text is
  a list of characters; white space and case mapping are those of ASCII.
\<close>

section \<open>White space and case\<close>

definition is_ws :: "char \<Rightarrow> bool" where
  "is_ws c \<longleftrightarrow> c \<in> {CHR '' '', CHR 0x09, CHR 0x0A, CHR 0x0B, CHR 0x0C, CHR 0x0D}"

definition newline :: char where
  "newline = CHR 0x0A"

definition trim :: "string \<Rightarrow> string" where
  "trim s = rev (dropWhile is_ws (rev (dropWhile is_ws s)))"

definition lower_char :: "char \<Rightarrow> char" where
  "lower_char c =
     (let n = of_char c :: nat in if 65 \<le> n \<and> n \<le> 90 then char_of (n + 32) else c)"

definition upper_char :: "char \<Rightarrow> char" where
  "upper_char c =
     (let n = of_char c :: nat in if 97 \<le> n \<and> n \<le> 122 then char_of (n - 32) else c)"

definition to_lowercase :: "string \<Rightarrow> string" where
  "to_lowercase s = map lower_char s"

definition to_uppercase :: "string \<Rightarrow> string" where
  "to_uppercase s = map upper_char s"

section \<open>Splitting and searching\<close>

text \<open>\<^verbatim>\<open>str::split\<close>: always at least one piece.\<close>

fun split_on :: "('a \<Rightarrow> bool) \<Rightarrow> 'a list \<Rightarrow> 'a list list" where
  "split_on P [] = [[]]"
| "split_on P (x # xs) =
     (if P x then [] # split_on P xs
      else (case split_on P xs of [] \<Rightarrow> [[x]] | y # ys \<Rightarrow> (x # y) # ys))"

definition split_char :: "char \<Rightarrow> string \<Rightarrow> string list" where
  "split_char c s = split_on (\<lambda>x. x = c) s"

definition split_whitespace :: "string \<Rightarrow> string list" where
  "split_whitespace s = filter (\<lambda>t. t \<noteq> []) (split_on is_ws s)"

text \<open>\<^verbatim>\<open>str::lines\<close>: pieces ended by a newline lose one carriage return before it; a last
  piece that is empty is not a line.\<close>

definition strip_cr :: "string \<Rightarrow> string" where
  "strip_cr s = (if s \<noteq> [] \<and> last s = CHR 0x0D then butlast s else s)"

definition str_lines :: "string \<Rightarrow> string list" where
  "str_lines s =
     (let ps = split_on (\<lambda>c. c = newline) s
      in map strip_cr (butlast ps) @ (if last ps = [] then [] else [last ps]))"

fun split_once_by :: "('a \<Rightarrow> bool) \<Rightarrow> 'a list \<Rightarrow> ('a list \<times> 'a list) option" where
  "split_once_by P [] = None"
| "split_once_by P (x # xs) =
     (if P x then Some ([], xs)
      else map_option (\<lambda>(l, r). (x # l, r)) (split_once_by P xs))"

definition split_once :: "char \<Rightarrow> string \<Rightarrow> (string \<times> string) option" where
  "split_once c s = split_once_by (\<lambda>x. x = c) s"

definition rsplit_once :: "char \<Rightarrow> string \<Rightarrow> (string \<times> string) option" where
  "rsplit_once c s = map_option (\<lambda>(r, l). (rev l, rev r)) (split_once_by (\<lambda>x. x = c) (rev s))"

fun starts_with :: "string \<Rightarrow> string \<Rightarrow> bool" where
  "starts_with [] s = True"
| "starts_with (p # ps) [] = False"
| "starts_with (p # ps) (c # cs) = (p = c \<and> starts_with ps cs)"

definition ends_with :: "string \<Rightarrow> string \<Rightarrow> bool" where
  "ends_with p s = starts_with (rev p) (rev s)"

fun str_contains :: "string \<Rightarrow> string \<Rightarrow> bool" where
  "str_contains p [] = (p = [])"
| "str_contains p (c # cs) = (starts_with p (c # cs) \<or> str_contains p cs)"

definition strip_prefix_char :: "char \<Rightarrow> string \<Rightarrow> string option" where
  "strip_prefix_char c s = (case s of [] \<Rightarrow> None | x # xs \<Rightarrow> if x = c then Some xs else None)"

definition replace_char :: "char \<Rightarrow> char \<Rightarrow> string \<Rightarrow> string" where
  "replace_char a b s = map (\<lambda>c. if c = a then b else c) s"

section \<open>Decimal numbers\<close>

definition digit_val :: "char \<Rightarrow> nat option" where
  "digit_val c =
     (let n = of_char c :: nat in if 48 \<le> n \<and> n \<le> 57 then Some (n - 48) else None)"

definition digit_char :: "nat \<Rightarrow> char" where
  "digit_char d = char_of (48 + d mod 10)"

fun digits_val :: "nat \<Rightarrow> string \<Rightarrow> nat option" where
  "digits_val acc [] = Some acc"
| "digits_val acc (c # cs) =
     (case digit_val c of None \<Rightarrow> None | Some d \<Rightarrow> digits_val (10 * acc + d) cs)"

definition parse_digits :: "string \<Rightarrow> nat option" where
  "parse_digits s = (if s = [] then None else digits_val 0 s)"

text \<open>\<^verbatim>\<open>str::parse\<close> at an unsigned type whose largest value is \<open>mx\<close>: an optional plus
  sign, at least one digit, no overflow.\<close>

definition parse_unsigned :: "nat \<Rightarrow> string \<Rightarrow> nat option" where
  "parse_unsigned mx s =
     (case parse_digits (case s of [] \<Rightarrow> [] | c # cs \<Rightarrow> if c = CHR ''+'' then cs else s) of
        None \<Rightarrow> None
      | Some n \<Rightarrow> if n \<le> mx then Some n else None)"

definition parse_signed :: "nat \<Rightarrow> string \<Rightarrow> int option" where
  "parse_signed mx s =
     (case s of
        [] \<Rightarrow> None
      | c # cs \<Rightarrow>
          if c = CHR ''-'' then
            (case parse_digits cs of
               None \<Rightarrow> None
             | Some n \<Rightarrow> if n \<le> Suc mx then Some (- int n) else None)
          else map_option int (parse_unsigned mx s))"

abbreviation parse_u16 :: "string \<Rightarrow> nat option" where
  "parse_u16 \<equiv> parse_unsigned 65535"

abbreviation parse_u64 :: "string \<Rightarrow> nat option" where
  "parse_u64 \<equiv> parse_unsigned 18446744073709551615"

abbreviation parse_i32 :: "string \<Rightarrow> int option" where
  "parse_i32 \<equiv> parse_signed 2147483647"

fun show_nat :: "nat \<Rightarrow> string" where
  "show_nat n = (if n < 10 then [digit_char n] else show_nat (n div 10) @ [digit_char n])"

declare show_nat.simps [simp del]

definition show_int :: "int \<Rightarrow> string" where
  "show_int i = (if i < 0 then CHR ''-'' # show_nat (nat (- i)) else show_nat (nat i))"

section \<open>Facts on text\<close>

text \<open>What evaluates the operations above on a literal.\<close>

lemmas text_eval =
  trim_def is_ws_def newline_def to_lowercase_def to_uppercase_def lower_char_def upper_char_def
  char_of_def bit_0 bit_Suc split_char_def split_whitespace_def str_lines_def strip_cr_def
  split_once_def rsplit_once_def ends_with_def strip_prefix_char_def replace_char_def
  digit_val_def digit_char_def parse_digits_def parse_unsigned_def parse_signed_def
  show_nat.simps show_int_def

lemma dropWhile_none: "\<forall>c \<in> set xs. \<not> P c \<Longrightarrow> dropWhile P xs = xs"
  by (cases xs) auto

lemma trim_nonws [simp]: "\<forall>c \<in> set s. \<not> is_ws c \<Longrightarrow> trim s = s"
  by (simp add: trim_def dropWhile_none)

lemma dropWhile_hd: "dropWhile P xs = [] \<or> \<not> P (hd (dropWhile P xs))"
  using hd_dropWhile by blast

lemma dropWhile_fix: "xs = [] \<or> \<not> P (hd xs) \<Longrightarrow> dropWhile P xs = xs"
  by (cases xs) auto

lemma trim_hd_last:
  assumes "trim s \<noteq> []"
  shows "\<not> is_ws (hd (trim s)) \<and> \<not> is_ws (last (trim s))"
proof -
  define u where "u = dropWhile is_ws s"
  define v where "v = dropWhile is_ws (rev u)"
  have t: "trim s = rev v" by (simp add: trim_def u_def v_def)
  from assms t have v: "v \<noteq> []" by simp
  then have lv: "\<not> is_ws (hd v)" unfolding v_def by (rule hd_dropWhile)
  obtain w where w: "rev u = w @ v"
    unfolding v_def by (metis takeWhile_dropWhile_id)
  then have "u = rev v @ rev w" by (metis rev_append rev_rev_ident)
  moreover have "u \<noteq> []" using w v by auto
  then have "\<not> is_ws (hd u)" unfolding u_def by (rule hd_dropWhile)
  ultimately have "\<not> is_ws (hd (rev v))" using v by simp
  with lv t v show ?thesis by (simp add: hd_rev last_rev)
qed

lemma trim_idem [simp]: "trim (trim s) = trim s"
proof (cases "trim s = []")
  case True
  then show ?thesis by (simp add: trim_def [of "[]"])
next
  case False
  with trim_hd_last [of s] show ?thesis
    unfolding trim_def [of "trim s"]
    by (simp add: dropWhile_fix hd_rev)
qed

lemma set_trim: "set (trim s) \<subseteq> set s"
  by (auto simp: trim_def dest!: set_dropWhileD)

lemma lower_char_idem [simp]: "lower_char (lower_char c) = lower_char c"
  by (simp add: lower_char_def Let_def)

lemma upper_char_idem [simp]: "upper_char (upper_char c) = upper_char c"
  by (auto simp: upper_char_def Let_def)

lemma lower_char_eq_nonletter:
  assumes "(of_char d :: nat) < 65 \<or> 122 < (of_char d :: nat)"
  shows "lower_char c = d \<longleftrightarrow> c = d"
  using assms by (auto simp: lower_char_def Let_def)

lemma to_lowercase_idem [simp]: "to_lowercase (to_lowercase s) = to_lowercase s"
  by (simp add: to_lowercase_def)

lemma to_lowercase_append [simp]: "to_lowercase (s @ t) = to_lowercase s @ to_lowercase t"
  by (simp add: to_lowercase_def)

lemma is_ws_lower [simp]: "is_ws (lower_char c) = is_ws c"
  unfolding is_ws_def insert_iff empty_iff
  by (simp add: lower_char_eq_nonletter)

lemma trim_to_lowercase: "trim (to_lowercase s) = to_lowercase (trim s)"
  by (simp add: trim_def to_lowercase_def dropWhile_map rev_map comp_def)

lemma lower_colon [simp]: "lower_char c = CHR '':'' \<longleftrightarrow> c = CHR '':''"
  by (rule lower_char_eq_nonletter) simp

lemma colon_in_lowercase [simp]: "CHR '':'' \<in> set (to_lowercase s) \<longleftrightarrow> CHR '':'' \<in> set s"
  by (induction s) (simp_all add: to_lowercase_def eq_commute [of "CHR '':''"])

lemma split_on_nonempty [simp]: "split_on P s \<noteq> []"
  by (induction s) (auto split: list.splits)

lemma split_on_no_sep: "t \<in> set (split_on P s) \<Longrightarrow> \<forall>c \<in> set t. \<not> P c"
proof (induction s arbitrary: t)
  case (Cons x xs)
  then show ?case
    by (cases "split_on P xs") (force split: if_splits)+
qed simp

lemma split_on_id: "\<forall>c \<in> set s. \<not> P c \<Longrightarrow> split_on P s = [s]"
  by (induction s) auto

lemma split_on_append_sep:
  "\<forall>c \<in> set s. \<not> P c \<Longrightarrow> P d \<Longrightarrow> split_on P (s @ d # t) = s # split_on P t"
  by (induction s) auto

lemma split_whitespace_pieces:
  "t \<in> set (split_whitespace s) \<Longrightarrow> t \<noteq> [] \<and> (\<forall>c \<in> set t. \<not> is_ws c)"
  unfolding split_whitespace_def using split_on_no_sep by fastforce

lemma split_once_by_Some:
  "split_once_by P s = Some (l, r) \<Longrightarrow> \<exists>x. s = l @ x # r \<and> P x \<and> (\<forall>c \<in> set l. \<not> P c)"
proof (induction s arbitrary: l r)
  case (Cons x xs)
  show ?case
  proof (cases "P x")
    case True
    with Cons.prems show ?thesis by simp
  next
    case False
    with Cons.prems obtain l' where "l = x # l'" "split_once_by P xs = Some (l', r)" by auto
    with Cons.IH False show ?thesis by fastforce
  qed
qed simp

lemma of_char_digit_char: "of_char (digit_char n) = 48 + n mod (10 :: nat)"
proof -
  have "48 + n mod 10 < (256 :: nat)" by simp
  then show ?thesis by (simp add: digit_char_def)
qed

lemma digit_val_digit_char: "digit_val (digit_char n) = Some (n mod 10)"
  using of_char_digit_char [of n] by (simp add: digit_val_def)

lemma digit_char_range: "48 \<le> (of_char (digit_char n) :: nat) \<and> of_char (digit_char n) \<le> (57 :: nat)"
  by (simp add: of_char_digit_char)

lemma digits_val_append:
  "digits_val acc (s @ t) = (case digits_val acc s of None \<Rightarrow> None | Some a \<Rightarrow> digits_val a t)"
  by (induction s arbitrary: acc) (auto split: option.splits)

lemma digits_val_show_nat: "digits_val 0 (show_nat n) = Some n"
proof (induction n rule: show_nat.induct)
  case (1 n)
  show ?case
  proof (cases "n < 10")
    case True
    then show ?thesis by (simp add: show_nat.simps [of n] digit_val_digit_char)
  next
    case False
    with "1" have "digits_val 0 (show_nat (n div 10)) = Some (n div 10)" by simp
    with False show ?thesis
      by (simp add: show_nat.simps [of n] digits_val_append digit_val_digit_char)
  qed
qed

lemma show_nat_nonempty [simp]: "show_nat n \<noteq> []"
  by (subst show_nat.simps) simp

lemma show_nat_digits:
  "c \<in> set (show_nat n) \<Longrightarrow> 48 \<le> (of_char c :: nat) \<and> of_char c \<le> (57 :: nat)"
proof (induction n rule: show_nat.induct)
  case (1 n)
  then show ?case
    by (cases "n < 10") (auto simp: show_nat.simps [of n] digit_char_range)
qed

text \<open>Reading back a printed number gives the number.\<close>

lemma parse_digits_show_nat [simp]: "parse_digits (show_nat n) = Some n"
  by (simp add: parse_digits_def digits_val_show_nat)

lemma parse_unsigned_show_nat:
  assumes "n \<le> mx"
  shows "parse_unsigned mx (show_nat n) = Some n"
proof -
  obtain c cs where s: "show_nat n = c # cs" by (cases "show_nat n") auto
  then have "48 \<le> (of_char c :: nat)" using show_nat_digits [of c n] by simp
  then have "c \<noteq> CHR ''+''" by auto
  with s assms show ?thesis
    using parse_digits_show_nat [of n] by (simp add: parse_unsigned_def)
qed

lemma show_nat_inj: "show_nat m = show_nat n \<Longrightarrow> m = n"
  by (metis option.inject parse_digits_show_nat)

end
