(* ===== verification/Net.thy ===== *)
theory Net
  imports Rust_Str
begin

text \<open>
  \<^verbatim>\<open>std::net\<close> as the program uses it: addresses with their order, the predicates and
  conversions between the two families, and the textual forms. A socket address is an
  address and a port; the flow label and the scope of an IPv6 socket address are not
  represented.
\<close>

unbundle bit_operations_syntax

datatype ipaddr = V4 "32 word" | V6 "128 word"

datatype sockaddr = SocketAddr (sa_ip: ipaddr) (sa_port: "16 word")

section \<open>Order, families, special addresses\<close>

instantiation ipaddr :: linorder
begin

fun less_eq_ipaddr :: "ipaddr \<Rightarrow> ipaddr \<Rightarrow> bool" where
  "less_eq_ipaddr (V4 a) (V4 b) = (a \<le> b)"
| "less_eq_ipaddr (V6 a) (V6 b) = (a \<le> b)"
| "less_eq_ipaddr (V4 _) (V6 _) = True"
| "less_eq_ipaddr (V6 _) (V4 _) = False"

definition less_ipaddr :: "ipaddr \<Rightarrow> ipaddr \<Rightarrow> bool" where
  "less_ipaddr a b \<longleftrightarrow> a \<le> b \<and> \<not> b \<le> a"

instance
proof
  fix x y z :: ipaddr
  show "(x < y) = (x \<le> y \<and> \<not> y \<le> x)" by (simp add: less_ipaddr_def)
  show "x \<le> x" by (cases x) simp_all
  show "x \<le> y \<Longrightarrow> y \<le> z \<Longrightarrow> x \<le> z" by (cases x; cases y; cases z) auto
  show "x \<le> y \<Longrightarrow> y \<le> x \<Longrightarrow> x = y" by (cases x; cases y) auto
  show "x \<le> y \<or> y \<le> x" by (cases x; cases y) auto
qed

end

fun to_canonical :: "ipaddr \<Rightarrow> ipaddr" where
  "to_canonical (V4 a) = V4 a"
| "to_canonical (V6 a) = (if drop_bit 32 a = 0xFFFF then V4 (ucast a) else V6 a)"

definition v6_to_ipv4 :: "128 word \<Rightarrow> (32 word) option" where
  "v6_to_ipv4 a = (if drop_bit 32 a = 0xFFFF \<or> drop_bit 32 a = 0 then Some (ucast a) else None)"

fun is_loopback :: "ipaddr \<Rightarrow> bool" where
  "is_loopback (V4 a) = (drop_bit 24 a = 127)"
| "is_loopback (V6 a) = (a = 1)"

fun is_unspecified :: "ipaddr \<Rightarrow> bool" where
  "is_unspecified (V4 a) = (a = 0)"
| "is_unspecified (V6 a) = (a = 0)"

fun is_ipv4 :: "ipaddr \<Rightarrow> bool" where
  "is_ipv4 (V4 _) = True"
| "is_ipv4 (V6 _) = False"

definition v4_localhost :: ipaddr where
  "v4_localhost = V4 0x7F000001"

definition v6_localhost :: ipaddr where
  "v6_localhost = V6 1"

definition v4_of :: "nat \<Rightarrow> nat \<Rightarrow> nat \<Rightarrow> nat \<Rightarrow> ipaddr" where
  "v4_of a b c d = V4 (of_nat (((a * 256 + b) * 256 + c) * 256 + d))"

section \<open>Printing\<close>

definition octets :: "32 word \<Rightarrow> nat list" where
  "octets a = [unat a div 16777216, unat a div 65536 mod 256, unat a div 256 mod 256, unat a mod 256]"

definition segments :: "128 word \<Rightarrow> nat list" where
  "segments a = map (\<lambda>i. unat a div 2 ^ (16 * (7 - i)) mod 65536) [0..<8]"

definition hex_char :: "nat \<Rightarrow> char" where
  "hex_char d = ''0123456789abcdef'' ! (d mod 16)"

fun show_hex :: "nat \<Rightarrow> string" where
  "show_hex n = (if n < 16 then [hex_char n] else show_hex (n div 16) @ [hex_char n])"

declare show_hex.simps [simp del]

fun join :: "string \<Rightarrow> string list \<Rightarrow> string" where
  "join sep [] = []"
| "join sep [s] = s"
| "join sep (s # t # ts) = s @ sep @ join sep (t # ts)"

definition show_v4 :: "32 word \<Rightarrow> string" where
  "show_v4 a = join ''.'' (map show_nat (octets a))"

text \<open>The longest run of zero segments, the first one on a tie: (start, length).\<close>

fun zero_run :: "nat \<Rightarrow> nat \<times> nat \<Rightarrow> nat \<times> nat \<Rightarrow> nat list \<Rightarrow> nat \<times> nat" where
  "zero_run i cur best [] = best"
| "zero_run i cur best (s # ss) =
     (if s = 0 then
        (let cur' = (if snd cur = 0 then (i, 1) else (fst cur, Suc (snd cur)))
         in zero_run (Suc i) cur' (if snd cur' > snd best then cur' else best) ss)
      else zero_run (Suc i) (0, 0) best ss)"

definition show_v6 :: "128 word \<Rightarrow> string" where
  "show_v6 a =
     (if drop_bit 32 a = 0xFFFF then ''::ffff:'' @ show_v4 (ucast a)
      else (let ss = segments a; (st, ln) = zero_run 0 (0, 0) (0, 0) ss; hex = map show_hex
            in if ln > 1 then join '':'' (hex (take st ss)) @ ''::'' @ join '':'' (hex (drop (st + ln) ss))
               else join '':'' (hex ss)))"

fun show_ip :: "ipaddr \<Rightarrow> string" where
  "show_ip (V4 a) = show_v4 a"
| "show_ip (V6 a) = show_v6 a"

definition show_sockaddr :: "sockaddr \<Rightarrow> string" where
  "show_sockaddr sa =
     (case sa_ip sa of
        V4 a \<Rightarrow> show_v4 a @ '':'' @ show_nat (unat (sa_port sa))
      | V6 a \<Rightarrow> ''['' @ show_v6 a @ '']:'' @ show_nat (unat (sa_port sa)))"

section \<open>Reading\<close>

definition is_digit :: "char \<Rightarrow> bool" where
  "is_digit c \<longleftrightarrow> digit_val c \<noteq> None"

definition hex_val :: "char \<Rightarrow> nat option" where
  "hex_val c =
     (let n = of_char (lower_char c) :: nat
      in if 48 \<le> n \<and> n \<le> 57 then Some (n - 48)
         else if 97 \<le> n \<and> n \<le> 102 then Some (n - 87) else None)"

fun hex_digits_val :: "nat \<Rightarrow> string \<Rightarrow> nat" where
  "hex_digits_val acc [] = acc"
| "hex_digits_val acc (c # cs) = hex_digits_val (16 * acc + the (hex_val c)) cs"

text \<open>One to three decimal digits without a leading zero, at most 255.\<close>

definition read_octet :: "string \<Rightarrow> (nat \<times> string) option" where
  "read_octet s =
     (let ds = takeWhile is_digit s
      in if ds = [] \<or> length ds > 3 \<or> (length ds > 1 \<and> hd ds = CHR ''0'') then None
         else (case digits_val 0 ds of
                 None \<Rightarrow> None
               | Some n \<Rightarrow> if n \<le> 255 then Some (n, dropWhile is_digit s) else None))"

definition read_char :: "char \<Rightarrow> string \<Rightarrow> string option" where
  "read_char c s = strip_prefix_char c s"

definition read_v4 :: "string \<Rightarrow> (32 word \<times> string) option" where
  "read_v4 s =
     Option.bind (read_octet s) (\<lambda>(a, s).
     Option.bind (read_char (CHR ''.'') s) (\<lambda>s.
     Option.bind (read_octet s) (\<lambda>(b, s).
     Option.bind (read_char (CHR ''.'') s) (\<lambda>s.
     Option.bind (read_octet s) (\<lambda>(c, s).
     Option.bind (read_char (CHR ''.'') s) (\<lambda>s.
     Option.bind (read_octet s) (\<lambda>(d, s).
     Some (of_nat (((a * 256 + b) * 256 + c) * 256 + d), s))))))))"

text \<open>One to four hexadecimal digits.\<close>

definition read_segment :: "string \<Rightarrow> (nat \<times> string) option" where
  "read_segment s =
     (let ds = takeWhile (\<lambda>c. hex_val c \<noteq> None) s
      in if ds = [] \<or> length ds > 4 then None
         else Some (hex_digits_val 0 ds, dropWhile (\<lambda>c. hex_val c \<noteq> None) s))"

definition read_sep :: "nat \<Rightarrow> string \<Rightarrow> string option" where
  "read_sep i s = (if i = 0 then Some s else read_char (CHR '':'') s)"

text \<open>Up to \<open>n\<close> groups starting at group \<open>i\<close>: the groups, whether the last two came from a
  dotted IPv4 address, and the rest.\<close>

fun read_groups :: "nat \<Rightarrow> nat \<Rightarrow> string \<Rightarrow> nat list \<times> bool \<times> string" where
  "read_groups 0 i s = ([], False, s)"
| "read_groups (Suc n) i s =
     (case (if n = 0 then None else Option.bind (read_sep i s) read_v4) of
        Some (a, r) \<Rightarrow> ([unat a div 65536, unat a mod 65536], True, r)
      | None \<Rightarrow>
          (case Option.bind (read_sep i s) read_segment of
             None \<Rightarrow> ([], False, s)
           | Some (g, r) \<Rightarrow>
               (let (gs, v4, r') = read_groups n (Suc i) r in (g # gs, v4, r'))))"

definition v6_of_segments :: "nat list \<Rightarrow> 128 word" where
  "v6_of_segments ss = of_nat (foldl (\<lambda>acc s. acc * 65536 + s) 0 ss)"

definition read_v6 :: "string \<Rightarrow> (128 word \<times> string) option" where
  "read_v6 s =
     (let (hd_gs, hd_v4, r) = read_groups 8 0 s
      in if length hd_gs = 8 then Some (v6_of_segments hd_gs, r)
         else if hd_v4 then None
         else Option.bind (read_char (CHR '':'') r) (\<lambda>r.
              Option.bind (read_char (CHR '':'') r) (\<lambda>r.
                let (tl_gs, tl_v4, r') = read_groups (7 - length hd_gs) 0 r
                in Some (v6_of_segments
                     (hd_gs @ replicate (8 - length hd_gs - length tl_gs) 0 @ tl_gs), r'))))"

definition parse_v4 :: "string \<Rightarrow> ipaddr option" where
  "parse_v4 s =
     (if length s > 15 then None
      else case read_v4 s of Some (a, []) \<Rightarrow> Some (V4 a) | _ \<Rightarrow> None)"

definition parse_v6 :: "string \<Rightarrow> ipaddr option" where
  "parse_v6 s = (case read_v6 s of Some (a, []) \<Rightarrow> Some (V6 a) | _ \<Rightarrow> None)"

definition parse_ip :: "string \<Rightarrow> ipaddr option" where
  "parse_ip s =
     (case Option.bind (read_v4 s) (\<lambda>(a, r). if r = [] then Some (V4 a) else None) of
        Some ip \<Rightarrow> Some ip | None \<Rightarrow> parse_v6 s)"

text \<open>A colon and a decimal port.\<close>

definition read_port :: "string \<Rightarrow> (nat \<times> string) option" where
  "read_port s =
     Option.bind (read_char (CHR '':'') s) (\<lambda>r.
       case parse_digits (takeWhile is_digit r) of
         None \<Rightarrow> None
       | Some n \<Rightarrow> if n \<le> 65535 then Some (n, dropWhile is_digit r) else None)"

text \<open>An optional scope: a percent sign and a decimal number of 32 bits.\<close>

definition skip_scope :: "string \<Rightarrow> string" where
  "skip_scope s =
     (case Option.bind (read_char (CHR ''%'') s) (\<lambda>r.
             map_option (\<lambda>n. (n, dropWhile is_digit r)) (parse_digits (takeWhile is_digit r))) of
        Some (n, r) \<Rightarrow> if n < 4294967296 then r else s
      | None \<Rightarrow> s)"

definition parse_sockaddr :: "string \<Rightarrow> sockaddr option" where
  "parse_sockaddr s =
     (case Option.bind (read_v4 s) (\<lambda>(a, r). Option.bind (read_port r) (\<lambda>(p, r).
             if r = [] then Some (SocketAddr (V4 a) (of_nat p)) else None)) of
        Some sa \<Rightarrow> Some sa
      | None \<Rightarrow>
          Option.bind (read_char (CHR ''['') s) (\<lambda>r.
          Option.bind (read_v6 r) (\<lambda>(a, r).
          Option.bind (read_char (CHR '']'') (skip_scope r)) (\<lambda>r.
          Option.bind (read_port r) (\<lambda>(p, r).
            if r = [] then Some (SocketAddr (V6 a) (of_nat p)) else None)))))"

lemmas net_eval =
  show_v4_def show_v6_def octets_def segments_def show_hex.simps hex_char_def show_sockaddr_def
  parse_ip_def parse_v4_def parse_v6_def parse_sockaddr_def read_v4_def read_v6_def read_octet_def
  read_char_def read_segment_def read_sep_def read_port_def skip_scope_def v6_of_segments_def is_digit_def
  hex_val_def v4_of_def

section \<open>Facts\<close>

lemma to_canonical_idem [simp]: "to_canonical (to_canonical ip) = to_canonical ip"
  by (cases ip) auto

lemma to_canonical_V4 [simp]: "to_canonical (V4 a) = V4 a"
  by simp

text \<open>Reading a dotted address that was printed gives the address back.\<close>

lemma is_digit_show_nat: "c \<in> set (show_nat n) \<Longrightarrow> is_digit c"
  using show_nat_digits [of c n] by (simp add: is_digit_def digit_val_def)

lemma takeWhile_digits:
  assumes "r = [] \<or> \<not> is_digit (hd r)"
  shows "takeWhile is_digit (show_nat n @ r) = show_nat n"
    and "dropWhile is_digit (show_nat n @ r) = r"
proof -
  have "\<forall>c \<in> set (show_nat n). is_digit c" by (simp add: is_digit_show_nat)
  moreover have "takeWhile is_digit r = []" "dropWhile is_digit r = r"
    using assms by (cases r; simp)+
  ultimately show "takeWhile is_digit (show_nat n @ r) = show_nat n"
    and "dropWhile is_digit (show_nat n @ r) = r" by simp_all
qed

lemma show_nat_length: "n < 10 ^ k \<Longrightarrow> 0 < k \<Longrightarrow> length (show_nat n) \<le> k"
proof (induction k arbitrary: n)
  case (Suc k)
  show ?case
  proof (cases "n < 10")
    case True
    then show ?thesis by (simp add: show_nat.simps [of n])
  next
    case False
    with Suc.prems have "n div 10 < 10 ^ k" and "0 < k"
      by (auto simp: less_mult_imp_div_less mult.commute intro: gr0I)
    with Suc.IH have "length (show_nat (n div 10)) \<le> k" by blast
    with False show ?thesis by (simp add: show_nat.simps [of n])
  qed
qed simp

lemma show_nat_hd: "10 \<le> n \<Longrightarrow> hd (show_nat n) \<noteq> CHR ''0''"
proof (induction n rule: show_nat.induct)
  case (1 n)
  show ?case
  proof (cases "n div 10 < 10")
    case True
    have "of_char (digit_char (n div 10)) \<noteq> (48 :: nat)"
      using True "1.prems" by (simp add: of_char_digit_char)
    then have "digit_char (n div 10) \<noteq> CHR ''0''" by auto
    with True "1.prems" show ?thesis
      by (simp add: show_nat.simps [of n] show_nat.simps [of "n div 10"])
  next
    case False
    with "1" show ?thesis by (simp add: show_nat.simps [of n])
  qed
qed

lemma read_octet_show:
  assumes "n \<le> 255" "r = [] \<or> \<not> is_digit (hd r)"
  shows "read_octet (show_nat n @ r) = Some (n, r)"
proof -
  have "length (show_nat n) \<le> 3" using assms(1) by (intro show_nat_length) simp_all
  moreover have "length (show_nat n) > 1 \<Longrightarrow> hd (show_nat n) \<noteq> CHR ''0''"
    using show_nat_hd [of n] by (cases "n < 10") (simp_all add: show_nat.simps [of n])
  ultimately show ?thesis
    using assms(1)
    by (auto simp: read_octet_def Let_def takeWhile_digits [OF assms(2)] digits_val_show_nat)
qed

lemma dot_not_digit [simp]: "\<not> is_digit (CHR ''.'')"
  by (simp add: is_digit_def digit_val_def)

lemma unat_32_bound: "unat (a :: 32 word) < 4294967296"
proof -
  have "unat a < 2 ^ LENGTH(32)" by (rule unsigned_less)
  then show ?thesis by simp
qed

lemma octets_bound: "n \<in> set (octets a) \<Longrightarrow> n \<le> 255"
  using unat_32_bound [of a] by (auto simp: octets_def)

lemma octets_join:
  "((n div 16777216 * 256 + n div 65536 mod 256) * 256 + n div 256 mod 256) * 256 + n mod 256 = (n :: nat)"
proof -
  have "n div 16777216 * 256 + n div 65536 mod 256 = n div 65536"
    using div_mult2_eq [of n 65536 256] div_mult_mod_eq [of "n div 65536" 256] by simp
  moreover have "n div 65536 * 256 + n div 256 mod 256 = n div 256"
    using div_mult2_eq [of n 256 256] div_mult_mod_eq [of "n div 256" 256] by simp
  ultimately show ?thesis by simp
qed

lemma read_v4_octets:
  assumes "a \<le> 255" "b \<le> 255" "c \<le> 255" "d \<le> 255" "r = [] \<or> \<not> is_digit (hd r)"
  shows "read_v4 (join ''.'' (map show_nat [a, b, c, d]) @ r) =
    Some (of_nat (((a * 256 + b) * 256 + c) * 256 + d), r)"
  using assms by (simp add: read_v4_def read_octet_show read_char_def strip_prefix_char_def)

lemma read_v4_show: "r = [] \<or> \<not> is_digit (hd r) \<Longrightarrow> read_v4 (show_v4 a @ r) = Some (a, r)"
  unfolding show_v4_def octets_def
  using octets_bound [of _ a]
  by (subst read_v4_octets) (simp_all only: octets_def octets_join of_nat_unat, simp_all)

lemma parse_show_v4: "parse_ip (show_ip (V4 a)) = Some (V4 a)"
  using read_v4_show [of "[]" a] by (simp add: parse_ip_def)

lemma show_v4_inj: "show_v4 a = show_v4 b \<Longrightarrow> a = b"
  using parse_show_v4 [of a] parse_show_v4 [of b] by simp

end
