(* ===== verification/Rust_F64.thy ===== *)
theory Rust_F64
  imports Complex_Main Rust_Str
begin

text \<open>
  The type \<^verbatim>\<open>f64\<close>: IEEE 754 binary64 values as rounded reals, the arithmetic and the
  comparisons the program uses, the saturating cast to \<^verbatim>\<open>usize\<close>, and \<^verbatim>\<open>str::parse::<f64>\<close>.
  The sign of a zero is not represented.
\<close>

datatype f64 = NaN | Inf bool | Fin real

section \<open>Rounding\<close>

definition round_half_even :: "real \<Rightarrow> int" where
  "round_half_even x =
     (let n = \<lfloor>x\<rfloor>; d = x - of_int n
      in if d < 1 / 2 then n else if 1 / 2 < d then n + 1 else if even n then n else n + 1)"

definition round_at :: "int \<Rightarrow> real \<Rightarrow> real" where
  "round_at e x = of_int (round_half_even (x / 2 powi e)) * 2 powi e"

text \<open>
  Round to the nearest multiple of the unit in the last place, ties to even: the exponent
  is the least one that leaves a significand of at most 53 bits, and what does not fit the
  largest exponent is an infinity.
\<close>

definition min_exp :: int where
  "min_exp = -1074"

definition max_exp :: int where
  "max_exp = 971"

definition round64 :: "real \<Rightarrow> f64" where
  "round64 x =
     (case List.find (\<lambda>e. \<bar>x\<bar> < 2 powi (e + 53)) [min_exp..max_exp] of
        None \<Rightarrow> Inf (x < 0)
      | Some e \<Rightarrow>
          (let y = round_at e x in if \<bar>y\<bar> < 2 powi (max_exp + 53) then Fin y else Inf (x < 0)))"

definition f64_rep :: "f64 \<Rightarrow> bool" where
  "f64_rep a \<longleftrightarrow> (case a of Fin r \<Rightarrow> round64 r = Fin r | _ \<Rightarrow> True)"

section \<open>Operations\<close>

fun f64_add :: "f64 \<Rightarrow> f64 \<Rightarrow> f64" where
  "f64_add (Fin a) (Fin b) = round64 (a + b)"
| "f64_add NaN _ = NaN"
| "f64_add _ NaN = NaN"
| "f64_add (Inf s) (Inf t) = (if s = t then Inf s else NaN)"
| "f64_add (Inf s) (Fin _) = Inf s"
| "f64_add (Fin _) (Inf t) = Inf t"

fun f64_mul :: "f64 \<Rightarrow> f64 \<Rightarrow> f64" where
  "f64_mul (Fin a) (Fin b) = round64 (a * b)"
| "f64_mul NaN _ = NaN"
| "f64_mul _ NaN = NaN"
| "f64_mul (Inf s) (Inf t) = Inf (s \<noteq> t)"
| "f64_mul (Inf s) (Fin b) = (if b = 0 then NaN else Inf (s \<noteq> (b < 0)))"
| "f64_mul (Fin a) (Inf t) = (if a = 0 then NaN else Inf ((a < 0) \<noteq> t))"

text \<open>Division by a finite constant other than zero, the only divisions of the program.\<close>

fun f64_div_const :: "f64 \<Rightarrow> real \<Rightarrow> f64" where
  "f64_div_const (Fin a) d = round64 (a / d)"
| "f64_div_const NaN d = NaN"
| "f64_div_const (Inf s) d = Inf (s \<noteq> (d < 0))"

fun f64_lt :: "f64 \<Rightarrow> f64 \<Rightarrow> bool" where
  "f64_lt (Fin a) (Fin b) = (a < b)"
| "f64_lt NaN _ = False"
| "f64_lt _ NaN = False"
| "f64_lt (Inf s) (Inf t) = (s \<and> \<not> t)"
| "f64_lt (Inf s) (Fin _) = s"
| "f64_lt (Fin _) (Inf t) = (\<not> t)"

definition is_nan :: "f64 \<Rightarrow> bool" where
  "is_nan a \<longleftrightarrow> a = NaN"

definition is_finite :: "f64 \<Rightarrow> bool" where
  "is_finite a \<longleftrightarrow> (case a of Fin _ \<Rightarrow> True | _ \<Rightarrow> False)"

definition f64_sum :: "f64 list \<Rightarrow> f64" where
  "f64_sum xs = foldl f64_add (Fin 0) xs"

text \<open>\<^verbatim>\<open>as usize\<close>: truncates, saturates, and sends NaN to zero.\<close>

definition usize_max :: nat where
  "usize_max = 18446744073709551615"

definition f64_as_usize :: "f64 \<Rightarrow> nat" where
  "f64_as_usize a =
     (case a of
        NaN \<Rightarrow> 0
      | Inf neg \<Rightarrow> if neg then 0 else usize_max
      | Fin r \<Rightarrow> min usize_max (nat \<lfloor>r\<rfloor>))"

definition usize_as_f64 :: "nat \<Rightarrow> f64" where
  "usize_as_f64 n = round64 (real n)"

section \<open>Reading a number\<close>

definition parse_exp :: "string \<Rightarrow> int option" where
  "parse_exp s =
     (case s of
        [] \<Rightarrow> None
      | c # cs \<Rightarrow>
          if c = CHR ''-'' then map_option (\<lambda>n. - int n) (parse_digits cs)
          else if c = CHR ''+'' then map_option int (parse_digits cs)
          else map_option int (parse_digits s))"

definition parse_number :: "string \<Rightarrow> real option" where
  "parse_number s =
     (let (mant, ex) =
            (case split_once_by (\<lambda>c. c = CHR ''e'' \<or> c = CHR ''E'') s of
               None \<Rightarrow> (s, Some 0)
             | Some (m, x) \<Rightarrow> (m, parse_exp x));
          (ip, fp) = (case split_once (CHR ''.'') mant of None \<Rightarrow> (mant, []) | Some p \<Rightarrow> p)
      in if ip = [] \<and> fp = [] then None
         else (case (digits_val 0 (ip @ fp), ex) of
                 (Some n, Some e) \<Rightarrow> Some (real n * 10 powi (e - int (length fp)))
               | _ \<Rightarrow> None))"

definition parse_f64 :: "string \<Rightarrow> f64 option" where
  "parse_f64 s =
     (let (neg, body) =
            (case s of
               [] \<Rightarrow> (False, [])
             | c # cs \<Rightarrow> if c = CHR ''-'' then (True, cs)
                         else if c = CHR ''+'' then (False, cs) else (False, s));
          low = to_lowercase body
      in if low = ''nan'' then Some NaN
         else if low = ''inf'' \<or> low = ''infinity'' then Some (Inf neg)
         else (case parse_number body of
                 None \<Rightarrow> None
               | Some q \<Rightarrow> Some (round64 (if neg then - q else q))))"

section \<open>Facts\<close>

lemma round_half_even_int [simp]: "round_half_even (of_int k) = k"
  by (simp add: round_half_even_def)

lemma round_half_even_bound:
  assumes "\<bar>x\<bar> \<le> of_int n"
  shows "\<bar>round_half_even x\<bar> \<le> n"
proof -
  have lo: "- n \<le> \<lfloor>x\<rfloor>" and hi: "\<lfloor>x\<rfloor> \<le> n"
    using assms by (simp_all add: le_floor_iff floor_le_iff)
  have "\<lfloor>x\<rfloor> + 1 \<le> n" if "of_int \<lfloor>x\<rfloor> < x"
  proof -
    from that assms have "real_of_int \<lfloor>x\<rfloor> < of_int n" by linarith
    then show ?thesis by simp
  qed
  moreover have "0 \<le> x - of_int \<lfloor>x\<rfloor>" by simp
  ultimately show ?thesis
    using lo hi by (auto simp: round_half_even_def Let_def)
qed

lemma round_half_even_nonneg: "0 \<le> x \<Longrightarrow> 0 \<le> round_half_even x"
  by (simp add: round_half_even_def Let_def)

lemma round_at_multiple: "round_at e (of_int k * 2 powi e) = of_int k * 2 powi e"
  by (simp add: round_at_def)

lemma powi_split: "e' \<le> e \<Longrightarrow> (2 :: real) powi e = 2 ^ nat (e - e') * 2 powi e'"
  by (simp add: power_int_add [symmetric] flip: power_int_of_nat)

text \<open>A value with a significand of at most 53 bits and an exponent in range is its own
  rounding.\<close>

lemma exp_order: "min_exp \<le> 0" "0 \<le> max_exp" "min_exp \<le> max_exp"
  by (simp_all add: min_exp_def max_exp_def)

lemma least_exp:
  assumes fits: "\<bar>y :: real\<bar> < 2 powi (max_exp + 53)"
  obtains e where "List.find (\<lambda>e. \<bar>y\<bar> < 2 powi (e + 53)) [min_exp..max_exp] = Some e"
    and "min_exp \<le> e" and "\<And>d. min_exp \<le> d \<Longrightarrow> d < e \<Longrightarrow> 2 powi (d + 53) \<le> \<bar>y\<bar>"
proof -
  let ?P = "\<lambda>e. \<bar>y\<bar> < 2 powi (e + 53)"
  have "max_exp \<in> set [min_exp..max_exp]" by (simp add: exp_order)
  with fits obtain e where f: "List.find ?P [min_exp..max_exp] = Some e"
    by (cases "List.find ?P [min_exp..max_exp]") (auto simp: find_None_iff_set)
  then obtain i where i: "i < length [min_exp..max_exp]" "[min_exp..max_exp] ! i = e"
    and before: "\<forall>j < i. \<not> ?P ([min_exp..max_exp] ! j)"
    using find_first_index [OF f] by blast
  have ei: "e = min_exp + int i" using i by (simp add: nth_upto)
  have "2 powi (d + 53) \<le> \<bar>y\<bar>" if "min_exp \<le> d" "d < e" for d
  proof -
    have "nat (d - min_exp) < i" "[min_exp..max_exp] ! nat (d - min_exp) = d"
      using that ei i(1) by (auto simp: nth_upto)
    with before show ?thesis by (force simp: not_less)
  qed
  with f ei that show ?thesis by simp
qed

lemma round64_significand:
  assumes y: "y = of_int k * 2 powi e" and k: "\<bar>k\<bar> \<le> 2 ^ 53" and e: "min_exp \<le> e"
    and fits: "\<bar>y\<bar> < 2 powi (max_exp + 53)"
  shows "round64 y = Fin y"
proof -
  obtain e' where f: "List.find (\<lambda>e. \<bar>y\<bar> < 2 powi (e + 53)) [min_exp..max_exp] = Some e'"
    and e': "min_exp \<le> e'"
    and least: "\<And>d. min_exp \<le> d \<Longrightarrow> d < e' \<Longrightarrow> 2 powi (d + 53) \<le> \<bar>y\<bar>"
    using least_exp [OF fits] by blast
  have ay: "\<bar>y\<bar> = of_int \<bar>k\<bar> * 2 powi e"
    by (simp add: y abs_mult)
  have "\<exists>k'. y = of_int k' * 2 powi e'"
  proof (cases "e' \<le> e")
    case True
    have "y = of_int (k * 2 ^ nat (e - e')) * 2 powi e'"
      unfolding y powi_split [OF True] by simp
    then show ?thesis by blast
  next
    case False
    have "2 powi (e + 53) \<le> \<bar>y\<bar>" using least False e by simp
    then have "2 ^ 53 * 2 powi e \<le> real_of_int \<bar>k\<bar> * 2 powi e"
      by (simp add: ay power_int_add mult.commute)
    then have "(of_int (2 ^ 53) :: real) \<le> of_int \<bar>k\<bar>" by (simp add: mult_le_cancel_right)
    then have "2 ^ 53 \<le> \<bar>k\<bar>" by (simp only: of_int_le_iff)
    with k have k': "\<bar>k\<bar> = 2 ^ 53" by simp
    have yk: "\<bar>y\<bar> = 2 powi (e + 53)"
      by (simp add: ay k' power_int_add)
    have "2 powi (e' - 1 + 53) \<le> \<bar>y\<bar>" using least [of "e' - 1"] False e by simp
    then have "\<not> e + 53 < e' - 1 + 53"
      using power_int_strict_increasing [of "e + 53" "e' - 1 + 53" "2 :: real"] by (auto simp: yk)
    then have "e' - 1 \<le> e" by simp
    with False have e'_eq: "e' = e + 1" by simp
    have "even \<bar>k\<bar>" unfolding k' by simp
    then obtain h where "k = 2 * h" by (auto elim: evenE)
    then have "y = of_int h * 2 powi e'"
      unfolding y e'_eq by (simp add: power_int_add)
    then show ?thesis by blast
  qed
  then obtain k' where "y = of_int k' * 2 powi e'" by blast
  then have "round_at e' y = y" by (simp add: round_at_multiple)
  with f fits show ?thesis by (simp add: round64_def)
qed

text \<open>Rounding twice is rounding once, so every rounded value is a value of the type.\<close>

lemma f64_rep_round64 [simp]: "f64_rep (round64 x)"
proof (cases "round64 x")
  case (Fin y)
  then obtain e where f: "List.find (\<lambda>e. \<bar>x\<bar> < 2 powi (e + 53)) [min_exp..max_exp] = Some e"
    and y: "y = round_at e x" and fits: "\<bar>y\<bar> < 2 powi (max_exp + 53)"
    by (auto simp: round64_def Let_def split: option.splits if_splits)
  from find_SomeD [OF f] have e: "min_exp \<le> e" and lt: "\<bar>x\<bar> < 2 powi (e + 53)" by auto
  have "\<bar>x / 2 powi e\<bar> \<le> of_int (2 ^ 53)"
    using lt by (simp add: abs_divide power_int_add field_simps)
  then have "\<bar>round_half_even (x / 2 powi e)\<bar> \<le> 2 ^ 53" by (rule round_half_even_bound)
  with y e fits have "round64 y = Fin y"
    by (intro round64_significand [of y "round_half_even (x / 2 powi e)" e])
       (simp_all add: round_at_def)
  with Fin show ?thesis by (simp add: f64_rep_def)
qed (simp_all add: f64_rep_def)

lemma two_53_fits: "x \<le> 2 powi 53 \<Longrightarrow> x < (2 :: real) powi (max_exp + 53)"
proof -
  have "(2 :: real) powi 53 < 2 powi (max_exp + 53)"
    by (rule power_int_strict_increasing) (simp_all add: max_exp_def)
  then show "x \<le> 2 powi 53 \<Longrightarrow> x < (2 :: real) powi (max_exp + 53)" by (rule order_le_less_trans [rotated])
qed

lemma of_int_le_powi: "n \<le> 2 ^ 53 \<Longrightarrow> real_of_int n \<le> 2 powi 53"
  using of_int_le_iff [of n "2 ^ 53", where 'a = real] by simp

lemma round64_int:
  assumes "\<bar>k\<bar> \<le> 2 ^ 53"
  shows "round64 (of_int k) = Fin (of_int k)"
proof -
  have "\<bar>real_of_int k\<bar> < 2 powi (max_exp + 53)"
    using of_int_le_powi [OF assms] by (intro two_53_fits) simp
  then show ?thesis
    using assms by (intro round64_significand [of _ k 0]) (simp_all add: exp_order)
qed

text \<open>Rounding does not carry a number over an integer bound.\<close>

lemma round_at_le_int:
  assumes "0 \<le> x" "x \<le> of_int n" "e \<le> 0"
  shows "0 \<le> round_at e x \<and> round_at e x \<le> of_int n"
proof -
  let ?k = "round_half_even (x / 2 powi e)" and ?m = "n * 2 ^ nat (- e)"
  have en: "of_int n = of_int ?m * (2 :: real) powi e"
    using powi_split [OF assms(3)] by (simp add: mult.assoc)
  have "x / 2 powi e \<le> of_int ?m"
    using assms(2) unfolding en by (simp add: divide_le_eq)
  then have "\<bar>?k\<bar> \<le> ?m"
    using assms(1) by (intro round_half_even_bound) simp
  then have "?k \<le> ?m" by linarith
  moreover have "0 \<le> ?k" using assms(1) by (simp add: round_half_even_nonneg)
  ultimately have "0 \<le> real_of_int ?k" "real_of_int ?k \<le> of_int ?m"
    by (simp_all only: of_int_0_le_iff of_int_le_iff)
  then show ?thesis unfolding round_at_def en by (simp add: mult_right_mono)
qed

lemma round64_le_int:
  assumes "0 \<le> x" "x \<le> of_int n" "n \<le> 2 ^ 53"
  obtains r where "round64 x = Fin r" "0 \<le> r" "r \<le> of_int n"
proof (cases "x = of_int n")
  case True
  with assms round64_int [of n] that [of "of_int n"] show ?thesis by simp
next
  case False
  note n = of_int_le_powi [OF assms(3)]
  have "\<bar>x\<bar> \<le> 2 powi 53" using assms(1,2) n by linarith
  then obtain e where f: "List.find (\<lambda>e. \<bar>x\<bar> < 2 powi (e + 53)) [min_exp..max_exp] = Some e"
    and least: "\<And>d. min_exp \<le> d \<Longrightarrow> d < e \<Longrightarrow> 2 powi (d + 53) \<le> \<bar>x\<bar>"
    using least_exp [OF two_53_fits] by blast
  have "\<not> 2 powi (0 + 53) \<le> \<bar>x\<bar>" using assms(1,2) n False by (simp only: add_0)
  then have "e \<le> 0" using least [of 0] exp_order(1) by (meson not_le)
  with assms have r: "0 \<le> round_at e x" "round_at e x \<le> of_int n"
    using round_at_le_int by blast+
  then have "\<bar>round_at e x\<bar> < 2 powi (max_exp + 53)"
    using n by (intro two_53_fits) linarith
  with f have "round64 x = Fin (round_at e x)" by (simp add: round64_def)
  with r that show ?thesis by blast
qed

lemma round64_numeral [simp]: "numeral n \<le> (9007199254740992 :: int) \<Longrightarrow> round64 (numeral n) = Fin (numeral n)"
  using round64_int [of "numeral n"] by simp

lemma round64_0 [simp]: "round64 0 = Fin 0" and round64_1 [simp]: "round64 1 = Fin 1"
  using round64_int [of 0] round64_int [of 1] by simp_all

lemma f64_add_commute: "f64_add a b = f64_add b a"
  by (cases a; cases b) (simp_all add: add.commute)

lemma f64_add_0: "f64_rep a \<Longrightarrow> f64_add (Fin 0) a = a"
  by (cases a) (simp_all add: f64_rep_def)

lemma f64_rep_Fin_numeral [simp]:
  "numeral n \<le> (9007199254740992 :: int) \<Longrightarrow> f64_rep (Fin (numeral n))"
  by (simp add: f64_rep_def)

lemma f64_rep_Fin_0 [simp]: "f64_rep (Fin 0)"
  by (simp add: f64_rep_def)

lemma f64_sum_pair: "f64_rep a \<Longrightarrow> f64_sum [a, b] = f64_add a b"
  by (simp add: f64_sum_def f64_add_0)

lemma f64_lt_irrefl [simp]: "\<not> f64_lt a a"
  by (cases a) auto

lemma f64_lt_trans: "f64_lt a b \<Longrightarrow> f64_lt b c \<Longrightarrow> f64_lt a c"
  by (cases a; cases b; cases c) auto

lemma f64_lt_asym: "f64_lt a b \<Longrightarrow> \<not> f64_lt b a"
  by (cases a; cases b) auto

lemma f64_not_lt_trans:
  "\<not> f64_lt a b \<Longrightarrow> \<not> f64_lt b c \<Longrightarrow> \<not> is_nan b \<Longrightarrow> \<not> f64_lt a c"
  by (cases a; cases b; cases c) (auto simp: is_nan_def)

lemma parse_f64_rep: "parse_f64 s = Some a \<Longrightarrow> f64_rep a"
  by (auto simp: parse_f64_def Let_def f64_rep_def [of NaN] f64_rep_def [of "Inf _"]
      split: if_splits option.splits prod.splits)

end
