(* ===== verification/Relay_Routes.thy ===== *)
theory Relay_Routes
  imports Net Rust_F64 "HOL-Library.Multiset"
begin

text \<open>
  The routing table, \<^verbatim>\<open>src/src/relay_routes.rs\<close>: the relay list of the command line,
  the table's parser, the lookup of an address by longest prefix, and the choice of the
  cheapest healthy relay. The default relay port (\<^verbatim>\<open>hbb_common::config::RELAY_PORT\<close>) and
  the \<^verbatim>\<open>ipnetwork\<close> crate are parameters.
\<close>

section \<open>Relays and relay lists\<close>

definition normalize :: "int \<Rightarrow> string \<Rightarrow> string" where
  "normalize relay_port relay =
     (let r = to_lowercase (trim relay)
      in if CHR '':'' \<in> set r then r else r @ '':'' @ show_int relay_port)"

datatype relay_problem =
    ContainsSpace
  | IsUrl
  | SeveralColons
  | NoHost
  | NotAPort string
  | ListedTwice

definition relay_entry_problem :: "string \<Rightarrow> relay_problem option" where
  "relay_entry_problem entry =
     (if \<exists>c \<in> set entry. is_ws c then Some ContainsSpace
      else if str_contains ''://'' entry \<or> CHR ''/'' \<in> set entry then Some IsUrl
      else
        (case (case strip_prefix_char (CHR ''['') entry of
                 Some rest \<Rightarrow>
                   (case split_once (CHR '']'') rest of
                      None \<Rightarrow> Inl None
                    | Some (v6, after) \<Rightarrow> Inr (entry, strip_prefix_char (CHR '':'') after))
               | None \<Rightarrow>
                   (let n = count_list entry (CHR '':'')
                    in if n = 0 then Inr (entry, None)
                       else if n = 1 then
                         (case split_once (CHR '':'') entry of
                            None \<Rightarrow> Inl None
                          | Some (h, p) \<Rightarrow> Inr (h, Some p))
                       else Inl (Some SeveralColons))) of
           Inl early \<Rightarrow> early
         | Inr (host, port) \<Rightarrow>
             if host = [] \<or> host = '':'' then Some NoHost
             else (case port of
                     None \<Rightarrow> None
                   | Some p \<Rightarrow>
                       (case parse_u16 p of
                          Some n \<Rightarrow> if n > 0 then None else Some (NotAPort p)
                        | None \<Rightarrow> Some (NotAPort p)))))"

fun parse_relay_entries ::
  "int \<Rightarrow> string list \<Rightarrow> string list \<Rightarrow> (string \<times> relay_problem) list
   \<Rightarrow> string list \<times> (string \<times> relay_problem) list" where
  "parse_relay_entries relay_port [] kept dropped = (kept, dropped)"
| "parse_relay_entries relay_port (raw # raws) kept dropped =
     (let entry = trim raw
      in if entry = [] then parse_relay_entries relay_port raws kept dropped
         else (case relay_entry_problem entry of
                 None \<Rightarrow>
                   if \<exists>k \<in> set kept. normalize relay_port k = normalize relay_port entry
                   then parse_relay_entries relay_port raws kept (dropped @ [(entry, ListedTwice)])
                   else parse_relay_entries relay_port raws (kept @ [entry]) dropped
               | Some why \<Rightarrow> parse_relay_entries relay_port raws kept (dropped @ [(entry, why)])))"

definition parse_relay_list :: "int \<Rightarrow> string \<Rightarrow> string list \<times> (string \<times> relay_problem) list" where
  "parse_relay_list relay_port list = parse_relay_entries relay_port (split_char (CHR '','') list) [] []"

section \<open>The table and its parser\<close>

text \<open>What the table uses of \<^verbatim>\<open>ipnetwork::IpNetwork\<close>.\<close>

record 'n net_ops =
  net_parse :: "string \<Rightarrow> 'n option"
  net_network :: "'n \<Rightarrow> ipaddr"
  net_prefix :: "'n \<Rightarrow> nat"
  net_contains :: "'n \<Rightarrow> ipaddr \<Rightarrow> bool"

type_synonym cost_map = "(string, f64) hmap"

record 'n rule =
  rule_net :: 'n
  rule_costs :: cost_map

type_synonym 'n route_table = "'n rule list"

datatype route_error =
    NotANetwork nat string
  | NetAppearsTwice nat string
  | NotRelayMs nat string
  | NotANumber nat string
  | BadTime nat string
  | NoRelayName nat string
  | RelayListedTwice nat string
  | ListsNoRelays nat string
  | NoRoutes
  | CannotRead string

fun parse_costs :: "int \<Rightarrow> nat \<Rightarrow> string list \<Rightarrow> cost_map \<Rightarrow> route_error + cost_map" where
  "parse_costs relay_port n [] costs = Inr costs"
| "parse_costs relay_port n (entry # entries) costs =
     (case rsplit_once (CHR ''='') entry of
        None \<Rightarrow> Inl (NotRelayMs n entry)
      | Some (relay, ms_text) \<Rightarrow>
          (case parse_f64 ms_text of
             None \<Rightarrow> Inl (NotANumber n ms_text)
           | Some ms \<Rightarrow>
               if \<not> is_finite ms \<or> f64_lt ms (Fin 0) then Inl (BadTime n entry)
               else if trim relay = [] then Inl (NoRelayName n entry)
               else if hget costs (normalize relay_port relay) \<noteq> None
                 then Inl (RelayListedTwice n relay)
               else parse_costs relay_port n entries (hput (normalize relay_port relay) ms costs)))"

definition parse_route_line ::
  "int \<Rightarrow> 'n net_ops \<Rightarrow> nat \<Rightarrow> string \<Rightarrow> 'n rule list \<Rightarrow> route_error + 'n rule option" where
  "parse_route_line relay_port ops n raw rules =
     (let line = trim (hd (split_char (CHR ''#'') raw))
      in if line = [] then Inr None
         else
           (let tokens = split_whitespace line;
                net_text = (case tokens of [] \<Rightarrow> [] | t # _ \<Rightarrow> t)
            in case net_parse ops net_text of
                 None \<Rightarrow> Inl (NotANetwork n net_text)
               | Some net \<Rightarrow>
                   if \<exists>r \<in> set rules. net_network ops (rule_net r) = net_network ops net
                        \<and> net_prefix ops (rule_net r) = net_prefix ops net
                   then Inl (NetAppearsTwice n net_text)
                   else
                     (case parse_costs relay_port n
                             (filter (\<lambda>e. e \<noteq> []) (concat (map (split_char (CHR '','')) (tl tokens)))) [] of
                        Inl e \<Rightarrow> Inl e
                      | Inr costs \<Rightarrow>
                          if costs = [] then Inl (ListsNoRelays n net_text)
                          else Inr (Some \<lparr>rule_net = net, rule_costs = costs\<rparr>))))"

fun parse_route_lines ::
  "int \<Rightarrow> 'n net_ops \<Rightarrow> nat \<Rightarrow> string list \<Rightarrow> 'n rule list \<Rightarrow> route_error + 'n rule list" where
  "parse_route_lines relay_port ops n [] rules = Inr rules"
| "parse_route_lines relay_port ops n (raw # raws) rules =
     (case parse_route_line relay_port ops n raw rules of
        Inl e \<Rightarrow> Inl e
      | Inr None \<Rightarrow> parse_route_lines relay_port ops (Suc n) raws rules
      | Inr (Some r) \<Rightarrow> parse_route_lines relay_port ops (Suc n) raws (rules @ [r]))"

definition route_table_parse :: "int \<Rightarrow> 'n net_ops \<Rightarrow> string \<Rightarrow> route_error + 'n route_table" where
  "route_table_parse relay_port ops text =
     (case parse_route_lines relay_port ops 1 (str_lines text) [] of
        Inl e \<Rightarrow> Inl e
      | Inr rules \<Rightarrow>
          if rules = [] then Inl NoRoutes
          else Inr (sort_key (\<lambda>r. - int (net_prefix ops (rule_net r))) rules))"

text \<open>\<^verbatim>\<open>RouteTable::load\<close>; the file system is the argument \<open>read\<close>.\<close>

definition route_table_load ::
  "int \<Rightarrow> 'n net_ops \<Rightarrow> (string \<Rightarrow> string option) \<Rightarrow> string \<Rightarrow> route_error + 'n route_table" where
  "route_table_load relay_port ops read path =
     (case read path of
        None \<Rightarrow> Inl (CannotRead path)
      | Some text \<Rightarrow> route_table_parse relay_port ops text)"

definition rule_count :: "'n route_table \<Rightarrow> nat" where
  "rule_count t = length t"

section \<open>Lookup and choice\<close>

definition route_lookup :: "'n net_ops \<Rightarrow> 'n route_table \<Rightarrow> ipaddr \<Rightarrow> 'n rule option" where
  "route_lookup ops t ip = List.find (\<lambda>r. net_contains ops (rule_net r) (to_canonical ip)) t"

definition costs_for :: "'n net_ops \<Rightarrow> 'n route_table \<Rightarrow> ipaddr \<Rightarrow> cost_map option" where
  "costs_for ops t ip = map_option rule_costs (route_lookup ops t ip)"

definition UNLISTED_COST_MS :: f64 where
  "UNLISTED_COST_MS = Fin 1000"

record choice =
  ch_relay :: string
  ch_cost_ms :: f64
  ch_costs :: "(string \<times> f64) list"

definition side_cost :: "string \<Rightarrow> cost_map \<Rightarrow> f64" where
  "side_cost key s = (case hget s key of Some c \<Rightarrow> c | None \<Rightarrow> UNLISTED_COST_MS)"

fun scan_best :: "(string \<times> f64) list \<Rightarrow> nat \<Rightarrow> nat \<Rightarrow> (string \<times> f64) list \<Rightarrow> nat" where
  "scan_best costs i best [] = best"
| "scan_best costs i best ((_, cost) # rest) =
     scan_best costs (Suc i) (if f64_lt cost (snd (costs ! best)) then i else best) rest"

definition choose_from :: "int \<Rightarrow> string list \<Rightarrow> cost_map list \<Rightarrow> choice option" where
  "choose_from relay_port healthy sides =
     (if healthy = [] \<or> sides = [] then None
      else
        (let costs = map (\<lambda>relay. (relay,
                f64_sum (map (side_cost (normalize relay_port relay)) sides))) healthy;
             best = scan_best costs 0 0 costs
         in Some \<lparr>ch_relay = fst (costs ! best), ch_cost_ms = snd (costs ! best), ch_costs = costs\<rparr>))"

definition route_choose ::
  "int \<Rightarrow> 'n net_ops \<Rightarrow> 'n route_table \<Rightarrow> string list \<Rightarrow> ipaddr \<Rightarrow> ipaddr \<Rightarrow> choice option" where
  "route_choose relay_port ops t healthy a b =
     choose_from relay_port healthy (List.map_filter (costs_for ops t) [a, b])"

section \<open>Relay names\<close>

lemma show_int_chars: "c \<in> set (show_int i) \<Longrightarrow> c = CHR ''-'' \<or> 48 \<le> (of_char c :: nat) \<and> of_char c \<le> (57 :: nat)"
  using show_nat_digits by (auto simp: show_int_def split: if_splits)

lemma show_int_not_ws: "c \<in> set (show_int i) \<Longrightarrow> \<not> is_ws c"
  by (drule show_int_chars) (auto simp: is_ws_def)

lemma lower_show_int [simp]: "to_lowercase (show_int i) = show_int i"
  unfolding to_lowercase_def
proof (rule map_idI)
  fix c assume "c \<in> set (show_int i)"
  then show "lower_char c = c"
    using show_int_chars [of c i] by (auto simp: lower_char_def Let_def)
qed

lemma trim_append_nonws:
  assumes "trim s = s" "s \<noteq> []" "t \<noteq> []" "\<forall>c \<in> set t. \<not> is_ws c"
  shows "trim (s @ t) = s @ t"
proof -
  have "\<not> is_ws (hd s)" using trim_hd_last [of s] assms(1,2) by simp
  moreover have "\<not> is_ws (last t)" using assms(3,4) by simp
  ultimately show ?thesis
    using assms(2,3) by (simp add: trim_def dropWhile_fix hd_rev)
qed

lemma trim_colon_port [simp]: "trim (CHR '':'' # show_int i) = CHR '':'' # show_int i"
  by (rule trim_nonws) (auto simp: is_ws_def [of "CHR '':''"] dest: show_int_not_ws)

lemma trim_lower_trim [simp]: "trim (to_lowercase (trim r)) = to_lowercase (trim r)"
  by (simp add: trim_to_lowercase)

lemma to_lowercase_eq_Nil [simp]: "to_lowercase s = [] \<longleftrightarrow> s = []"
  by (simp add: to_lowercase_def)

lemma normalize_has_colon: "CHR '':'' \<in> set (normalize rp r)"
  by (simp add: normalize_def Let_def)

lemma normalize_idem: "normalize rp (normalize rp r) = normalize rp r"
proof -
  have "trim (normalize rp r) = normalize rp r"
  proof (cases "CHR '':'' \<in> set (trim r)")
    case True
    then show ?thesis by (simp add: normalize_def trim_to_lowercase)
  next
    case False
    show ?thesis
    proof (cases "trim r = []")
      case True
      then show ?thesis by (simp add: normalize_def to_lowercase_def)
    next
      case nonempty: False
      with False show ?thesis
        by (auto simp: normalize_def is_ws_def [of "CHR '':''"] dest: show_int_not_ws
            intro!: trim_append_nonws)
    qed
  qed
  moreover have "to_lowercase (normalize rp r) = normalize rp r"
    by (simp add: normalize_def Let_def to_lowercase_def [of "[_]"] to_lowercase_def [of "_ # _"]
        lower_char_def flip: to_lowercase_def)
  ultimately show ?thesis
    using normalize_has_colon [of rp r] by (simp add: normalize_def [of rp "normalize rp r"])
qed

lemma normalize_trim [simp]: "normalize rp (trim r) = normalize rp r"
  by (simp add: normalize_def)

section \<open>The relay list\<close>

definition relay_list_ok :: "int \<Rightarrow> string list \<Rightarrow> bool" where
  "relay_list_ok rp ks \<longleftrightarrow>
     distinct (map (normalize rp) ks) \<and>
     (\<forall>k \<in> set ks. k \<noteq> [] \<and> trim k = k \<and> relay_entry_problem k = None)"

lemma parse_relay_entries_ok:
  "relay_list_ok rp kept \<Longrightarrow> relay_list_ok rp (fst (parse_relay_entries rp raws kept dropped))"
proof (induction rp raws kept dropped rule: parse_relay_entries.induct)
  case (2 rp raw raws kept dropped)
  have "relay_list_ok rp (kept @ [trim raw])"
    if "trim raw \<noteq> []" "relay_entry_problem (trim raw) = None"
      "\<not> (\<exists>k \<in> set kept. normalize rp k = normalize rp (trim raw))"
    using that "2.prems" by (auto simp: relay_list_ok_def)
  with "2" show ?case
    by (simp add: Let_def split: option.split)
qed simp

text \<open>Every entry that is not blank ends up in exactly one of the two lists.\<close>

lemma parse_relay_entries_partition:
  "mset (fst (parse_relay_entries rp raws kept dropped)) +
   mset (map fst (snd (parse_relay_entries rp raws kept dropped))) =
   mset kept + mset (map fst dropped) + mset (filter (\<lambda>e. e \<noteq> []) (map trim raws))"
  by (induction rp raws kept dropped rule: parse_relay_entries.induct)
     (simp_all add: Let_def split: option.splits)

lemma parse_relay_entries_dropped:
  "\<forall>(e, w) \<in> set dropped. P e w \<Longrightarrow>
   (\<And>e w. relay_entry_problem e = Some w \<Longrightarrow> P e w) \<Longrightarrow>
   (\<And>e. relay_entry_problem e = None \<Longrightarrow> P e ListedTwice) \<Longrightarrow>
   \<forall>(e, w) \<in> set (snd (parse_relay_entries rp raws kept dropped)). P e w"
  by (induction rp raws kept dropped rule: parse_relay_entries.induct)
     (simp_all add: Let_def split: option.splits)

section \<open>Costs\<close>

text \<open>What every cost of a table or of a location list satisfies: a representable number
  that is not negative.\<close>

definition cost_ok :: "f64 \<Rightarrow> bool" where
  "cost_ok c \<longleftrightarrow> f64_rep c \<and> \<not> is_nan c \<and> \<not> f64_lt c (Fin 0)"

definition side_ok :: "cost_map \<Rightarrow> bool" where
  "side_ok s \<longleftrightarrow> hwf s \<and> (\<forall>(k, c) \<in> set s. cost_ok c)"

lemma cost_ok_round64: "0 \<le> x \<Longrightarrow> cost_ok (round64 x)"
  using round_half_even_nonneg [of "x / 2 powi _"] f64_rep_round64 [of x]
  by (auto simp: cost_ok_def is_nan_def round64_def Let_def round_at_def not_less
      split: option.splits)

lemma cost_ok_add: "cost_ok a \<Longrightarrow> cost_ok b \<Longrightarrow> cost_ok (f64_add a b)"
proof (cases a; cases b)
  fix x y
  assume "cost_ok a" "cost_ok b" "a = Fin x" "b = Fin y"
  then show "cost_ok (f64_add a b)"
    by (auto simp: cost_ok_def [of "Fin _"] intro!: cost_ok_round64)
qed (auto simp: cost_ok_def is_nan_def)

lemma cost_ok_Fin0 [simp]: "cost_ok (Fin 0)"
  by (simp add: cost_ok_def is_nan_def)

lemma cost_ok_unlisted [simp]: "cost_ok UNLISTED_COST_MS"
  by (simp add: cost_ok_def is_nan_def UNLISTED_COST_MS_def)

lemma cost_ok_foldl: "cost_ok z \<Longrightarrow> \<forall>c \<in> set cs. cost_ok c \<Longrightarrow> cost_ok (foldl f64_add z cs)"
  by (induction cs arbitrary: z) (auto intro: cost_ok_add)

lemma cost_ok_sum: "\<forall>c \<in> set cs. cost_ok c \<Longrightarrow> cost_ok (f64_sum cs)"
  by (simp add: f64_sum_def cost_ok_foldl)

lemma side_cost_ok: "side_ok s \<Longrightarrow> cost_ok (side_cost k s)"
  by (auto simp: side_cost_def side_ok_def hget_def dest!: map_of_SomeD split: option.splits)

lemma side_ok_rep: "side_ok s \<Longrightarrow> f64_rep (side_cost k s)"
  using side_cost_ok [of s k] by (simp add: cost_ok_def)

section \<open>The cheapest relay\<close>

lemma scan_best_inv:
  assumes "i + length rest = length costs" "rest = drop i costs" "0 < length costs"
    and "best < length costs"
    and nan: "\<forall>j < length costs. \<not> is_nan (snd (costs ! j))"
    and lo: "\<forall>j < i. \<not> f64_lt (snd (costs ! j)) (snd (costs ! best))"
    and first: "best \<le> i \<and> (\<forall>j < best. f64_lt (snd (costs ! best)) (snd (costs ! j)))"
  shows "let b = scan_best costs i best rest in b < length costs \<and>
    (\<forall>j < length costs. \<not> f64_lt (snd (costs ! j)) (snd (costs ! b))) \<and>
    (\<forall>j < b. f64_lt (snd (costs ! b)) (snd (costs ! j)))"
  using assms
proof (induction rest arbitrary: i best)
  case Nil
  then show ?case by simp
next
  case (Cons x rest)
  obtain r c where x: "x = (r, c)" by force
  have ci: "costs ! i = (r, c)" and i: "i < length costs" and rest: "rest = drop (Suc i) costs"
    using Cons.prems(1) Cons_nth_drop_Suc [of i costs] Cons.prems(2) [symmetric] x by simp_all
  define b' where "b' = (if f64_lt c (snd (costs ! best)) then i else best)"
  have "\<forall>j < Suc i. \<not> f64_lt (snd (costs ! j)) (snd (costs ! b'))"
    using Cons.prems(6) ci i
    by (auto simp: b'_def less_Suc_eq dest: f64_lt_trans)
  moreover have "b' \<le> Suc i \<and> (\<forall>j < b'. f64_lt (snd (costs ! b')) (snd (costs ! j)))"
  proof (cases "f64_lt c (snd (costs ! best))")
    case True
    have "f64_lt c (snd (costs ! j))" if "j < i" for j
    proof (rule ccontr)
      assume "\<not> f64_lt c (snd (costs ! j))"
      moreover have "\<not> f64_lt (snd (costs ! j)) (snd (costs ! best))" using Cons.prems(6) that by blast
      moreover have "\<not> is_nan (snd (costs ! j))" using Cons.prems(5) that i by auto
      ultimately show False using True f64_not_lt_trans by blast
    qed
    with True ci show ?thesis by (simp add: b'_def)
  next
    case False
    with Cons.prems(7) show ?thesis by (simp add: b'_def)
  qed
  moreover have "b' < length costs" using Cons.prems(4) i by (simp add: b'_def)
  moreover have "scan_best costs i best (x # rest) = scan_best costs (Suc i) b' rest"
    by (simp add: x b'_def)
  ultimately show ?case
    using Cons.IH [of "Suc i" b'] Cons.prems(1,3,5) rest by simp
qed

text \<open>The scan returns the first of the cheapest.\<close>

lemma scan_best_correct:
  assumes "costs \<noteq> []" "\<forall>(r, c) \<in> set costs. \<not> is_nan c"
  defines "b \<equiv> scan_best costs 0 0 costs"
  shows "b < length costs"
    and "\<forall>j < length costs. \<not> f64_lt (snd (costs ! j)) (snd (costs ! b))"
    and "\<forall>j < b. f64_lt (snd (costs ! b)) (snd (costs ! j))"
proof -
  have "\<forall>j < length costs. \<not> is_nan (snd (costs ! j))"
    using assms(2) by (metis (mono_tags, lifting) case_prod_beta nth_mem)
  then show "b < length costs"
    and "\<forall>j < length costs. \<not> f64_lt (snd (costs ! j)) (snd (costs ! b))"
    and "\<forall>j < b. f64_lt (snd (costs ! b)) (snd (costs ! j))"
    using scan_best_inv [of 0 costs costs 0] assms(1) by (simp_all add: b_def Let_def)
qed

lemma choose_from_None: "choose_from rp healthy sides = None \<longleftrightarrow> healthy = [] \<or> sides = []"
  by (simp add: choose_from_def Let_def)

definition relay_total :: "int \<Rightarrow> cost_map list \<Rightarrow> string \<Rightarrow> f64" where
  "relay_total rp sides relay = f64_sum (map (side_cost (normalize rp relay)) sides)"

lemma relay_total_ok: "\<forall>s \<in> set sides. side_ok s \<Longrightarrow> cost_ok (relay_total rp sides r)"
  unfolding relay_total_def by (rule cost_ok_sum) (auto intro: side_cost_ok)

text \<open>The whole contract of \<^verbatim>\<open>choose_from\<close>: a healthy relay, at an index of the list where the
  total is least and no earlier relay is as cheap.\<close>

lemma choose_from_first_cheapest:
  assumes "choose_from rp healthy sides = Some c" and "\<forall>s \<in> set sides. side_ok s"
  shows "\<exists>b < length healthy. ch_relay c = healthy ! b
      \<and> ch_cost_ms c = relay_total rp sides (healthy ! b)
      \<and> (\<forall>j < length healthy. \<not> f64_lt (relay_total rp sides (healthy ! j)) (ch_cost_ms c))
      \<and> (\<forall>j < b. f64_lt (ch_cost_ms c) (relay_total rp sides (healthy ! j)))"
proof -
  define costs where "costs = map (\<lambda>r. (r, relay_total rp sides r)) healthy"
  define b where "b = scan_best costs 0 0 costs"
  from assms(1) have ne: "healthy \<noteq> []" and
    c: "c = \<lparr>ch_relay = fst (costs ! b), ch_cost_ms = snd (costs ! b), ch_costs = costs\<rparr>"
    by (auto simp: choose_from_def relay_total_def costs_def b_def Let_def split: if_splits)
  have "\<forall>(r, x) \<in> set costs. \<not> is_nan x"
    using relay_total_ok [OF assms(2)] by (auto simp: costs_def cost_ok_def)
  moreover have "costs \<noteq> []" using ne by (simp add: costs_def)
  ultimately have "b < length costs"
    "\<forall>j < length costs. \<not> f64_lt (snd (costs ! j)) (snd (costs ! b))"
    "\<forall>j < b. f64_lt (snd (costs ! b)) (snd (costs ! j))"
    using scan_best_correct [of costs] by (auto simp: b_def)
  then show ?thesis
    by (intro exI [of _ b]) (auto simp: c costs_def)
qed

lemma choose_from_costs:
  "choose_from rp healthy sides = Some c \<Longrightarrow> ch_costs c = map (\<lambda>r. (r, relay_total rp sides r)) healthy"
  by (auto simp: choose_from_def relay_total_def Let_def split: if_splits)

lemma choose_from_member: "choose_from rp healthy sides = Some c \<Longrightarrow> \<forall>s \<in> set sides. side_ok s
    \<Longrightarrow> ch_relay c \<in> set healthy"
  by (fastforce dest: choose_from_first_cheapest)

lemma relay_total_swap: "side_ok s \<Longrightarrow> side_ok t \<Longrightarrow> relay_total rp [s, t] r = relay_total rp [t, s] r"
  by (simp add: relay_total_def f64_sum_pair side_ok_rep f64_add_commute)

lemma choose_from_swap:
  assumes "side_ok s" "side_ok t"
  shows "choose_from rp healthy [s, t] = choose_from rp healthy [t, s]"
proof -
  have "f64_sum (map (side_cost (normalize rp r)) [s, t]) = f64_sum (map (side_cost (normalize rp r)) [t, s])" for r
    using relay_total_swap [OF assms] by (simp only: relay_total_def)
  then show ?thesis unfolding choose_from_def by simp
qed

section \<open>Well-formed tables\<close>

definition costs_wf :: "int \<Rightarrow> cost_map \<Rightarrow> bool" where
  "costs_wf rp cs \<longleftrightarrow>
     hwf cs \<and> (\<forall>(k, c) \<in> set cs. cost_ok c \<and> is_finite c \<and> normalize rp k = k)"

definition net_key :: "'n net_ops \<Rightarrow> 'n rule \<Rightarrow> ipaddr \<times> nat" where
  "net_key ops r = (net_network ops (rule_net r), net_prefix ops (rule_net r))"

definition rules_wf :: "int \<Rightarrow> 'n net_ops \<Rightarrow> 'n rule list \<Rightarrow> bool" where
  "rules_wf rp ops rs \<longleftrightarrow>
     distinct (map (net_key ops) rs) \<and>
     (\<forall>r \<in> set rs. rule_costs r \<noteq> [] \<and> costs_wf rp (rule_costs r))"

definition table_wf :: "int \<Rightarrow> 'n net_ops \<Rightarrow> 'n route_table \<Rightarrow> bool" where
  "table_wf rp ops t \<longleftrightarrow>
     t \<noteq> [] \<and> rules_wf rp ops t \<and>
     sorted_wrt (\<lambda>r r'. net_prefix ops (rule_net r') \<le> net_prefix ops (rule_net r)) t"

lemma costs_wf_side_ok: "costs_wf rp cs \<Longrightarrow> side_ok cs"
  by (auto simp: costs_wf_def side_ok_def)

lemma parse_costs_wf: "parse_costs rp n es cs = Inr cs' \<Longrightarrow> costs_wf rp cs \<Longrightarrow> costs_wf rp cs'"
proof (induction rp n es cs arbitrary: cs' rule: parse_costs.induct)
  case (2 rp n entry entries costs)
  from "2.prems"(1) obtain relay ms_text ms where
    e: "rsplit_once (CHR ''='') entry = Some (relay, ms_text)" "parse_f64 ms_text = Some ms"
      "is_finite ms" "\<not> f64_lt ms (Fin 0)" "trim relay \<noteq> []"
      "hget costs (normalize rp relay) = None"
      "parse_costs rp n entries (hput (normalize rp relay) ms costs) = Inr cs'"
    by (auto split: option.splits if_splits)
  then have "cost_ok ms"
    by (auto simp: cost_ok_def is_nan_def is_finite_def dest: parse_f64_rep)
  with e "2.prems"(2) have "costs_wf rp (hput (normalize rp relay) ms costs)"
    by (auto simp: costs_wf_def normalize_idem dest!: hput_set)
  with "2.IH" e show ?case by simp
qed simp

lemma parse_route_line_wf:
  assumes "parse_route_line rp ops n raw rules = Inr (Some r)"
  shows "net_key ops r \<notin> set (map (net_key ops) rules)"
    and "rule_costs r \<noteq> []" and "costs_wf rp (rule_costs r)"
  using assms
  by (auto simp: parse_route_line_def net_key_def costs_wf_def [of rp "[]"] Let_def
      dest: parse_costs_wf split: if_splits option.splits sum.splits)

lemma parse_route_lines_wf:
  "parse_route_lines rp ops n raws rules = Inr rules' \<Longrightarrow> rules_wf rp ops rules \<Longrightarrow> rules_wf rp ops rules'"
proof (induction rp ops n raws rules rule: parse_route_lines.induct)
  case (2 rp ops n raw raws rules)
  show ?case
  proof (cases "parse_route_line rp ops n raw rules")
    case (Inr ro)
    show ?thesis
    proof (cases ro)
      case (Some r)
      with parse_route_line_wf [of rp ops n raw rules r] Inr "2.prems"(2)
      have "rules_wf rp ops (rules @ [r])" by (auto simp: rules_wf_def)
      with Some Inr "2" show ?thesis by simp
    qed (use Inr "2" in simp)
  qed (use "2.prems" in simp)
qed simp

lemma route_table_parse_wf:
  assumes "route_table_parse rp ops text = Inr t"
  shows "table_wf rp ops t"
proof -
  let ?key = "\<lambda>r. - int (net_prefix ops (rule_net r))"
  from assms obtain rules where rules: "parse_route_lines rp ops 1 (str_lines text) [] = Inr rules"
    "rules \<noteq> []" and t: "t = sort_key ?key rules"
    by (auto simp: route_table_parse_def split: sum.splits if_splits)
  from parse_route_lines_wf [OF rules(1)] have wf: "rules_wf rp ops rules"
    by (simp add: rules_wf_def)
  have "mset (map (net_key ops) t) = mset (map (net_key ops) rules)" by (simp add: t)
  then have "distinct (map (net_key ops) t)"
    using wf mset_eq_imp_distinct_iff unfolding rules_wf_def by blast
  moreover have "sorted (map ?key t)" by (simp add: t)
  then have "sorted_wrt (\<lambda>r r'. net_prefix ops (rule_net r') \<le> net_prefix ops (rule_net r)) t"
    by (simp add: sorted_wrt_map)
  ultimately show ?thesis
    using wf rules(2) set_sort [of ?key rules]
    by (auto simp: table_wf_def rules_wf_def t simp del: set_sort)
qed

section \<open>Longest prefix match\<close>

text \<open>
  What the table relies on of the crate: two networks with the same prefix length that
  contain a common address are the same network.
\<close>

definition cidr_laws :: "'n net_ops \<Rightarrow> bool" where
  "cidr_laws ops \<longleftrightarrow>
     (\<forall>m n ip. net_contains ops m ip \<longrightarrow> net_contains ops n ip \<longrightarrow>
        net_prefix ops m = net_prefix ops n \<longrightarrow> net_network ops m = net_network ops n)"

lemma route_lookup_Some:
  "route_lookup ops t ip = Some r \<Longrightarrow> r \<in> set t \<and> net_contains ops (rule_net r) (to_canonical ip)"
  unfolding route_lookup_def by (rule find_SomeD)

lemma route_lookup_None:
  "route_lookup ops t ip = None \<longleftrightarrow> (\<forall>r \<in> set t. \<not> net_contains ops (rule_net r) (to_canonical ip))"
  unfolding route_lookup_def by (rule find_None_iff_set)

lemma route_lookup_longest:
  assumes "table_wf rp ops t" "route_lookup ops t ip = Some r" "r' \<in> set t"
    and "net_contains ops (rule_net r') (to_canonical ip)"
  shows "net_prefix ops (rule_net r') \<le> net_prefix ops (rule_net r)"
proof -
  from assms(2) obtain i where i: "i < length t" "t ! i = r"
    and before: "\<forall>j < i. \<not> net_contains ops (rule_net (t ! j)) (to_canonical ip)"
    unfolding route_lookup_def by (blast dest: find_first_index)
  from assms(3) obtain j where j: "j < length t" "t ! j = r'" by (auto simp: in_set_conv_nth)
  with before assms(4) have "i \<le> j" by (metis not_less)
  then show ?thesis
  proof (cases "i = j")
    case True
    with i j show ?thesis by simp
  next
    case False
    with \<open>i \<le> j\<close> i j assms(1) show ?thesis
      by (auto simp: table_wf_def sorted_wrt_iff_nth_less)
  qed
qed

lemma route_lookup_unique:
  assumes "table_wf rp ops t" "cidr_laws ops" "route_lookup ops t ip = Some r" "r' \<in> set t"
    and "net_contains ops (rule_net r') (to_canonical ip)"
    and "net_prefix ops (rule_net r') = net_prefix ops (rule_net r)"
  shows "r' = r"
proof -
  from route_lookup_Some [OF assms(3)] have r: "r \<in> set t" "net_contains ops (rule_net r) (to_canonical ip)"
    by simp_all
  with assms have "net_key ops r' = net_key ops r"
    unfolding cidr_laws_def net_key_def by (metis prod.inject)
  moreover have "inj_on (net_key ops) (set t)"
    using assms(1) by (simp add: table_wf_def rules_wf_def distinct_map)
  ultimately show ?thesis using r(1) assms(4) by (simp add: inj_on_def)
qed

section \<open>Sources of costs\<close>

text \<open>
  What the choice of a relay relies on of anything that knows what relays cost from an
  address: its costs are sound, and an IPv4 address wrapped in IPv6 is that address. The
  routing table and the location list are the two such sources of the program.
\<close>

locale cost_source =
  fixes costs_at :: "'s \<Rightarrow> ipaddr \<Rightarrow> cost_map option"
    and source_ok :: "'s \<Rightarrow> bool"
  assumes costs_at_ok: "source_ok s \<Longrightarrow> costs_at s ip = Some m \<Longrightarrow> side_ok m"
    and costs_at_canonical: "costs_at s (to_canonical ip) = costs_at s ip"
begin

lemma sides_ok:
  "source_ok s \<Longrightarrow> m \<in> set (List.map_filter (costs_at s) ips) \<Longrightarrow> side_ok m"
  by (auto simp: map_filter_def intro: costs_at_ok)

lemma choose_symmetric:
  assumes "source_ok s"
  shows "choose_from rp healthy (List.map_filter (costs_at s) [a, b]) =
    choose_from rp healthy (List.map_filter (costs_at s) [b, a])"
proof -
  have "side_ok m \<and> side_ok n" if "costs_at s a = Some m" "costs_at s b = Some n" for m n
    using that assms by (blast intro: costs_at_ok)
  then show ?thesis
    by (cases "costs_at s a"; cases "costs_at s b") (simp_all add: map_filter_def choose_from_swap)
qed

lemma choose_first_cheapest:
  assumes "source_ok s" "choose_from rp healthy (List.map_filter (costs_at s) ips) = Some c"
  defines "tot \<equiv> relay_total rp (List.map_filter (costs_at s) ips)"
  shows "\<exists>i < length healthy. ch_relay c = healthy ! i \<and> ch_cost_ms c = tot (healthy ! i)
    \<and> (\<forall>j < length healthy. \<not> f64_lt (tot (healthy ! j)) (ch_cost_ms c))
    \<and> (\<forall>j < i. f64_lt (ch_cost_ms c) (tot (healthy ! j)))"
  using choose_from_first_cheapest [OF assms(2)] sides_ok [OF assms(1)] by (simp add: tot_def)

lemma choose_wrapped:
  "choose_from rp healthy (List.map_filter (costs_at s) [to_canonical a, to_canonical b]) =
   choose_from rp healthy (List.map_filter (costs_at s) [a, b])"
  by (simp add: map_filter_def costs_at_canonical)

end

lemma costs_for_ok: "table_wf rp ops t \<Longrightarrow> costs_for ops t ip = Some m \<Longrightarrow> side_ok m"
  by (auto simp: costs_for_def table_wf_def rules_wf_def dest!: route_lookup_Some intro: costs_wf_side_ok)

interpretation table: cost_source "\<lambda>(ops, t). costs_for ops t" "\<lambda>(ops, t). table_wf rp ops t" for rp
  by unfold_locales (auto simp: costs_for_def route_lookup_def intro: costs_for_ok)

section \<open>A concrete network type\<close>

text \<open>An instance of the parameters that satisfies the laws, for the witnesses: an address with
  a prefix length.\<close>

fun cidr_network :: "ipaddr \<times> nat \<Rightarrow> ipaddr" where
  "cidr_network (V4 a, p) = V4 (push_bit (32 - p) (drop_bit (32 - p) a))"
| "cidr_network (V6 a, p) = V6 (push_bit (128 - p) (drop_bit (128 - p) a))"

fun cidr_contains :: "ipaddr \<times> nat \<Rightarrow> ipaddr \<Rightarrow> bool" where
  "cidr_contains (V4 a, p) (V4 b) = (drop_bit (32 - p) a = drop_bit (32 - p) b)"
| "cidr_contains (V6 a, p) (V6 b) = (drop_bit (128 - p) a = drop_bit (128 - p) b)"
| "cidr_contains _ _ = False"

definition cidr_parse :: "string \<Rightarrow> (ipaddr \<times> nat) option" where
  "cidr_parse s =
     (case split_once (CHR ''/'') s of
        None \<Rightarrow> map_option (\<lambda>a. (a, if is_ipv4 a then 32 else 128)) (parse_ip s)
      | Some (a, p) \<Rightarrow>
          (case (parse_ip a, parse_digits p) of
             (Some a, Some p) \<Rightarrow> if p \<le> (if is_ipv4 a then 32 else 128) then Some (a, p) else None
           | _ \<Rightarrow> None))"

definition cidr_ops :: "(ipaddr \<times> nat) net_ops" where
  "cidr_ops = \<lparr>net_parse = cidr_parse, net_network = cidr_network, net_prefix = snd,
     net_contains = cidr_contains\<rparr>"

lemma cidr_common_network:
  assumes "cidr_contains (a, p) ip" "cidr_contains (b, p) ip"
  shows "cidr_network (a, p) = cidr_network (b, p)"
proof (cases ip)
  case (V4 w)
  with assms obtain x y where "a = V4 x" "b = V4 y" by (cases a; cases b) simp_all
  with assms V4 show ?thesis by (simp only: cidr_contains.simps cidr_network.simps)
next
  case (V6 w)
  with assms obtain x y where "a = V6 x" "b = V6 y" by (cases a; cases b) simp_all
  with assms V6 show ?thesis by (simp only: cidr_contains.simps cidr_network.simps)
qed

lemma cidr_ops_laws: "cidr_laws cidr_ops"
  unfolding cidr_laws_def cidr_ops_def
  by (simp only: net_ops.simps) (metis cidr_common_network prod.collapse)

definition example_text :: string where
  "example_text = ''10.0.0.0/8 a:1=50, B:1=10 # eight'' @ [newline] @ ''10.1.0.0/16 a:1=5,b:1=90''"

lemma example_lines: "str_lines example_text = [''10.0.0.0/8 a:1=50, B:1=10 # eight'', ''10.1.0.0/16 a:1=5,b:1=90'']"
  by (simp add: example_text_def text_eval)

lemmas route_eval = text_eval net_eval cidr_parse_def cidr_ops_def parse_route_line_def
  parse_f64_def parse_number_def normalize_def hget_def hput_def is_finite_def

lemma example_table:
  "route_table_parse 21117 cidr_ops example_text = Inr
    [\<lparr>rule_net = (v4_of 10 1 0 0, 16), rule_costs = [(''a:1'', Fin 5), (''b:1'', Fin 90)]\<rparr>,
     \<lparr>rule_net = (v4_of 10 0 0 0, 8), rule_costs = [(''a:1'', Fin 50), (''b:1'', Fin 10)]\<rparr>]"
  unfolding route_table_parse_def example_lines
  by (simp add: route_eval)

abbreviation example_rules :: "(ipaddr \<times> nat) route_table" where
  "example_rules \<equiv>
    [\<lparr>rule_net = (v4_of 10 1 0 0, 16), rule_costs = [(''a:1'', Fin 5), (''b:1'', Fin 90)]\<rparr>,
     \<lparr>rule_net = (v4_of 10 0 0 0, 8), rule_costs = [(''a:1'', Fin 50), (''b:1'', Fin 10)]\<rparr>]"

lemma example_lookup: "route_lookup cidr_ops example_rules (v4_of 10 1 9 9) = Some (hd example_rules)"
  by (simp add: route_lookup_def cidr_ops_def v4_of_def drop_bit_eq_div)

lemma example_choose:
  "route_choose 21117 cidr_ops example_rules [''a:1'', ''b:1''] (v4_of 10 1 9 9) (v4_of 10 9 9 9) =
   Some \<lparr>ch_relay = ''a:1'', ch_cost_ms = Fin 55, ch_costs = [(''a:1'', Fin 55), (''b:1'', Fin 100)]\<rparr>"
  by (simp add: route_choose_def choose_from_def costs_for_def route_lookup_def cidr_ops_def v4_of_def
      drop_bit_eq_div map_filter_def route_eval side_cost_def f64_sum_def)

section \<open>Properties\<close>

text \<open>
  C25. A table that was read is well formed: its lines are sorted by falling prefix length,
  no network occurs twice, every line lists at least one relay, its relays are in normal
  form and distinct, and every cost is a finite number that is not negative.
\<close>

theorem route_table_parse_well_formed:
  assumes "route_table_parse relay_port ops text = Inr t"
  shows "t \<noteq> [] \<and>
    sorted_wrt (\<lambda>r r'. net_prefix ops (rule_net r') \<le> net_prefix ops (rule_net r)) t \<and>
    distinct (map (\<lambda>r. (net_network ops (rule_net r), net_prefix ops (rule_net r))) t) \<and>
    (\<forall>r \<in> set t. rule_costs r \<noteq> [] \<and> distinct (map fst (rule_costs r)) \<and>
       (\<forall>(k, c) \<in> set (rule_costs r).
          normalize relay_port k = k \<and> is_finite c \<and> \<not> f64_lt c (Fin 0)))"
  using route_table_parse_wf [OF assms]
  by (auto simp: table_wf_def rules_wf_def costs_wf_def cost_ok_def hwf_def net_key_def [abs_def])

theorem route_table_parse_well_formed_witness:
  "normalize 21117 ''a:1'' = ''a:1'' \<and> is_finite (Fin 5) \<and> \<not> f64_lt (Fin 5) (Fin 0)"
  using route_table_parse_well_formed [OF example_table] by simp

text \<open>
  C21. Longest prefix match: the line found for an address contains it (an IPv4 address
  wrapped in IPv6 counts as the IPv4 address), no line containing it is more specific, and
  it is the only line of its prefix length that contains it.
\<close>

theorem route_lookup_longest_prefix:
  assumes "route_table_parse relay_port ops text = Inr t" and "cidr_laws ops"
    and "route_lookup ops t ip = Some r"
  shows "r \<in> set t \<and> net_contains ops (rule_net r) (to_canonical ip) \<and>
    (\<forall>r' \<in> set t. net_contains ops (rule_net r') (to_canonical ip) \<longrightarrow>
       net_prefix ops (rule_net r') \<le> net_prefix ops (rule_net r) \<and>
       (net_prefix ops (rule_net r') = net_prefix ops (rule_net r) \<longrightarrow> r' = r))"
  using route_table_parse_wf [OF assms(1)] assms(2,3)
  by (blast dest: route_lookup_Some route_lookup_longest route_lookup_unique)

theorem route_lookup_longest_prefix_witness:
  "hd example_rules \<in> set example_rules \<and>
   net_contains cidr_ops (rule_net (hd example_rules)) (to_canonical (v4_of 10 1 9 9))"
  using route_lookup_longest_prefix [OF example_table cidr_ops_laws example_lookup] by blast

text \<open>
  C22. The choice between two ends is the first of the cheapest healthy relays: the cost of
  each relay is the sum of what the known ends' lines say, an unlisted relay costing 1000 ms
  per end, no healthy relay costs less, and every relay before the chosen one costs more.
\<close>

theorem route_choose_first_cheapest:
  assumes "route_table_parse relay_port ops text = Inr t"
    and "route_choose relay_port ops t healthy a b = Some c"
  shows "\<exists>i < length healthy. ch_relay c = healthy ! i
    \<and> ch_costs c = map (\<lambda>r. (r, f64_sum (map (side_cost (normalize relay_port r))
          (List.map_filter (costs_for ops t) [a, b])))) healthy
    \<and> ch_costs c ! i = (ch_relay c, ch_cost_ms c)
    \<and> (\<forall>j < length healthy. \<not> f64_lt (snd (ch_costs c ! j)) (ch_cost_ms c))
    \<and> (\<forall>j < i. f64_lt (ch_cost_ms c) (snd (ch_costs c ! j)))"
proof -
  from assms(2) have c: "choose_from relay_port healthy (List.map_filter (costs_for ops t) [a, b]) = Some c"
    by (simp only: route_choose_def)
  with table.choose_first_cheapest [of relay_port "(ops, t)" relay_port healthy "[a, b]" c]
    route_table_parse_wf [OF assms(1)]
  obtain i where "i < length healthy" "ch_relay c = healthy ! i"
    "ch_cost_ms c = relay_total relay_port (List.map_filter (costs_for ops t) [a, b]) (healthy ! i)"
    "\<forall>j < length healthy. \<not> f64_lt (relay_total relay_port (List.map_filter (costs_for ops t) [a, b]) (healthy ! j)) (ch_cost_ms c)"
    "\<forall>j < i. f64_lt (ch_cost_ms c) (relay_total relay_port (List.map_filter (costs_for ops t) [a, b]) (healthy ! j))"
    by auto
  with choose_from_costs [OF c] show ?thesis
    by (intro exI [of _ i]) (simp add: relay_total_def)
qed

theorem route_choose_first_cheapest_witness:
  "\<exists>i < length [''a:1'', ''b:1'']. ''a:1'' = [''a:1'', ''b:1''] ! i"
  using route_choose_first_cheapest [OF example_table example_choose] by auto

text \<open>
  The answer does not depend on which of the two ends is the controller.
\<close>

theorem route_choose_symmetric:
  assumes "route_table_parse relay_port ops text = Inr t"
  shows "route_choose relay_port ops t healthy a b = route_choose relay_port ops t healthy b a"
  using table.choose_symmetric [of relay_port "(ops, t)"] route_table_parse_wf [OF assms]
  by (simp add: route_choose_def)

theorem route_choose_symmetric_witness:
  "route_choose 21117 cidr_ops example_rules [''a:1'', ''b:1''] (v4_of 10 9 9 9) (v4_of 10 1 9 9) =
   Some \<lparr>ch_relay = ''a:1'', ch_cost_ms = Fin 55, ch_costs = [(''a:1'', Fin 55), (''b:1'', Fin 100)]\<rparr>"
  using route_choose_symmetric [OF example_table, of "[''a:1'', ''b:1'']" "v4_of 10 1 9 9" "v4_of 10 9 9 9"]
    example_choose by simp

text \<open>
  The relay list: every entry that is not blank is either used or set aside, none is
  lost or invented; the entries used are trimmed, have no reported problem and name
  different relays once the default port and the case are normalised.
\<close>

theorem parse_relay_list_sound:
  "case parse_relay_list relay_port list of (kept, dropped) \<Rightarrow>
     mset kept + mset (map fst dropped) =
       mset (filter (\<lambda>e. e \<noteq> []) (map trim (split_char (CHR '','') list)))
     \<and> distinct (map (normalize relay_port) kept)
     \<and> (\<forall>k \<in> set kept. k \<noteq> [] \<and> trim k = k \<and> relay_entry_problem k = None)"
  using parse_relay_entries_partition [of relay_port "split_char (CHR '','') list" "[]" "[]"]
    parse_relay_entries_ok [of relay_port "[]" "split_char (CHR '','') list" "[]"]
  by (auto simp: parse_relay_list_def relay_list_ok_def split: prod.splits)

lemma example_relay_list:
  "parse_relay_list 21117 '' a.b:1, ,A.B:1,x:y'' = ([''a.b:1''], [(''A.B:1'', ListedTwice), (''x:y'', NotAPort ''y'')])"
  by (simp add: parse_relay_list_def relay_entry_problem_def normalize_def text_eval)

theorem parse_relay_list_sound_witness: "''a.b:1'' \<noteq> [] \<and> relay_entry_problem ''a.b:1'' = None"
  using parse_relay_list_sound [of "'' a.b:1, ,A.B:1,x:y''" 21117] by (simp add: example_relay_list)

text \<open>
  A bracket that is never closed is not reported: an entry that opens with a bracket
  and has no closing one passes as a valid relay, whatever follows, because the missing
  bracket leaves the check through its early return.
\<close>

theorem unclosed_bracket_accepted:
  assumes "\<forall>c \<in> set rest. \<not> is_ws c \<and> c \<noteq> CHR ''/'' \<and> c \<noteq> CHR '']''"
  shows "relay_entry_problem (CHR ''['' # rest) = None"
proof -
  have sep: "\<not> str_contains ''://'' s" if "CHR ''/'' \<notin> set s" for s
    using that by (induction s) (auto elim: starts_with.elims)
  have "split_once_by (\<lambda>x. x = CHR '']'') rest = None"
    using assms by (induction rest) auto
  with assms sep [of "CHR ''['' # rest"] show ?thesis
    by (auto simp: relay_entry_problem_def strip_prefix_char_def split_once_def is_ws_def)
qed

theorem unclosed_bracket_accepted_witness: "relay_entry_problem ''[::1'' = None"
  by (rule unclosed_bracket_accepted) (simp add: is_ws_def)

text \<open>
  The default port is not filled in for a bracketed IPv6 relay without a port, so the
  same relay written with and without the default port is kept twice.
\<close>

theorem bracketed_relay_kept_twice:
  "parse_relay_list 21117 ''[::1],[::1]:21117'' = ([''[::1]'', ''[::1]:21117''], [])"
  by (simp add: parse_relay_list_def relay_entry_problem_def normalize_def text_eval)

end
