(* ===== verification/Relay_Geo.thy ===== *)
theory Relay_Geo
  imports Relay_Routes "HOL-Library.Char_ord" "HOL-Library.List_Lexorder"
begin

text \<open>
  Placement by location, \<^verbatim>\<open>src/src/relay_geo.rs\<close>: the great-circle distance, the list of
  relay locations and its parser, the estimated cost of every relay from a point, and the
  GeoIP database. The distance is computed over the reals and rounded once at the end (the
  precision of the trigonometric functions of the standard library is unspecified). A
  reader of the \<^verbatim>\<open>maxminddb\<close> crate is a parameter.
\<close>

section \<open>Distance\<close>

definition KM_PER_MS :: real where
  "KM_PER_MS = 50"

definition EARTH_RADIUS_KM :: real where
  "EARTH_RADIUS_KM = 6371"

record point =
  lat :: f64
  lon :: f64

definition to_radians :: "real \<Rightarrow> real" where
  "to_radians d = d * (pi / 180)"

text \<open>The square root of a negative number is NaN, and the minimum of NaN and 1 is 1.\<close>

definition great_circle :: "real \<Rightarrow> real \<Rightarrow> real \<Rightarrow> real \<Rightarrow> real" where
  "great_circle lat_a lon_a lat_b lon_b =
     (let la = to_radians lat_a; lb = to_radians lat_b;
          dlat = lb - la; dlon = to_radians (lon_b - lon_a);
          h = (sin (dlat / 2))\<^sup>2 + cos la * cos lb * (sin (dlon / 2))\<^sup>2
      in 2 * EARTH_RADIUS_KM * arcsin (if h < 0 then 1 else min (sqrt h) 1))"

definition distance_km :: "point \<Rightarrow> point \<Rightarrow> f64" where
  "distance_km a b =
     (case (lat a, lon a, lat b, lon b) of
        (Fin lat_a, Fin lon_a, Fin lat_b, Fin lon_b) \<Rightarrow> round64 (great_circle lat_a lon_a lat_b lon_b)
      | _ \<Rightarrow> round64 (2 * EARTH_RADIUS_KM * arcsin 1))"

section \<open>Relay locations\<close>

type_synonym locations = "(string, point) hmap"

datatype loc_error =
    ExpectedLocation nat
  | NeedsLatLon nat string string
  | NotALatitude nat string
  | NotALongitude nat string
  | LatitudeRange nat f64
  | LongitudeRange nat f64
  | LocListedTwice nat string
  | NoLocations
  | LocCannotRead string

definition in_bounds :: "real \<Rightarrow> f64 \<Rightarrow> bool" where
  "in_bounds m x \<longleftrightarrow> (case x of Fin r \<Rightarrow> - m \<le> r \<and> r \<le> m | _ \<Rightarrow> False)"

definition parse_loc_line :: "int \<Rightarrow> nat \<Rightarrow> string \<Rightarrow> locations \<Rightarrow> loc_error + locations" where
  "parse_loc_line relay_port n raw relays =
     (let line = trim (hd (split_char (CHR ''#'') raw))
      in if line = [] then Inr relays
         else
           (case split_once_by is_ws line of
              None \<Rightarrow> Inl (ExpectedLocation n)
            | Some (relay, rest) \<Rightarrow>
                (case filter (\<lambda>t. t \<noteq> []) (split_on (\<lambda>c. c = CHR '','' \<or> is_ws c) rest) of
                   [lat_text, lon_text] \<Rightarrow>
                     (case parse_f64 lat_text of
                        None \<Rightarrow> Inl (NotALatitude n lat_text)
                      | Some la \<Rightarrow>
                          (case parse_f64 lon_text of
                             None \<Rightarrow> Inl (NotALongitude n lon_text)
                           | Some lo \<Rightarrow>
                               if \<not> in_bounds 90 la then Inl (LatitudeRange n la)
                               else if \<not> in_bounds 180 lo then Inl (LongitudeRange n lo)
                               else if hget relays (normalize relay_port relay) \<noteq> None
                                 then Inl (LocListedTwice n relay)
                               else Inr (hput (normalize relay_port relay) \<lparr>lat = la, lon = lo\<rparr> relays)))
                 | _ \<Rightarrow> Inl (NeedsLatLon n relay rest))))"

fun parse_loc_lines :: "int \<Rightarrow> nat \<Rightarrow> string list \<Rightarrow> locations \<Rightarrow> loc_error + locations" where
  "parse_loc_lines relay_port n [] relays = Inr relays"
| "parse_loc_lines relay_port n (raw # raws) relays =
     (case parse_loc_line relay_port n raw relays of
        Inl e \<Rightarrow> Inl e
      | Inr relays' \<Rightarrow> parse_loc_lines relay_port (Suc n) raws relays')"

definition locations_parse :: "int \<Rightarrow> string \<Rightarrow> loc_error + locations" where
  "locations_parse relay_port text =
     (case parse_loc_lines relay_port 1 (str_lines text) [] of
        Inl e \<Rightarrow> Inl e
      | Inr relays \<Rightarrow> if relays = [] then Inl NoLocations else Inr relays)"

definition locations_load :: "int \<Rightarrow> (string \<Rightarrow> string option) \<Rightarrow> string \<Rightarrow> loc_error + locations" where
  "locations_load relay_port read path =
     (case read path of
        None \<Rightarrow> Inl (LocCannotRead path)
      | Some text \<Rightarrow> locations_parse relay_port text)"

definition locations_len :: "locations \<Rightarrow> nat" where
  "locations_len l = hlen l"

definition knows :: "int \<Rightarrow> locations \<Rightarrow> string \<Rightarrow> bool" where
  "knows relay_port l relay \<longleftrightarrow> hget l (normalize relay_port relay) \<noteq> None"

definition not_in :: "int \<Rightarrow> locations \<Rightarrow> string list \<Rightarrow> string list" where
  "not_in relay_port l relays =
     sort (filter (\<lambda>r. r \<notin> set (map (normalize relay_port) relays)) (map fst l))"

definition costs_from :: "locations \<Rightarrow> point \<Rightarrow> cost_map" where
  "costs_from l here = map (\<lambda>(relay, p). (relay, f64_div_const (distance_km here p) KM_PER_MS)) l"

section \<open>The GeoIP database\<close>

text \<open>What the program uses of an open \<^verbatim>\<open>maxminddb::Reader\<close>: its metadata, and for an address
  the record found, which decodes a path of keys to a number.\<close>

record mmdb =
  mm_database_type :: string
  mm_node_count :: nat
  mm_lookup :: "ipaddr \<Rightarrow> (string list \<Rightarrow> f64 option) option"

record geo_db =
  gd_kind :: string
  gd_reader :: mmdb

text \<open>
  Opening maps a private copy. The file system is a map from folder and name to contents,
  \<open>ge_writable\<close> says which folders can be written, and \<open>ge_open_mmap\<close> is the crate's reader on
  the contents of a file. The result says what was mapped: the copy, or the file in place.
  Listing the parent of a bare file name, which is the empty path, fails.
\<close>

type_synonym folder_files = "(string \<times> string, bytes) hmap"

datatype mapped = PrivateCopy mmdb | InPlace mmdb | CannotOpen

fun mapped_reader :: "mapped \<Rightarrow> mmdb option" where
  "mapped_reader (PrivateCopy r) = Some r"
| "mapped_reader (InPlace r) = Some r"
| "mapped_reader CannotOpen = None"

record geo_env =
  ge_writable :: "string \<Rightarrow> bool"
  ge_temp_dir :: string
  ge_pid :: nat
  ge_open_mmap :: "bytes \<Rightarrow> mmdb option"

definition leftover :: "string \<Rightarrow> string \<Rightarrow> bool" where
  "leftover name f \<longleftrightarrow> starts_with (''.'' @ name @ ''.'') f \<and> ends_with ''.loaded'' f"

definition clear_leftovers :: "geo_env \<Rightarrow> string \<Rightarrow> string \<Rightarrow> folder_files \<Rightarrow> folder_files" where
  "clear_leftovers env dir name fs =
     (if dir = [] \<or> \<not> ge_writable env dir then fs
      else hretain (\<lambda>(d, f) _. \<not> (d = dir \<and> leftover name f)) fs)"

definition copy_name :: "geo_env \<Rightarrow> string \<Rightarrow> nat \<Rightarrow> string" where
  "copy_name env name n = ''.'' @ name @ ''.'' @ show_nat (ge_pid env) @ ''.'' @ show_nat n @ ''.loaded''"

fun map_copy :: "geo_env \<Rightarrow> string \<times> string \<Rightarrow> string \<Rightarrow> string list \<Rightarrow> folder_files
    \<Rightarrow> mapped option \<times> folder_files" where
  "map_copy env path name [] fs = (None, fs)"
| "map_copy env path name (dir # dirs) fs =
     (case hget fs path of
        Some contents \<Rightarrow>
          if ge_writable env dir then
            (let copied = hput (dir, name) contents fs;
                 reader = Option.bind (hget copied (dir, name)) (ge_open_mmap env)
             in (Some (case reader of None \<Rightarrow> CannotOpen | Some r \<Rightarrow> PrivateCopy r),
                 hdel (dir, name) copied))
          else map_copy env path name dirs fs
      | None \<Rightarrow>
          map_copy env path name dirs (if ge_writable env dir then hdel (dir, name) fs else fs))"

definition open_mapped ::
  "geo_env \<Rightarrow> string \<Rightarrow> string \<Rightarrow> nat \<Rightarrow> folder_files \<Rightarrow> mapped \<times> nat \<times> folder_files" where
  "open_mapped env dir name n fs =
     (let fs1 = clear_leftovers env dir name fs;
          (tried, fs2) = map_copy env (dir, name) (copy_name env name n) [dir, ge_temp_dir env] fs1
      in (case tried of
            Some m \<Rightarrow> m
          | None \<Rightarrow>
              (case Option.bind (hget fs2 (dir, name)) (ge_open_mmap env) of
                 None \<Rightarrow> CannotOpen
               | Some r \<Rightarrow> InPlace r),
          Suc n, fs2))"

definition geo_open ::
  "geo_env \<Rightarrow> string \<Rightarrow> string \<Rightarrow> nat \<Rightarrow> folder_files \<Rightarrow> geo_db option \<times> nat \<times> folder_files" where
  "geo_open env dir name n fs =
     (case open_mapped env dir name n fs of
        (m, n', fs') \<Rightarrow>
          (map_option (\<lambda>reader. \<lparr>gd_kind = mm_database_type reader, gd_reader = reader\<rparr>)
             (mapped_reader m), n', fs'))"

definition geo_locate :: "geo_db \<Rightarrow> ipaddr \<Rightarrow> point option" where
  "geo_locate db ip =
     Option.bind (mm_lookup (gd_reader db) (to_canonical ip)) (\<lambda>found.
     Option.bind (found [''location'', ''latitude'']) (\<lambda>la.
     Option.bind (found [''location'', ''longitude'']) (\<lambda>lo.
       if \<not> (is_finite la \<and> is_finite lo) \<or> \<not> in_bounds 90 la \<or> \<not> in_bounds 180 lo then None
       else Some \<lparr>lat = la, lon = lo\<rparr>)))"

datatype city_error = NotAGeoDatabase | NotACity string | TooFewNodes nat nat

definition validate_city :: "(string \<Rightarrow> mmdb option) \<Rightarrow> string \<Rightarrow> nat \<Rightarrow> city_error + unit" where
  "validate_city open_mmap path min_nodes =
     (case open_mmap path of
        None \<Rightarrow> Inl NotAGeoDatabase
      | Some m \<Rightarrow>
          if \<not> str_contains ''City'' (mm_database_type m) then Inl (NotACity (mm_database_type m))
          else if mm_node_count m < min_nodes then Inl (TooFewNodes (mm_node_count m) min_nodes)
          else Inr ())"

section \<open>Facts\<close>

definition point_ok :: "point \<Rightarrow> bool" where
  "point_ok p \<longleftrightarrow> in_bounds 90 (lat p) \<and> in_bounds 180 (lon p)"

definition locations_wf :: "int \<Rightarrow> locations \<Rightarrow> bool" where
  "locations_wf rp l \<longleftrightarrow>
     l \<noteq> [] \<and> hwf l \<and> (\<forall>(k, p) \<in> set l. normalize rp k = k \<and> point_ok p)"

lemma in_bounds_Fin: "in_bounds m x \<Longrightarrow> \<exists>r. x = Fin r \<and> - m \<le> r \<and> r \<le> m"
  by (cases x) (simp_all add: in_bounds_def)

lemma great_circle_bounds: "0 \<le> great_circle a b c d" "great_circle a b c d \<le> EARTH_RADIUS_KM * pi"
proof -
  have "0 \<le> arcsin x \<and> arcsin x \<le> pi / 2" if "0 \<le> x" "x \<le> 1" for x
    using that arcsin_bounded [of x] arcsin_le_arcsin [of 0 x] by simp
  moreover have "0 \<le> (if h < 0 then 1 else min (sqrt h) 1) \<and> (if h < 0 then 1 else min (sqrt h) 1) \<le> (1 :: real)" for h :: real
    by simp
  ultimately have "\<exists>u. great_circle a b c d = 2 * EARTH_RADIUS_KM * u \<and> 0 \<le> u \<and> u \<le> pi / 2"
    unfolding great_circle_def Let_def by blast
  then show "0 \<le> great_circle a b c d" "great_circle a b c d \<le> EARTH_RADIUS_KM * pi"
    by (auto simp: EARTH_RADIUS_KM_def)
qed

lemma great_circle_commute: "great_circle a b c d = great_circle c d a b"
proof -
  have "(sin ((x - y) / 2))\<^sup>2 = (sin ((y - x) / 2))\<^sup>2" for x y :: real
    using sin_minus [of "(x - y) / 2"] by (metis minus_diff_eq minus_divide_left power2_minus)
  moreover have "to_radians (x - y) = to_radians x - to_radians y" for x y
    by (simp add: to_radians_def algebra_simps diff_divide_distrib)
  ultimately show ?thesis unfolding great_circle_def Let_def by (simp add: mult.commute)
qed

lemma great_circle_self: "great_circle a b a b = 0"
  by (simp add: great_circle_def to_radians_def)

lemma distance_km_cases:
  obtains w x y z where "lat a = Fin w" "lon a = Fin x" "lat b = Fin y" "lon b = Fin z"
      "distance_km a b = round64 (great_circle w x y z)"
      "distance_km b a = round64 (great_circle y z w x)"
  | "distance_km a b = round64 (EARTH_RADIUS_KM * pi)" "distance_km b a = round64 (EARTH_RADIUS_KM * pi)"
proof (cases "\<exists>w x y z. lat a = Fin w \<and> lon a = Fin x \<and> lat b = Fin y \<and> lon b = Fin z")
  case True
  then obtain w x y z where "lat a = Fin w" "lon a = Fin x" "lat b = Fin y" "lon b = Fin z" by blast
  with that(1) show thesis by (simp add: distance_km_def)
next
  case False
  have "2 * EARTH_RADIUS_KM * arcsin 1 = EARTH_RADIUS_KM * pi" by simp
  with False have "distance_km a b = round64 (EARTH_RADIUS_KM * pi)"
      "distance_km b a = round64 (EARTH_RADIUS_KM * pi)"
    unfolding distance_km_def
    by (cases "lat a"; cases "lon a"; cases "lat b"; cases "lon b"; simp)+
  with that(2) show thesis by blast
qed

lemma distance_km_commute: "distance_km a b = distance_km b a"
  by (rule distance_km_cases [of a b]) (metis great_circle_commute, simp)

lemma distance_km_bounds:
  obtains r where "distance_km a b = Fin r" "0 \<le> r" "r \<le> 25484"
proof -
  have pi4: "EARTH_RADIUS_KM * pi \<le> 25484" using pi_less_4 by (simp add: EARTH_RADIUS_KM_def)
  have "\<exists>d. distance_km a b = round64 d \<and> 0 \<le> d \<and> d \<le> 25484"
  proof (cases rule: distance_km_cases [of a b])
    case (1 w x y z)
    with great_circle_bounds [of w x y z] pi4 show ?thesis by force
  next
    case 2
    moreover have "0 \<le> EARTH_RADIUS_KM * pi" by (simp add: EARTH_RADIUS_KM_def)
    ultimately show ?thesis using pi4 by blast
  qed
  then obtain d where "distance_km a b = round64 d" "0 \<le> d" "d \<le> of_int 25484" by auto
  with round64_le_int [of d 25484] that show ?thesis by auto
qed

lemma cost_bounds:
  obtains r where "f64_div_const (distance_km a b) KM_PER_MS = Fin r" "0 \<le> r" "r \<le> 510"
proof -
  obtain d where d: "distance_km a b = Fin d" "0 \<le> d" "d \<le> 25484" by (rule distance_km_bounds)
  then have "0 \<le> d / KM_PER_MS" "d / KM_PER_MS \<le> of_int 510" by (simp_all add: KM_PER_MS_def)
  then obtain r where "round64 (d / KM_PER_MS) = Fin r" "0 \<le> r" "r \<le> of_int 510"
    by (rule round64_le_int) simp
  with d that show ?thesis by simp
qed

lemma cost_from_ok: "cost_ok (f64_div_const (distance_km a b) KM_PER_MS)"
proof -
  obtain d where "distance_km a b = Fin d" "0 \<le> d" by (rule distance_km_bounds)
  then show ?thesis by (simp add: KM_PER_MS_def cost_ok_round64)
qed

lemma costs_from_side_ok: "hwf l \<Longrightarrow> side_ok (costs_from l p)"
  by (auto simp: side_ok_def costs_from_def hwf_def comp_def case_prod_beta cost_from_ok)

lemma hget_costs_from:
  "hget (costs_from l p) k = map_option (\<lambda>q. f64_div_const (distance_km p q) KM_PER_MS) (hget l k)"
  unfolding hget_def costs_from_def by (induction l) auto

lemma parse_loc_line_wf:
  assumes "parse_loc_line rp n raw l = Inr l'" "hwf l" "\<forall>(k, p) \<in> set l. normalize rp k = k \<and> point_ok p"
  shows "hwf l' \<and> (\<forall>(k, p) \<in> set l'. normalize rp k = k \<and> point_ok p)"
proof -
  have "l' = l \<or> (\<exists>r la lo. l' = hput (normalize rp r) \<lparr>lat = la, lon = lo\<rparr> l \<and> in_bounds 90 la \<and> in_bounds 180 lo)"
    using assms(1)
    by (auto simp: parse_loc_line_def Let_def split: if_splits option.splits list.splits prod.splits)
  with assms(2,3) show ?thesis
    by (auto simp: normalize_idem point_ok_def dest!: hput_set)
qed

lemma parse_loc_lines_wf:
  "parse_loc_lines rp n raws l = Inr l' \<Longrightarrow> hwf l \<Longrightarrow> \<forall>(k, p) \<in> set l. normalize rp k = k \<and> point_ok p \<Longrightarrow>
   hwf l' \<and> (\<forall>(k, p) \<in> set l'. normalize rp k = k \<and> point_ok p)"
proof (induction rp n raws l rule: parse_loc_lines.induct)
  case (2 rp n raw raws l)
  then obtain l1 where l1: "parse_loc_line rp n raw l = Inr l1" "parse_loc_lines rp (Suc n) raws l1 = Inr l'"
    by (auto split: sum.splits)
  with parse_loc_line_wf [OF l1(1) "2.prems"(2,3)] "2.IH" show ?case by blast
qed simp

lemma locations_parse_wf: "locations_parse rp text = Inr l \<Longrightarrow> locations_wf rp l"
  by (auto simp: locations_parse_def locations_wf_def split: sum.splits if_splits
      dest!: parse_loc_lines_wf)

text \<open>The locations with a database are the second source of costs.\<close>

definition geo_costs :: "geo_db \<Rightarrow> locations \<Rightarrow> ipaddr \<Rightarrow> cost_map option" where
  "geo_costs db l ip = map_option (costs_from l) (geo_locate db ip)"

interpretation geo: cost_source "\<lambda>(db, l). geo_costs db l" "\<lambda>(db, l). locations_wf rp l" for rp
  by unfold_locales
     (auto simp: geo_costs_def geo_locate_def locations_wf_def intro: costs_from_side_ok)

lemma geo_locate_ok: "geo_locate db ip = Some p \<Longrightarrow> point_ok p"
  by (auto simp: geo_locate_def point_ok_def split: Option.bind_splits if_splits)

section \<open>Private copies\<close>

lemma leftover_copy_name: "leftover name (copy_name env name n)"
proof -
  have sw: "starts_with p (p @ q)" for p q :: string by (induction p) auto
  then have ew: "ends_with q (p @ q)" for p q :: string by (simp add: ends_with_def)
  show ?thesis
    unfolding leftover_def copy_name_def
    using sw [of "''.'' @ name @ ''.''"] ew [of "''.loaded''"] by (metis append_assoc)
qed

lemma map_copy_files:
  "hget (snd (map_copy env path name dirs fs)) k = hget fs k \<or>
   hget (snd (map_copy env path name dirs fs)) k = None \<and> snd k = name"
  by (induction env path name dirs fs rule: map_copy.induct)
     (auto simp: Let_def split: option.splits if_splits)

lemma clear_leftovers_get:
  assumes "hwf fs"
  shows "hget (clear_leftovers env dir name fs) (d, f) =
    (if dir \<noteq> [] \<and> ge_writable env dir \<and> d = dir \<and> leftover name f then None else hget fs (d, f))"
  using assms by (auto simp: clear_leftovers_def hget_retain split: option.splits)

text \<open>A copy is mapped whenever the file can be read and one of the two folders written.\<close>

lemma map_copy_private:
  assumes "hget fs path = Some contents" "ge_open_mmap env contents = Some r"
    and "\<exists>d \<in> set dirs. ge_writable env d"
  shows "fst (map_copy env path name dirs fs) = Some (PrivateCopy r)"
  using assms by (induction env path name dirs fs rule: map_copy.induct) (auto simp: Let_def)

lemma not_leftover_self: "\<not> leftover name name"
proof -
  have "starts_with p s \<Longrightarrow> length p \<le> length s" for p s
    by (induction p s rule: starts_with.induct) auto
  from this [of "''.'' @ name @ ''.''" name] show ?thesis by (auto simp: leftover_def)
qed

section \<open>Unlocated relays\<close>

lemma round64_sum_le:
  assumes "0 \<le> x" "x \<le> 510" "0 \<le> y" "y \<le> 510"
  obtains r where "round64 (x + y) = Fin r" "r \<le> 1020"
proof -
  have "0 \<le> x + y" "x + y \<le> of_int 1020" using assms by simp_all
  then show ?thesis using round64_le_int [of "x + y" 1020] that by fastforce
qed

text \<open>The total cost of a relay over the located ends, of which there are one or two.\<close>

lemma located_total:
  assumes "hget l (normalize rp r) = Some q" "ps = [p] \<or> ps = [p, p']"
  shows "f64_lt (relay_total rp (map (costs_from l) ps) r) (Fin (1000 * real (length ps)))"
proof -
  have side: "\<exists>c. side_cost (normalize rp r) (costs_from l x) = Fin c \<and> 0 \<le> c \<and> c \<le> 510
      \<and> round64 c = Fin c" for x
  proof -
    obtain c where "f64_div_const (distance_km x q) KM_PER_MS = Fin c" "0 \<le> c" "c \<le> 510"
      by (rule cost_bounds)
    with cost_from_ok [of x q] assms(1) show ?thesis
      by (simp add: side_cost_def hget_costs_from cost_ok_def f64_rep_def)
  qed
  from side [of p] obtain c where c: "side_cost (normalize rp r) (costs_from l p) = Fin c"
    "0 \<le> c" "c \<le> 510" "round64 c = Fin c" by blast
  from side [of p'] obtain c' where c': "side_cost (normalize rp r) (costs_from l p') = Fin c'"
    "0 \<le> c'" "c' \<le> 510" by blast
  obtain s where "round64 (c + c') = Fin s" "s \<le> 1020"
    using round64_sum_le c(2,3) c'(2,3) by blast
  with assms(2) c c' show ?thesis by (auto simp: relay_total_def f64_sum_def)
qed

lemma unlocated_total:
  assumes "hget l (normalize rp r) = None" "ps = [p] \<or> ps = [p, p']"
  shows "relay_total rp (map (costs_from l) ps) r = Fin (1000 * real (length ps))"
  using assms
  by (auto simp: relay_total_def side_cost_def hget_costs_from f64_sum_def UNLISTED_COST_MS_def)

lemma geo_sides:
  assumes "geo_locate db a \<noteq> None \<or> geo_locate db b \<noteq> None"
  obtains ps p p' where "ps = [p] \<or> ps = [p, p']"
    "List.map_filter (geo_costs db l) [a, b] = map (costs_from l) ps"
proof -
  have "List.map_filter (geo_costs db l) [a, b] =
      map (costs_from l) (List.map_filter (geo_locate db) [a, b])"
    by (cases "geo_locate db a"; cases "geo_locate db b") (simp_all add: map_filter_def geo_costs_def)
  moreover have "\<exists>p p'. List.map_filter (geo_locate db) [a, b] = [p]
      \<or> List.map_filter (geo_locate db) [a, b] = [p, p']"
    using assms by (cases "geo_locate db a"; cases "geo_locate db b") (auto simp: map_filter_def)
  ultimately show ?thesis using that by blast
qed

section \<open>Properties\<close>

text \<open>
  The distance between two places does not depend on the direction, is zero from a place
  to itself, and is a number of kilometres between 0 and 25484 whatever the coordinates.
\<close>

theorem distance_km_metric:
  "distance_km a b = distance_km b a \<and>
   (lat a = Fin x \<and> lon a = Fin y \<longrightarrow> distance_km a a = Fin 0) \<and>
   (\<exists>r. distance_km a b = Fin r \<and> 0 \<le> r \<and> r \<le> 25484)"
proof -
  have "\<exists>r. distance_km a b = Fin r \<and> 0 \<le> r \<and> r \<le> 25484"
    by (rule distance_km_bounds [of a b]) blast
  then show ?thesis
    using distance_km_commute [of a b] by (auto simp: distance_km_def [of a a] great_circle_self)
qed

theorem distance_km_metric_witness:
  "distance_km \<lparr>lat = Fin 22, lon = Fin 114\<rparr> \<lparr>lat = Fin 22, lon = Fin 114\<rparr> = Fin 0"
  using distance_km_metric [of "\<lparr>lat = Fin 22, lon = Fin 114\<rparr>" "\<lparr>lat = Fin 22, lon = Fin 114\<rparr>" 22 114]
  by simp

text \<open>
  A location list that was read is well formed: it names at least one relay, each once
  and in normal form, and every position has a latitude from -90 to 90 and a longitude from
  -180 to 180.
\<close>

theorem locations_parse_well_formed:
  assumes "locations_parse relay_port text = Inr l"
  shows "l \<noteq> [] \<and> distinct (map fst l) \<and>
    (\<forall>(relay, p) \<in> set l. normalize relay_port relay = relay \<and>
       (\<exists>x y. lat p = Fin x \<and> - 90 \<le> x \<and> x \<le> 90 \<and> lon p = Fin y \<and> - 180 \<le> y \<and> y \<le> 180))"
  using locations_parse_wf [OF assms]
  by (auto simp: locations_wf_def hwf_def point_ok_def dest!: in_bounds_Fin)

definition example_locations :: string where
  "example_locations = ''HK:1  22,114 # Hong Kong'' @ [newline] @ ''lon:1 51 , -1''"

lemma example_location_lines: "str_lines example_locations = [''HK:1  22,114 # Hong Kong'', ''lon:1 51 , -1'']"
  by (simp add: example_locations_def text_eval)

lemma round64_m1: "round64 (- 1) = Fin (- 1)"
  using round64_int [of "- 1"] by simp

lemma example_locations_parse:
  "locations_parse 21117 example_locations =
   Inr [(''hk:1'', \<lparr>lat = Fin 22, lon = Fin 114\<rparr>), (''lon:1'', \<lparr>lat = Fin 51, lon = Fin (- 1)\<rparr>)]"
  unfolding locations_parse_def example_location_lines
  by (simp add: route_eval parse_loc_line_def in_bounds_def round64_m1)

theorem locations_parse_well_formed_witness:
  "normalize 21117 ''hk:1'' = ''hk:1''"
  using locations_parse_well_formed [OF example_locations_parse] by simp

text \<open>
  C24. Placement by the locations alone: when the database places at least one of the two ends, a
  choice is made; it does not depend on which end is the controller; and a relay without a position
  is never chosen while a healthy relay has one, whatever the distances.
\<close>

theorem geo_choice_prefers_located:
  assumes l: "locations_parse relay_port text = Inr l"
    and located: "geo_locate db a \<noteq> None \<or> geo_locate db b \<noteq> None"
    and r: "r \<in> set healthy" "knows relay_port l r"
  shows "\<exists>c. choose_from relay_port healthy (List.map_filter (geo_costs db l) [a, b]) = Some c
    \<and> choose_from relay_port healthy (List.map_filter (geo_costs db l) [b, a]) = Some c
    \<and> ch_relay c \<in> set healthy \<and> knows relay_port l (ch_relay c)"
proof -
  let ?sides = "List.map_filter (geo_costs db l) [a, b]"
  note wf = locations_parse_wf [OF l]
  obtain ps p p' where ps: "ps = [p] \<or> ps = [p, p']" "?sides = map (costs_from l) ps"
    using geo_sides [OF located] by blast
  then obtain c where c: "choose_from relay_port healthy ?sides = Some c"
    using r(1) choose_from_None [of relay_port healthy ?sides] by (cases "healthy = []") fastforce+
  from geo.choose_first_cheapest [of relay_port "(db, l)" relay_port healthy "[a, b]" c] wf c
  obtain i where i: "i < length healthy" "ch_relay c = healthy ! i"
    "ch_cost_ms c = relay_total relay_port ?sides (healthy ! i)"
    "\<forall>j < length healthy. \<not> f64_lt (relay_total relay_port ?sides (healthy ! j)) (ch_cost_ms c)"
    by auto
  obtain q where "hget l (normalize relay_port r) = Some q" using r(2) by (auto simp: knows_def)
  then have "f64_lt (relay_total relay_port ?sides r) (Fin (1000 * real (length ps)))"
    unfolding ps(2) using located_total ps(1) by blast
  moreover have "\<not> f64_lt (relay_total relay_port ?sides r) (ch_cost_ms c)"
    using i(4) r(1) by (auto simp: in_set_conv_nth)
  ultimately have "relay_total relay_port ?sides (ch_relay c) \<noteq> Fin (1000 * real (length ps))"
    using i(2,3) by metis
  then have "knows relay_port l (ch_relay c)"
    unfolding knows_def ps(2) using unlocated_total [OF _ ps(1)] by blast
  moreover have "choose_from relay_port healthy (List.map_filter (geo_costs db l) [b, a]) = Some c"
    using geo.choose_symmetric [of relay_port "(db, l)" relay_port healthy a b] wf c by simp
  ultimately show ?thesis using c i(1,2) by auto
qed

definition example_db :: geo_db where
  "example_db = \<lparr>gd_kind = ''DBIP-City-Lite'', gd_reader =
     \<lparr>mm_database_type = ''DBIP-City-Lite'', mm_node_count = 1,
      mm_lookup = (\<lambda>ip. if ip = v4_of 1 2 3 4
        then Some (\<lambda>path. Some (if path = [''location'', ''latitude''] then Fin 30 else Fin 120)) else None)\<rparr>\<rparr>"

lemma example_geo_locate: "geo_locate example_db (v4_of 1 2 3 4) = Some \<lparr>lat = Fin 30, lon = Fin 120\<rparr>"
  by (simp add: geo_locate_def example_db_def is_finite_def in_bounds_def v4_of_def)

theorem geo_choice_prefers_located_witness:
  "\<exists>c. choose_from 21117 [''x:1'', ''HK:1'']
      (List.map_filter (geo_costs example_db
        [(''hk:1'', \<lparr>lat = Fin 22, lon = Fin 114\<rparr>), (''lon:1'', \<lparr>lat = Fin 51, lon = Fin (- 1)\<rparr>)])
        [v4_of 1 2 3 4, v4_of 9 9 9 9]) = Some c"
proof -
  have "geo_locate example_db (v4_of 1 2 3 4) \<noteq> None \<or> geo_locate example_db (v4_of 9 9 9 9) \<noteq> None"
    using example_geo_locate by blast
  moreover have "knows 21117
      [(''hk:1'', \<lparr>lat = Fin 22, lon = Fin 114\<rparr>), (''lon:1'', \<lparr>lat = Fin 51, lon = Fin (- 1)\<rparr>)] ''HK:1''"
    by (simp add: knows_def normalize_def text_eval hget_def)
  moreover have "''HK:1'' \<in> set [''x:1'', ''HK:1'']" by simp
  ultimately show ?thesis
    using geo_choice_prefers_located [OF example_locations_parse] by metis
qed

text \<open>
  Opening the database leaves no private copy behind: no file appears that was not
  there, every file that is not such a copy is untouched, copies left by an earlier process
  are removed from a folder that can be listed and written, and if either folder can be written
  the running server never reads the original in place.
\<close>

theorem open_mapped_clean:
  assumes "hwf fs" and "open_mapped env dir name n fs = (m, n', fs')"
  shows "(\<forall>k. hget fs' k = hget fs k \<or> hget fs' k = None \<and> leftover name (snd k)) \<and>
    (dir \<noteq> [] \<and> ge_writable env dir \<longrightarrow> (\<forall>f. leftover name f \<longrightarrow> hget fs' (dir, f) = None)) \<and>
    (ge_writable env dir \<or> ge_writable env (ge_temp_dir env) \<longrightarrow> (\<forall>r. m \<noteq> InPlace r))"
proof -
  let ?fs1 = "clear_leftovers env dir name fs" and ?copy = "copy_name env name n"
  let ?r = "map_copy env (dir, name) ?copy [dir, ge_temp_dir env] ?fs1"
  from assms(2) have fs': "fs' = snd ?r"
    and m: "m = (case fst ?r of Some m \<Rightarrow> m | None \<Rightarrow>
      (case Option.bind (hget fs' (dir, name)) (ge_open_mmap env) of None \<Rightarrow> CannotOpen | Some r \<Rightarrow> InPlace r))"
    by (auto simp: open_mapped_def Let_def simp del: map_copy.simps split: prod.splits)
  have step: "hget fs' (d, f) = hget ?fs1 (d, f) \<or> hget fs' (d, f) = None \<and> f = ?copy" for d f
    using map_copy_files [of env "(dir, name)" ?copy "[dir, ge_temp_dir env]" ?fs1 "(d, f)"] fs' by simp
  have a: "hget fs' (d, f) = hget fs (d, f) \<or> hget fs' (d, f) = None \<and> leftover name f" for d f
    using step [of d f] clear_leftovers_get [OF assms(1), of env dir name d f] leftover_copy_name [of name env n]
    by (auto split: if_splits)
  have b: "hget fs' (dir, f) = None" if "dir \<noteq> [] \<and> ge_writable env dir" "leftover name f" for f
    using step [of dir f] clear_leftovers_get [OF assms(1), of env dir name dir f] that by auto
  have c: "m \<noteq> InPlace r" if "ge_writable env dir \<or> ge_writable env (ge_temp_dir env)" for r
  proof (cases "hget ?fs1 (dir, name)")
    case None
    then have "hget fs' (dir, name) = None" using step [of dir name] by auto
    with that None m show ?thesis
      by (auto simp: Let_def split: option.splits if_splits)
  next
    case (Some contents)
    with that m show ?thesis by (auto simp: Let_def split: option.splits if_splits)
  qed
  show ?thesis using a b c by auto
qed


definition example_env :: geo_env where
  "example_env = \<lparr>ge_writable = (\<lambda>d. d = ''/data''), ge_temp_dir = ''/tmp'', ge_pid = 7,
     ge_open_mmap = (\<lambda>_. Some (gd_reader example_db))\<rparr>"

abbreviation example_files :: folder_files where
  "example_files \<equiv> [((''/data'', ''geo.mmdb''), [1]), ((''/data'', ''.geo.mmdb.3.0.loaded''), [2])]"

lemma example_open:
  "open_mapped example_env ''/data'' ''geo.mmdb'' 0 example_files =
   (PrivateCopy (gd_reader example_db), 1, [((''/data'', ''geo.mmdb''), [1])])"
  by (simp add: open_mapped_def clear_leftovers_def leftover_def copy_name_def example_env_def
      hretain_def hget_def hput_def hdel_def text_eval)

theorem open_mapped_clean_witness:
  "hget [((''/data'', ''geo.mmdb''), [1 :: 8 word])] (''/data'', ''.geo.mmdb.3.0.loaded'') = None"
  using open_mapped_clean [OF _ example_open]
  by (simp add: hwf_def example_env_def leftover_def text_eval)


end
