(* ===== verification/Config.thy ===== *)
theory Config
  imports Net "HOL-Library.Char_ord" "HOL-Library.List_Lexorder"
begin

text \<open>
  Settings: the argument handling and the address helpers of \<^verbatim>\<open>src/src/common.rs\<close>, and what the two
  binaries \<^verbatim>\<open>src/src/main.rs\<close> and \<^verbatim>\<open>src/src/hbbr.rs\<close> make of them. The environment of the process is a
  map; a value that is not valid Unicode is \<^term>\<open>None\<close>. The command line as \<^verbatim>\<open>clap\<close> reports it and
  the files as \<^verbatim>\<open>rust-ini\<close> reads them are arguments, as is name resolution.
\<close>

section \<open>Addresses\<close>

definition parse_bind_address :: "string \<Rightarrow> string + ipaddr option" where
  "parse_bind_address value =
     (let v = trim value
      in if v = [] then Inr None
         else (case parse_ip v of None \<Rightarrow> Inl v | Some a \<Rightarrow> Inr (Some a)))"

text \<open>Where a listener listens: on one address, or on any.\<close>

datatype listen_on = ListenAt sockaddr | ListenAny "16 word"

definition listen_tcp :: "ipaddr option \<Rightarrow> 16 word \<Rightarrow> listen_on" where
  "listen_tcp bind_addr port =
     (case bind_addr of Some a \<Rightarrow> ListenAt (SocketAddr a port) | None \<Rightarrow> ListenAny port)"

definition console_addr :: "ipaddr option \<Rightarrow> 16 word \<Rightarrow> sockaddr option" where
  "console_addr bind_addr port =
     (case bind_addr of
        None \<Rightarrow> None
      | Some a \<Rightarrow>
          if is_unspecified a \<or> a = v4_localhost then None
          else Some (SocketAddr v4_localhost port))"

text \<open>\<^verbatim>\<open>listen_console\<close>: opening the listener may fail.\<close>

definition listen_console :: "(sockaddr \<Rightarrow> bool) \<Rightarrow> ipaddr option \<Rightarrow> 16 word \<Rightarrow> sockaddr + sockaddr option" where
  "listen_console opens bind_addr port =
     (case console_addr bind_addr port of
        Some a \<Rightarrow> if opens a then Inr (Some a) else Inl a
      | None \<Rightarrow> Inr None)"

definition get_expired_time :: "instant \<Rightarrow> instant" where
  "get_expired_time now = (if 3600 * 10 ^ 9 \<le> now then now - 3600 * 10 ^ 9 else now)"

definition test_if_valid_server :: "(string \<Rightarrow> sockaddr list option) \<Rightarrow> string \<Rightarrow> sockaddr option" where
  "test_if_valid_server resolve host =
     (case resolve (if CHR '':'' \<in> set host then host else host @ '':0'') of
        Some (a # _) \<Rightarrow> Some a
      | _ \<Rightarrow> None)"

definition get_servers :: "(string \<Rightarrow> sockaddr list option) \<Rightarrow> string \<Rightarrow> string list" where
  "get_servers resolve s =
     filter (\<lambda>x. x \<noteq> [] \<and> test_if_valid_server resolve x \<noteq> None) (split_char (CHR '','') s)"

section \<open>Arguments\<close>

type_synonym environ = "(string, string option) hmap"

definition arg_name :: "string \<Rightarrow> string" where
  "arg_name name = replace_char (CHR ''_'') (CHR ''-'') (to_uppercase name)"

definition set_arg :: "string \<Rightarrow> string \<Rightarrow> environ \<Rightarrow> environ" where
  "set_arg name v env = hput (arg_name name) (Some v) env"

definition set_args :: "(string \<times> string) list \<Rightarrow> environ \<Rightarrow> environ" where
  "set_args kvs env = fold (\<lambda>(k, v). set_arg k v) kvs env"

text \<open>
  \<^verbatim>\<open>init_args\<close>: the general sections of \<^verbatim>\<open>.env\<close> and of the file named by \<^verbatim>\<open>--config\<close> (absent
  when a file cannot be read or has no such section), then the first value of every argument
  of the command line that has one.
\<close>

definition init_args ::
  "(string \<Rightarrow> (string \<times> string) list option) \<Rightarrow> (string \<times> string list) list \<Rightarrow> environ \<Rightarrow> environ" where
  "init_args ini cmdline env =
     (let env1 = (case ini ''.env'' of None \<Rightarrow> env | Some kvs \<Rightarrow> set_args kvs env);
          env2 = (case map_of cmdline ''config'' of
                    Some (config # _) \<Rightarrow>
                      (case ini config of None \<Rightarrow> env1 | Some kvs \<Rightarrow> set_args kvs env1)
                  | _ \<Rightarrow> env1)
      in set_args (List.map_filter (\<lambda>(k, vs). case vs of [] \<Rightarrow> None | v # _ \<Rightarrow> Some (k, v)) cmdline) env2)"

definition env_var :: "environ \<Rightarrow> string \<Rightarrow> string option" where
  "env_var env k = Option.bind (hget env k) id"

definition aliases :: "string \<Rightarrow> string list" where
  "aliases name =
     (let dashed = arg_name name;
          underscored = replace_char (CHR ''-'') (CHR ''_'') dashed
      in [dashed, underscored, to_lowercase dashed, to_lowercase underscored])"

fun first_var :: "environ \<Rightarrow> string list \<Rightarrow> string option" where
  "first_var env [] = None"
| "first_var env (k # ks) = (case env_var env k of Some v \<Rightarrow> Some v | None \<Rightarrow> first_var env ks)"

definition other_aliases :: "environ \<Rightarrow> string \<Rightarrow> (string \<times> string) list" where
  "other_aliases env name =
     sort_key fst (List.map_filter
       (\<lambda>(k, v). if arg_name k = arg_name name then map_option (\<lambda>v. (k, v)) v else None) env)"

definition get_arg_opt :: "environ \<Rightarrow> string \<Rightarrow> string option" where
  "get_arg_opt env name =
     (case first_var env (aliases name) of
        Some v \<Rightarrow> Some v
      | None \<Rightarrow> (case other_aliases env name of [] \<Rightarrow> None | (_, v) # _ \<Rightarrow> Some v))"

definition get_arg_or :: "environ \<Rightarrow> string \<Rightarrow> string \<Rightarrow> string" where
  "get_arg_or env name def = (case get_arg_opt env name of Some v \<Rightarrow> v | None \<Rightarrow> def)"

definition get_arg :: "environ \<Rightarrow> string \<Rightarrow> string" where
  "get_arg env name = get_arg_or env name []"

section \<open>The binaries\<close>

record hbbs_start =
  hs_bind_addr :: "ipaddr option"
  hs_port :: int
  hs_serial :: int
  hs_key :: string
  hs_rmem :: nat

datatype start_error = PortNotANumber string | InvalidPort int | InvalidBind string

definition RMEM :: nat where
  "RMEM = 0"

definition hbbs_main :: "int \<Rightarrow> environ \<Rightarrow> start_error + hbbs_start" where
  "hbbs_main rendezvous_port env =
     (let port_text = get_arg_or env ''port'' (show_int rendezvous_port)
      in case parse_i32 port_text of
           None \<Rightarrow> Inl (PortNotANumber port_text)
         | Some port \<Rightarrow>
             if port < 3 then Inl (InvalidPort port)
             else
               (case parse_bind_address (get_arg env ''bind'') of
                  Inl v \<Rightarrow> Inl (InvalidBind v)
                | Inr bind_addr \<Rightarrow>
                    Inr \<lparr>hs_bind_addr = bind_addr, hs_port = port,
                         hs_serial = (case parse_i32 (get_arg env ''serial'') of Some n \<Rightarrow> n | None \<Rightarrow> 0),
                         hs_key = get_arg_or env ''key'' ''-'',
                         hs_rmem = (case parse_u64 (get_arg env ''rmem'') of Some n \<Rightarrow> n | None \<Rightarrow> RMEM)\<rparr>))"

text \<open>The relay takes its port from \<^verbatim>\<open>--port\<close>, else one more than \<^verbatim>\<open>PORT\<close> of the environment
  (an addition of type \<^verbatim>\<open>i32\<close>, which wraps), else the default.\<close>

definition i32_wrap :: "int \<Rightarrow> int" where
  "i32_wrap i = signed (word_of_int i :: 32 word)"

definition hbbr_port :: "int \<Rightarrow> environ \<Rightarrow> int" where
  "hbbr_port relay_port env =
     (case get_arg_opt env ''PORT'' of
        None \<Rightarrow> relay_port
      | Some v \<Rightarrow>
          (let n = (case parse_i32 v of Some n \<Rightarrow> n | None \<Rightarrow> 0)
           in if 0 < n then i32_wrap (n + 1) else relay_port))"

definition hbbr_main ::
  "int \<Rightarrow> (string \<Rightarrow> (string \<times> string) list option) \<Rightarrow> (string \<Rightarrow> string option) \<Rightarrow> environ
   \<Rightarrow> start_error + (ipaddr option \<times> string \<times> string)" where
  "hbbr_main relay_port ini cmdline env =
     (let env1 = (case ini ''.env'' of None \<Rightarrow> env | Some kvs \<Rightarrow> set_args kvs env);
          port = hbbr_port relay_port env1;
          bind = (case cmdline ''bind'' of Some b \<Rightarrow> b | None \<Rightarrow> get_arg env1 ''BIND'')
      in case parse_bind_address bind of
           Inl v \<Rightarrow> Inl (InvalidBind v)
         | Inr bind_addr \<Rightarrow>
             Inr (bind_addr,
                  (case cmdline ''port'' of Some p \<Rightarrow> p | None \<Rightarrow> show_int port),
                  (case cmdline ''key'' of Some k \<Rightarrow> k | None \<Rightarrow> get_arg env1 ''KEY'')))"

section \<open>Names of arguments\<close>

lemma arg_name_map: "arg_name s = map (\<lambda>c. if upper_char c = CHR ''_'' then CHR ''-'' else upper_char c) s"
  by (simp add: arg_name_def replace_char_def to_uppercase_def)

definition arg_char :: "char \<Rightarrow> char" where
  "arg_char c = (if upper_char c = CHR ''_'' then CHR ''-'' else upper_char c)"

lemma arg_name_chars: "arg_name s = map arg_char s"
  by (simp add: arg_name_map arg_char_def [abs_def])

lemma upper_fixed: "(of_char c :: nat) < 97 \<or> 122 < (of_char c :: nat) \<Longrightarrow> upper_char c = c"
  by (auto simp: upper_char_def Let_def)

lemma upper_lower: "upper_char (lower_char c) = upper_char c"
  by (auto simp: upper_char_def lower_char_def Let_def)

lemma arg_char_arg_char [simp]: "arg_char (arg_char c) = arg_char c"
  by (simp add: arg_char_def upper_fixed)

lemma arg_char_lower [simp]: "arg_char (lower_char c) = arg_char c"
  by (simp add: arg_char_def upper_lower)

lemma arg_char_underscore [simp]: "arg_char (if arg_char c = CHR ''-'' then CHR ''_'' else arg_char c) = arg_char c"
  by (auto simp: arg_char_def upper_fixed)

lemma arg_name_idem [simp]: "arg_name (arg_name s) = arg_name s"
  by (simp add: arg_name_chars)

text \<open>All spellings of an argument are looked up under the same name.\<close>

lemma arg_name_aliases: "k \<in> set (aliases name) \<Longrightarrow> arg_name k = arg_name name"
  by (auto simp: aliases_def Let_def arg_name_chars replace_char_def to_lowercase_def comp_def)

lemma aliases_hd: "aliases name = arg_name name # tl (aliases name)"
  by (simp add: aliases_def Let_def)

lemma aliases_arg_name: "arg_name name = arg_name name' \<Longrightarrow> aliases name = aliases name'"
  by (simp add: aliases_def)

lemma get_arg_opt_empty [simp]: "get_arg_opt [] name = None"
proof -
  have "first_var [] ks = None" for ks by (induction ks) (simp_all add: env_var_def)
  then show ?thesis by (simp add: get_arg_opt_def other_aliases_def map_filter_simps)
qed

lemma first_var_set_other:
  "\<forall>k \<in> set ks. k \<noteq> arg_name name \<Longrightarrow> first_var (set_arg name v env) ks = first_var env ks"
  by (induction ks) (auto simp: env_var_def set_arg_def split: option.splits)

lemma map_filter_hput_other:
  "(\<And>v. g (k, v) = None) \<Longrightarrow> List.map_filter g (hput k v m) = List.map_filter g m"
  unfolding hput_def by (induction m) (auto simp: map_filter_simps split: option.splits)

lemma get_arg_set_same:
  assumes "arg_name name' = arg_name name"
  shows "get_arg_opt (set_arg name v env) name' = Some v"
proof -
  have "env_var (set_arg name v env) (arg_name name') = Some v"
    by (simp add: env_var_def set_arg_def assms)
  then show ?thesis
    by (subst get_arg_opt_def, subst aliases_hd) simp
qed

lemma get_arg_set_other:
  assumes "arg_name name' \<noteq> arg_name name"
  shows "get_arg_opt (set_arg name v env) name' = get_arg_opt env name'"
proof -
  have "\<forall>k \<in> set (aliases name'). k \<noteq> arg_name name"
    using assms arg_name_aliases arg_name_idem by metis
  then have "first_var (set_arg name v env) (aliases name') = first_var env (aliases name')"
    by (rule first_var_set_other)
  moreover have "other_aliases (set_arg name v env) name' = other_aliases env name'"
    using assms unfolding other_aliases_def set_arg_def by (subst map_filter_hput_other) auto
  ultimately show ?thesis by (simp add: get_arg_opt_def split: option.split)
qed

lemmas get_arg_set = get_arg_set_same get_arg_set_other

lemma get_arg_set_args:
  "get_arg_opt (set_args kvs env) name =
   (case List.find (\<lambda>(k, v). arg_name k = arg_name name) (rev kvs) of
      Some (_, v) \<Rightarrow> Some v | None \<Rightarrow> get_arg_opt env name)"
proof (induction kvs rule: rev_induct)
  case (snoc kv kvs)
  obtain k v where kv: "kv = (k, v)" by force
  show ?case
  proof (cases "arg_name k = arg_name name")
    case True
    with kv show ?thesis by (simp add: set_args_def get_arg_set_same)
  next
    case False
    with kv snoc show ?thesis by (simp add: set_args_def get_arg_set_other)
  qed
qed (simp add: set_args_def)

section \<open>Properties\<close>

text \<open>
  Arguments are read under every spelling: what was set under one spelling of a name is
  what any spelling of it (upper or lower case, dashes or underscores) reads, and setting one
  argument changes no other.
\<close>

theorem get_arg_after_set:
  "get_arg_opt (set_arg name v env) name' =
   (if arg_name name' = arg_name name then Some v else get_arg_opt env name')"
  by (simp add: get_arg_set)

definition last_setting :: "(string \<times> string) list \<Rightarrow> string \<Rightarrow> string option" where
  "last_setting kvs name = map_option snd (List.find (\<lambda>(k, v). arg_name k = arg_name name) (rev kvs))"

definition ini_settings :: "(string \<Rightarrow> (string \<times> string) list option) \<Rightarrow> string option \<Rightarrow> (string \<times> string) list" where
  "ini_settings ini f = (case Option.bind f ini of None \<Rightarrow> [] | Some kvs \<Rightarrow> kvs)"

lemma get_arg_set_args_last:
  "get_arg_opt (set_args kvs env) name =
   (case last_setting kvs name of Some v \<Rightarrow> Some v | None \<Rightarrow> get_arg_opt env name)"
  by (simp add: get_arg_set_args last_setting_def split: option.split)

text \<open>
  Precedence: a setting is taken from the command line if it is given there, else from
  the file named by --config, else from .env, else from the environment of the process.
  Within one source the last line for a name counts.
\<close>

theorem init_args_precedence:
  "get_arg_opt (init_args ini cmdline env) name =
   (case last_setting [(k, v). (k, v # _) \<leftarrow> cmdline] name of
      Some v \<Rightarrow> Some v
    | None \<Rightarrow>
        (case last_setting (ini_settings ini
                (case map_of cmdline ''config'' of Some (f # _) \<Rightarrow> Some f | _ \<Rightarrow> None)) name of
           Some v \<Rightarrow> Some v
         | None \<Rightarrow>
             (case last_setting (ini_settings ini (Some ''.env'')) name of
                Some v \<Rightarrow> Some v
              | None \<Rightarrow> get_arg_opt env name)))"
proof -
  have args: "List.map_filter (\<lambda>(k, vs). case vs of [] \<Rightarrow> None | v # _ \<Rightarrow> Some (k, v)) cmdline =
      [(k, v). (k, v # _) \<leftarrow> cmdline]"
    by (induction cmdline) (auto simp: map_filter_simps split: list.splits)
  have sec: "(case ini f of None \<Rightarrow> e | Some kvs \<Rightarrow> set_args kvs e) = set_args (ini_settings ini (Some f)) e" for f e
    by (simp add: set_args_def ini_settings_def split: option.split)
  have none: "ini_settings ini None = []" by (simp add: ini_settings_def)
  have cfg: "(case map_of cmdline ''config'' of
        Some (f # _) \<Rightarrow> set_args (ini_settings ini (Some f)) e | _ \<Rightarrow> e) =
      set_args (ini_settings ini (case map_of cmdline ''config'' of Some (f # _) \<Rightarrow> Some f | _ \<Rightarrow> None)) e" for e
    by (simp add: none set_args_def split: option.split list.split)
  show ?thesis
    unfolding init_args_def Let_def args sec cfg by (simp only: get_arg_set_args_last)
qed

definition accepts_localhost :: "listen_on \<Rightarrow> bool" where
  "accepts_localhost l =
     (case l of ListenAny _ \<Rightarrow> True | ListenAt a \<Rightarrow> is_unspecified (sa_ip a) \<or> sa_ip a = v4_localhost)"

text \<open>
  The console answers on 127.0.0.1: a listener of its own is opened exactly when the
  main one does not already accept connections to that address, and it is never opened on
  any other address.
\<close>

theorem console_on_localhost_only:
  "console_addr bind_addr port =
   (if accepts_localhost (listen_tcp bind_addr port) then None
    else Some (SocketAddr v4_localhost port))"
  by (simp add: console_addr_def listen_tcp_def accepts_localhost_def split: option.split)


end
