(* ===== verification/Rust_Fs.thy ===== *)
theory Rust_Fs
  imports Rust_Str
begin

text \<open>
  The file system as the settings files use it: contents and modification time by path,
  with paths that cannot be written, and the operations of \<^verbatim>\<open>std::fs\<close> on them.
\<close>

record fsys =
  fs_files :: "(string, string \<times> nat) hmap"
  fs_writable :: "string \<Rightarrow> bool"
  fs_clock :: nat

definition read_to_string :: "fsys \<Rightarrow> string \<Rightarrow> string option" where
  "read_to_string fs path = map_option fst (hget (fs_files fs) path)"

text \<open>Modification time and length, the stamp by which a change of a file is noticed.\<close>

type_synonym stamp = "(nat \<times> nat) option"

definition file_stamp :: "fsys \<Rightarrow> string \<Rightarrow> stamp" where
  "file_stamp fs path = map_option (\<lambda>(c, m). (m, length c)) (hget (fs_files fs) path)"

definition fs_write :: "string \<Rightarrow> string \<Rightarrow> fsys \<Rightarrow> bool \<times> fsys" where
  "fs_write path text fs =
     (if fs_writable fs path then (True, fs\<lparr>fs_files := hput path (text, fs_clock fs) (fs_files fs)\<rparr>)
      else (False, fs))"

datatype removal = Removed | RemoveNotFound | RemoveFailed

definition remove_file :: "string \<Rightarrow> fsys \<Rightarrow> removal \<times> fsys" where
  "remove_file path fs =
     (case hget (fs_files fs) path of
        None \<Rightarrow> (RemoveNotFound, fs)
      | Some _ \<Rightarrow>
          if fs_writable fs path then (Removed, fs\<lparr>fs_files := hdel path (fs_files fs)\<rparr>)
          else (RemoveFailed, fs))"

lemma read_after_write:
  "fs_write path text fs = (True, fs') \<Longrightarrow>
   read_to_string fs' p = (if p = path then Some text else read_to_string fs p)"
  by (auto simp: fs_write_def read_to_string_def split: if_splits)

lemma read_after_remove:
  "remove_file path fs = (r, fs') \<Longrightarrow> r \<noteq> RemoveFailed \<Longrightarrow>
   read_to_string fs' p = (if p = path then None else read_to_string fs p)"
  by (auto simp: remove_file_def read_to_string_def split: if_splits option.splits)

lemma file_stamp_Some: "file_stamp fs path = Some s \<Longrightarrow> \<exists>text. read_to_string fs path = Some text"
  by (auto simp: file_stamp_def read_to_string_def)

lemma file_stamp_read: "file_stamp fs path = None \<longleftrightarrow> read_to_string fs path = None"
  by (simp add: file_stamp_def read_to_string_def)

end
