(* ===== verification/Relay_Select.thy ===== *)
theory Relay_Select
  imports Relay_Geo Config Rust_Fs
begin

text \<open>
  The choice of a relay for a session, \<^verbatim>\<open>src/src/relay_select.rs\<close>: the healthy relays, held choices,
  the preferred relay, the routing table and the locations with the files they are reloaded
  from, and the console commands. Every field of the selector is shared between its clones,
  so one state is enough; an operation is atomic except that a choice is split into its
  lookup and its commitment, between which another choice may run.
\<close>

section \<open>State\<close>

type_synonym pin_key = "ipaddr \<times> ipaddr"

record relay_pin =
  rp_relay :: string
  rp_until :: instant

datatype load_error = StampMissing string | RouteProblem route_error | LocProblem loc_error | DbProblem string

record 'n route_state =
  rs_path :: "string option"
  rs_table :: "'n route_table option"
  rs_seen :: "stamp option"
  rs_error :: "load_error option"

record geo_state =
  gs_db_path :: "string option"
  gs_db :: "geo_db option"
  gs_db_seen :: "stamp option"
  gs_db_error :: "load_error option"
  gs_loc_path :: "string option"
  gs_locations :: "locations option"
  gs_loc_seen :: "stamp option"
  gs_loc_error :: "load_error option"

record preferred_relay =
  pr_relay :: "string option"
  pr_path :: string

datatype reason =
    NoRelayConfigured | OnlyRelay | Preferred | PinnedChoice
  | FromRoutes | FromGeo | FromRoutesAndGeo | RoundRobin

record relay_pick =
  pick_relay :: string
  pick_reason :: reason
  pick_costs :: "(string \<times> f64) list"

text \<open>The selector with the two process-wide counters, the rotation and the time a choice
  is held.\<close>

record 'n selector =
  s_live :: "string list"
  s_routes :: "'n route_state"
  s_pins :: "(pin_key, relay_pin) hmap"
  s_preferred :: preferred_relay
  s_geo :: geo_state
  s_rotation :: u64
  s_pin_ttl_ms :: u64

text \<open>The surroundings: the default relay port, the network type, the arguments, and the
  opening of a database (\<^verbatim>\<open>GeoDb::open\<close>).\<close>

record 'n sel_env =
  se_relay_port :: int
  se_net :: "'n net_ops"
  se_args :: environ
  se_open_db :: "fsys \<Rightarrow> string \<Rightarrow> geo_db option"

definition RELAY_PIN_TTL_DEFAULT_SEC :: nat where
  "RELAY_PIN_TTL_DEFAULT_SEC = 30"

definition MAX_RELAY_PINS :: nat where
  "MAX_RELAY_PINS = 4096"

definition selector_default :: "'n selector" where
  "selector_default =
     \<lparr>s_live = [],
      s_routes = \<lparr>rs_path = None, rs_table = None, rs_seen = None, rs_error = None\<rparr>,
      s_pins = [],
      s_preferred = \<lparr>pr_relay = None, pr_path = []\<rparr>,
      s_geo = \<lparr>gs_db_path = None, gs_db = None, gs_db_seen = None, gs_db_error = None,
               gs_loc_path = None, gs_locations = None, gs_loc_seen = None, gs_loc_error = None\<rparr>,
      s_rotation = 0,
      s_pin_ttl_ms = of_nat (RELAY_PIN_TTL_DEFAULT_SEC * 1000)\<rparr>"

section \<open>Choosing\<close>

definition set_live :: "string list \<Rightarrow> 'n selector \<Rightarrow> 'n selector" where
  "set_live relays st = st\<lparr>s_live := relays\<rparr>"

definition locate :: "'n selector \<Rightarrow> ipaddr \<Rightarrow> point option" where
  "locate st ip =
     (case gs_locations (s_geo st) of
        None \<Rightarrow> None
      | Some _ \<Rightarrow> Option.bind (gs_db (s_geo st)) (\<lambda>db. geo_locate db ip))"

definition side_costs :: "'n sel_env \<Rightarrow> 'n selector \<Rightarrow> ipaddr \<Rightarrow> (cost_map \<times> reason) option" where
  "side_costs env st ip =
     (case Option.bind (rs_table (s_routes st)) (\<lambda>t. costs_for (se_net env) t ip) of
        Some costs \<Rightarrow> Some (costs, FromRoutes)
      | None \<Rightarrow>
          (case locate st ip of
             None \<Rightarrow> None
           | Some p \<Rightarrow> map_option (\<lambda>l. (costs_from l p, FromGeo)) (gs_locations (s_geo st))))"

definition pinned_relay ::
  "instant \<Rightarrow> pin_key \<Rightarrow> string list \<Rightarrow> 'n selector \<Rightarrow> string option \<times> 'n selector" where
  "pinned_relay now key live st =
     (case hget (s_pins st) key of
        Some p \<Rightarrow>
          if now < rp_until p \<and> rp_relay p \<in> set live then (Some (rp_relay p), st)
          else (None, st\<lparr>s_pins := hdel key (s_pins st)\<rparr>)
      | None \<Rightarrow> (None, st))"

definition make_room :: "instant \<Rightarrow> (pin_key, relay_pin) hmap \<Rightarrow> (pin_key, relay_pin) hmap" where
  "make_room now pins =
     (if MAX_RELAY_PINS \<le> hlen pins then
        (let kept = hretain (\<lambda>_ p. now < rp_until p) pins
         in if MAX_RELAY_PINS \<le> hlen kept then [] else kept)
      else pins)"

definition pin_relay :: "instant \<Rightarrow> pin_key \<Rightarrow> string \<Rightarrow> 'n selector \<Rightarrow> 'n selector" where
  "pin_relay now key relay st =
     (if s_pin_ttl_ms st = 0 then st
      else st\<lparr>s_pins := hput key \<lparr>rp_relay = relay, rp_until = after_millis now (unat (s_pin_ttl_ms st))\<rparr>
                 (make_room now (s_pins st))\<rparr>)"

definition pin_key_of :: "ipaddr \<Rightarrow> ipaddr \<Rightarrow> pin_key" where
  "pin_key_of pa pb =
     (let a = to_canonical pa; b = to_canonical pb in if a \<le> b then (a, b) else (b, a))"

definition find_live :: "int \<Rightarrow> string list \<Rightarrow> string \<Rightarrow> string option" where
  "find_live relay_port live want =
     List.find (\<lambda>r. normalize relay_port r = normalize relay_port want) live"

text \<open>The first half of \<^verbatim>\<open>pick\<close>, everything that is settled before a relay has to be chosen
  afresh: too few relays to choose from, the preferred relay, and a held choice.\<close>

definition standing_choice :: "'n sel_env \<Rightarrow> 'n selector \<Rightarrow> relay_pick option" where
  "standing_choice env st =
     (case s_live st of
        [] \<Rightarrow> Some \<lparr>pick_relay = [], pick_reason = NoRelayConfigured, pick_costs = []\<rparr>
      | [r] \<Rightarrow> Some \<lparr>pick_relay = r, pick_reason = OnlyRelay, pick_costs = []\<rparr>
      | _ \<Rightarrow>
          (case Option.bind (pr_relay (s_preferred st)) (find_live (se_relay_port env) (s_live st)) of
             Some relay \<Rightarrow> Some \<lparr>pick_relay = relay, pick_reason = Preferred, pick_costs = []\<rparr>
           | None \<Rightarrow> None))"

definition pick_settled ::
  "'n sel_env \<Rightarrow> instant \<Rightarrow> ipaddr \<Rightarrow> ipaddr \<Rightarrow> bool \<Rightarrow> 'n selector \<Rightarrow> relay_pick option \<times> 'n selector" where
  "pick_settled env now pa pb commit st =
     (case standing_choice env st of
        Some p \<Rightarrow> (Some p, st)
      | None \<Rightarrow>
          if commit then
            (case pinned_relay now (pin_key_of pa pb) (s_live st) st of
               (Some relay, st') \<Rightarrow>
                 (Some \<lparr>pick_relay = relay, pick_reason = PinnedChoice, pick_costs = []\<rparr>, st')
             | (None, st') \<Rightarrow> (None, st'))
          else (None, st))"

definition sources_reason :: "reason list \<Rightarrow> reason" where
  "sources_reason sources =
     (if \<forall>s \<in> set sources. s = FromRoutes then FromRoutes
      else if \<forall>s \<in> set sources. s = FromGeo then FromGeo
      else FromRoutesAndGeo)"

text \<open>The second half: the policy, and holding what it decided; \<open>live\<close> is the list as it was
  when the call began.\<close>

definition decide ::
  "'n sel_env \<Rightarrow> string list \<Rightarrow> ipaddr \<Rightarrow> ipaddr \<Rightarrow> bool \<Rightarrow> 'n selector \<Rightarrow> relay_pick \<times> 'n selector" where
  "decide env live pa pb commit st =
     (let known = List.map_filter (side_costs env st) [pa, pb]
      in case choose_from (se_relay_port env) live (map fst known) of
           Some c \<Rightarrow>
             (\<lparr>pick_relay = ch_relay c, pick_reason = sources_reason (map snd known),
               pick_costs = ch_costs c\<rparr>, st)
         | None \<Rightarrow>
             (\<lparr>pick_relay = live ! (unat (s_rotation st) mod length live), pick_reason = RoundRobin,
               pick_costs = []\<rparr>,
              if commit then st\<lparr>s_rotation := s_rotation st + 1\<rparr> else st))"

definition pick_fresh ::
  "'n sel_env \<Rightarrow> instant \<Rightarrow> string list \<Rightarrow> ipaddr \<Rightarrow> ipaddr \<Rightarrow> bool \<Rightarrow> 'n selector
   \<Rightarrow> relay_pick \<times> 'n selector" where
  "pick_fresh env now live pa pb commit st =
     (let (p, st1) = decide env live pa pb commit st
      in (p, if commit then pin_relay now (pin_key_of pa pb) (pick_relay p) st1 else st1))"

definition pick ::
  "'n sel_env \<Rightarrow> instant \<Rightarrow> ipaddr \<Rightarrow> ipaddr \<Rightarrow> bool \<Rightarrow> 'n selector \<Rightarrow> relay_pick \<times> 'n selector" where
  "pick env now pa pb commit st =
     (case pick_settled env now pa pb commit st of
        (Some p, st') \<Rightarrow> (p, st')
      | (None, st') \<Rightarrow> pick_fresh env now (s_live st) pa pb commit st')"

section \<open>The preferred relay\<close>

definition first_line :: "string \<Rightarrow> string option" where
  "first_line text = List.find (\<lambda>l. l \<noteq> []) (map trim (str_lines text))"

definition load_preferred_relay :: "'n sel_env \<Rightarrow> fsys \<Rightarrow> 'n selector \<Rightarrow> 'n selector" where
  "load_preferred_relay env fs st =
     (let path = get_arg_or (se_args env) ''relay-preferred-file'' ''relay_preferred''
      in st\<lparr>s_preferred := \<lparr>pr_relay = Option.bind (read_to_string fs path) first_line, pr_path = path\<rparr>\<rparr>)"

datatype use_relay_answer =
    NoneChosen
  | Chosen string bool
  | AutoAgain "string option"
  | NotAnswering string "string list"
  | NowUses string "string option"

definition clear_pins :: "'n selector \<Rightarrow> 'n selector" where
  "clear_pins st = st\<lparr>s_pins := []\<rparr>"

definition use_relay_command ::
  "'n sel_env \<Rightarrow> string option \<Rightarrow> fsys \<Rightarrow> 'n selector \<Rightarrow> use_relay_answer \<times> fsys \<times> 'n selector" where
  "use_relay_command env arg fs st =
     (let live = s_live st; pref = s_preferred st
      in case arg of
           None \<Rightarrow>
             (case pr_relay pref of
                None \<Rightarrow> (NoneChosen, fs, clear_pins st)
              | Some r \<Rightarrow> (Chosen r (find_live (se_relay_port env) live r \<noteq> None), fs, clear_pins st))
         | Some want \<Rightarrow>
             if want = ''auto'' then
               (let (removed, fs') = remove_file (pr_path pref) fs
                in (AutoAgain (if removed = RemoveFailed then Some (pr_path pref) else None), fs',
                    clear_pins (st\<lparr>s_preferred := pref\<lparr>pr_relay := None\<rparr>\<rparr>)))
             else
               (case find_live (se_relay_port env) live want of
                  None \<Rightarrow> (NotAnswering want live, fs, clear_pins st)
                | Some relay \<Rightarrow>
                    (let (saved, fs') = fs_write (pr_path pref) (relay @ [newline]) fs
                     in (NowUses relay (if saved then None else Some (pr_path pref)), fs',
                         clear_pins (st\<lparr>s_preferred := pref\<lparr>pr_relay := Some relay\<rparr>\<rparr>)))))"

section \<open>Files\<close>

definition reload_relay_routes :: "'n sel_env \<Rightarrow> fsys \<Rightarrow> 'n selector \<Rightarrow> 'n selector" where
  "reload_relay_routes env fs st =
     (let rs = s_routes st
      in case rs_path rs of
           None \<Rightarrow> st
         | Some path \<Rightarrow>
             (let seen_now = file_stamp fs path
              in if rs_seen rs = Some seen_now then st
                 else
                   (let loaded =
                          (case seen_now of
                             Some _ \<Rightarrow>
                               (case route_table_load (se_relay_port env) (se_net env) (read_to_string fs) path of
                                  Inl e \<Rightarrow> Inl (RouteProblem e)
                                | Inr t \<Rightarrow> Inr t)
                           | None \<Rightarrow> Inl (StampMissing path))
                    in case loaded of
                         Inr table \<Rightarrow>
                           clear_pins (st\<lparr>s_routes := rs\<lparr>rs_seen := Some seen_now, rs_table := Some table,
                                                             rs_error := None\<rparr>\<rparr>)
                       | Inl err \<Rightarrow>
                           st\<lparr>s_routes := rs\<lparr>rs_seen := Some seen_now, rs_error := Some err\<rparr>\<rparr>)))"

text \<open>One of the two files of \<^verbatim>\<open>reload_relay_geo\<close>: nothing when no path is set or the file looks
  as it did, otherwise what reading it gave.\<close>

definition reload_file ::
  "fsys \<Rightarrow> string option \<Rightarrow> stamp option \<Rightarrow> (string \<Rightarrow> load_error + 'v) \<Rightarrow> (load_error + 'v) option" where
  "reload_file fs path seen load =
     (case path of
        None \<Rightarrow> None
      | Some p \<Rightarrow>
          (let seen_now = file_stamp fs p
           in if seen = Some seen_now then None
              else Some (case seen_now of Some _ \<Rightarrow> load p | None \<Rightarrow> Inl (StampMissing p))))"

definition load_db :: "'n sel_env \<Rightarrow> fsys \<Rightarrow> string \<Rightarrow> load_error + geo_db" where
  "load_db env fs path = (case se_open_db env fs path of Some db \<Rightarrow> Inr db | None \<Rightarrow> Inl (DbProblem path))"

definition load_locations :: "'n sel_env \<Rightarrow> fsys \<Rightarrow> string \<Rightarrow> load_error + locations" where
  "load_locations env fs path =
     (case locations_load (se_relay_port env) (read_to_string fs) path of
        Inl e \<Rightarrow> Inl (LocProblem e)
      | Inr l \<Rightarrow> Inr l)"

definition reload_relay_geo :: "'n sel_env \<Rightarrow> fsys \<Rightarrow> 'n selector \<Rightarrow> 'n selector" where
  "reload_relay_geo env fs st =
     (let g = s_geo st;
          db_loaded = reload_file fs (gs_db_path g) (gs_db_seen g) (load_db env fs);
          loc_loaded = reload_file fs (gs_loc_path g) (gs_loc_seen g) (load_locations env fs);
          g1 = (case db_loaded of
                  None \<Rightarrow> g
                | Some (Inr db) \<Rightarrow> g\<lparr>gs_db_seen := map_option (file_stamp fs) (gs_db_path g),
                                      gs_db := Some db, gs_db_error := None\<rparr>
                | Some (Inl err) \<Rightarrow> g\<lparr>gs_db_seen := map_option (file_stamp fs) (gs_db_path g),
                                       gs_db_error := Some err\<rparr>);
          g2 = (case loc_loaded of
                  None \<Rightarrow> g1
                | Some (Inr l) \<Rightarrow> g1\<lparr>gs_loc_seen := map_option (file_stamp fs) (gs_loc_path g),
                                      gs_locations := Some l, gs_loc_error := None\<rparr>
                | Some (Inl err) \<Rightarrow> g1\<lparr>gs_loc_seen := map_option (file_stamp fs) (gs_loc_path g),
                                        gs_loc_error := Some err\<rparr>);
          changed = (case db_loaded of Some (Inr _) \<Rightarrow> True | _ \<Rightarrow> False)
                    \<or> (case loc_loaded of Some (Inr _) \<Rightarrow> True | _ \<Rightarrow> False)
      in if changed then clear_pins (st\<lparr>s_geo := g2\<rparr>) else st\<lparr>s_geo := g2\<rparr>)"

definition reload :: "'n sel_env \<Rightarrow> fsys \<Rightarrow> 'n selector \<Rightarrow> 'n selector" where
  "reload env fs st = reload_relay_geo env fs (reload_relay_routes env fs st)"

definition configure :: "'n sel_env \<Rightarrow> fsys \<Rightarrow> 'n selector \<Rightarrow> 'n selector" where
  "configure env fs st =
     (let arg = get_arg (se_args env);
          pin_ttl = (case parse_u64 (arg ''relay-pin-ttl'') of Some n \<Rightarrow> n | None \<Rightarrow> RELAY_PIN_TTL_DEFAULT_SEC);
          st1 = load_preferred_relay env fs (st\<lparr>s_pin_ttl_ms := of_nat pin_ttl * 1000\<rparr>);
          db = arg ''geo-db''; loc = arg ''relay-locations'';
          g = s_geo st1;
          g1 = (if db \<noteq> [] then g\<lparr>gs_db_path := Some db\<rparr> else g);
          g2 = (if loc \<noteq> [] then g1\<lparr>gs_loc_path := Some loc\<rparr> else g1);
          st2 = reload_relay_geo env fs (st1\<lparr>s_geo := g2\<rparr>);
          routes_path = arg ''relay-routes''
      in if routes_path = [] then st2
         else reload_relay_routes env fs
                (st2\<lparr>s_routes := (s_routes st2)\<lparr>rs_path := Some routes_path\<rparr>\<rparr>))"

section \<open>The console\<close>

datatype geo_status = NotConfigured | Loaded string nat | PreviousKept string nat load_error | NotLoaded string "load_error option"

datatype console_line =
    RelayLine string reason
  | LocatedLine ipaddr point
  | CostLine string f64
  | TestRelayUsage
  | UseRelay use_relay_answer
  | NoRoutingTable
  | RoutesFile string nat "load_error option"
  | NoGeoRouting
  | GeoDatabase geo_status
  | RelayLocations geo_status
  | NoLocationFor "string list"
  | PinTtl nat nat

fun status_of :: "string option \<Rightarrow> ('v \<Rightarrow> nat) \<Rightarrow> 'v option \<Rightarrow> load_error option \<Rightarrow> geo_status" where
  "status_of None n v e = NotConfigured"
| "status_of (Some p) n (Some v) None = Loaded p (n v)"
| "status_of (Some p) n (Some v) (Some e) = PreviousKept p (n v) e"
| "status_of (Some p) n None e = NotLoaded p e"

definition relay_routes_console :: "'n sel_env \<Rightarrow> 'n selector \<Rightarrow> console_line list" where
  "relay_routes_console env st =
     (let rs = s_routes st; g = s_geo st
      in (case rs_path rs of
            None \<Rightarrow> [NoRoutingTable]
          | Some path \<Rightarrow>
              [RoutesFile path (case rs_table rs of None \<Rightarrow> 0 | Some t \<Rightarrow> rule_count t) (rs_error rs)])
         @ (if gs_db_path g = None \<and> gs_loc_path g = None then [NoGeoRouting]
            else [GeoDatabase (status_of (gs_db_path g) (\<lambda>_. 0) (gs_db g) (gs_db_error g)),
                  RelayLocations (status_of (gs_loc_path g) locations_len (gs_locations g) (gs_loc_error g))])
         @ (case gs_locations g of
              None \<Rightarrow> []
            | Some l \<Rightarrow>
                (let missing = filter (\<lambda>r. \<not> knows (se_relay_port env) l r) (s_live st)
                 in if missing = [] then [] else [NoLocationFor missing]))
         @ [PinTtl (unat (s_pin_ttl_ms st) div 1000) (hlen (s_pins st))])"

definition test_relay_console ::
  "'n sel_env \<Rightarrow> instant \<Rightarrow> string list \<Rightarrow> 'n selector \<Rightarrow> console_line list \<times> 'n selector" where
  "test_relay_console env now fds st =
     (case fds of
        [] \<Rightarrow> ([], st)
      | first # rest \<Rightarrow>
          (let second = (case rest of [] \<Rightarrow> first | s # _ \<Rightarrow> s)
           in case (parse_ip first, parse_ip second) of
                (Some a, Some b) \<Rightarrow>
                  (let (p, st') = pick env now a b False st
                   in (RelayLine (pick_relay p) (pick_reason p)
                       # List.map_filter (\<lambda>ip. map_option (LocatedLine ip) (locate st' ip)) [a, b]
                       @ map (\<lambda>(relay, cost). CostLine relay cost) (pick_costs p), st'))
              | _ \<Rightarrow> ([TestRelayUsage], st)))"

definition console ::
  "'n sel_env \<Rightarrow> instant \<Rightarrow> string \<Rightarrow> fsys \<Rightarrow> 'n selector
   \<Rightarrow> console_line list option \<times> fsys \<times> 'n selector" where
  "console env now cmd fs st =
     (let fds = split_char (CHR '' '') (trim cmd); name = hd fds; rest = tl fds
      in if name = ''test-relay'' \<or> name = ''tr'' then
           (let (out, st') = test_relay_console env now rest st in (Some out, fs, st'))
         else if name = ''use-relay'' \<or> name = ''ur'' then
           (let (out, fs', st') = use_relay_command env (case rest of [] \<Rightarrow> None | a # _ \<Rightarrow> Some a) fs st
            in (Some [UseRelay out], fs', st'))
         else if name = ''relay-routes'' \<or> name = ''rr'' then (Some (relay_routes_console env st), fs, st)
         else (None, fs, st))"

section \<open>Invariant\<close>

definition selector_wf :: "'n sel_env \<Rightarrow> 'n selector \<Rightarrow> bool" where
  "selector_wf env st \<longleftrightarrow>
     (\<forall>t. rs_table (s_routes st) = Some t \<longrightarrow> table_wf (se_relay_port env) (se_net env) t) \<and>
     (\<forall>l. gs_locations (s_geo st) = Some l \<longrightarrow> locations_wf (se_relay_port env) l) \<and>
     hwf (s_pins st) \<and> hlen (s_pins st) \<le> MAX_RELAY_PINS"

lemma MAX_RELAY_PINS_pos: "0 < MAX_RELAY_PINS"
  by (simp add: MAX_RELAY_PINS_def)

lemma selector_default_wf [wf_intros]: "selector_wf env selector_default"
  by (simp add: selector_wf_def selector_default_def hlen_def)

lemma make_room_wf: "hwf pins \<Longrightarrow> hwf (make_room now pins)"
  by (simp add: make_room_def Let_def)

lemma make_room_bound: "hlen (make_room now pins) < MAX_RELAY_PINS"
  using MAX_RELAY_PINS_pos by (auto simp: make_room_def Let_def hlen_def)

lemma clear_pins_wf [wf_intros]: "selector_wf env st \<Longrightarrow> selector_wf env (clear_pins st)"
  by (simp add: selector_wf_def clear_pins_def hlen_def)

lemma set_live_wf [wf_intros]: "selector_wf env st \<Longrightarrow> selector_wf env (set_live relays st)"
  by (simp add: selector_wf_def set_live_def)

lemma pin_relay_wf [wf_intros]:
  assumes "selector_wf env st"
  shows "selector_wf env (pin_relay now key relay st)"
proof -
  have "hwf (make_room now (s_pins st))" using assms by (simp add: selector_wf_def make_room_wf)
  then have "hlen (hput key v (make_room now (s_pins st))) \<le> MAX_RELAY_PINS" for v
    using hm.len_put_le make_room_bound by (metis Suc_leI order_trans)
  with assms show ?thesis by (auto simp: selector_wf_def pin_relay_def make_room_wf)
qed

lemma pinned_relay_wf: "selector_wf env st \<Longrightarrow> selector_wf env (snd (pinned_relay now key live st))"
  using hm.len_del_le [of "s_pins st" key]
  by (auto simp: selector_wf_def pinned_relay_def split: option.split)

lemma pick_settled_wf: "selector_wf env st \<Longrightarrow> selector_wf env (snd (pick_settled env now pa pb commit st))"
  using pinned_relay_wf [of env st now "pin_key_of pa pb" "s_live st"]
  by (auto simp: pick_settled_def split: option.split prod.split)

lemma pick_fresh_wf: "selector_wf env st \<Longrightarrow> selector_wf env (snd (pick_fresh env now live pa pb commit st))"
proof -
  assume wf: "selector_wf env st"
  then have "selector_wf env (st\<lparr>s_rotation := s_rotation st + 1\<rparr>)" by (simp add: selector_wf_def)
  with wf show ?thesis
    by (auto simp: pick_fresh_def decide_def Let_def intro: pin_relay_wf split: option.split)
qed

lemma pick_wf [wf_intros]:
  assumes "selector_wf env st"
  shows "selector_wf env (snd (pick env now pa pb commit st))"
  using pick_settled_wf [OF assms, of now pa pb commit] pick_fresh_wf
  by (auto simp: pick_def split: prod.split option.split)

lemma use_relay_wf [wf_intros]:
  "selector_wf env st \<Longrightarrow> selector_wf env (snd (snd (use_relay_command env arg fs st)))"
  by (auto simp: use_relay_command_def Let_def selector_wf_def clear_pins_def hlen_def
      split: option.split prod.split)

lemma route_table_load_wf: "route_table_load rp ops read path = Inr t \<Longrightarrow> table_wf rp ops t"
  by (auto simp: route_table_load_def intro: route_table_parse_wf split: option.splits)

lemma load_locations_wf: "load_locations env fs path = Inr l \<Longrightarrow> locations_wf (se_relay_port env) l"
  by (auto simp: load_locations_def locations_load_def intro: locations_parse_wf
      split: option.splits sum.splits)

lemma reload_routes_wf [wf_intros]:
  "selector_wf env st \<Longrightarrow> selector_wf env (reload_relay_routes env fs st)"
  by (auto simp: reload_relay_routes_def Let_def selector_wf_def clear_pins_def hlen_def
      dest: route_table_load_wf split: option.splits sum.splits)

lemma reload_file_loaded:
  "reload_file fs path seen load = Some (Inr v) \<Longrightarrow> \<exists>p. path = Some p \<and> load p = Inr v"
  by (auto simp: reload_file_def Let_def split: option.splits if_splits)

lemma reload_geo_parts:
  fixes env fs st
  defines "st' \<equiv> reload_relay_geo env fs st"
  shows "s_routes st' = s_routes st" "s_live st' = s_live st" "s_preferred st' = s_preferred st"
    "s_rotation st' = s_rotation st" "s_pin_ttl_ms st' = s_pin_ttl_ms st"
    "s_pins st' = s_pins st \<or> s_pins st' = []"
    "gs_locations (s_geo st') = gs_locations (s_geo st) \<or>
       (\<exists>p l. load_locations env fs p = Inr l \<and> gs_locations (s_geo st') = Some l)"
  unfolding st'_def
  by (auto simp: reload_relay_geo_def Let_def clear_pins_def dest!: reload_file_loaded
      split: option.split sum.split)

lemma reload_geo_wf [wf_intros]:
  assumes "selector_wf env st"
  shows "selector_wf env (reload_relay_geo env fs st)"
  using assms reload_geo_parts(1,6,7) [where env = env and fs = fs and st = st] load_locations_wf
  unfolding selector_wf_def by (metis hwf_Nil hm.len_emp le0 option.inject)

lemma reload_wf [wf_intros]: "selector_wf env st \<Longrightarrow> selector_wf env (reload env fs st)"
  by (simp add: reload_def reload_geo_wf reload_routes_wf)

lemma selector_wf_update:
  "selector_wf env (st\<lparr>s_pin_ttl_ms := x\<rparr>) = selector_wf env st"
  "selector_wf env (st\<lparr>s_preferred := p\<rparr>) = selector_wf env st"
  "gs_locations g = gs_locations (s_geo st) \<Longrightarrow> selector_wf env (st\<lparr>s_geo := g\<rparr>) = selector_wf env st"
  "rs_table r = rs_table (s_routes st) \<Longrightarrow> selector_wf env (st\<lparr>s_routes := r\<rparr>) = selector_wf env st"
  by (simp_all add: selector_wf_def)

lemma configure_wf [wf_intros]: "selector_wf env st \<Longrightarrow> selector_wf env (configure env fs st)"
  unfolding configure_def Let_def load_preferred_relay_def
  by (simp add: selector_wf_update reload_routes_wf reload_geo_wf)

section \<open>What a choice is\<close>

lemma side_costs_ok:
  assumes "selector_wf env st" "side_costs env st ip = Some (m, src)"
  shows "side_ok m"
  using assms
  by (auto simp: side_costs_def locate_def selector_wf_def locations_wf_def
      intro: costs_for_ok costs_from_side_ok split: option.splits Option.bind_splits)

text \<open>The table and the locations together are a source of costs as each of them is.\<close>

interpretation sel: cost_source "\<lambda>(env, st) ip. map_option fst (side_costs env st ip)"
    "\<lambda>(env, st). selector_wf env st"
  by unfold_locales
     (auto simp: side_costs_def costs_for_def route_lookup_def locate_def geo_locate_def
       intro: side_costs_ok cong: option.case_cong)

lemma map_filter_fst: "map fst (List.map_filter f xs) = List.map_filter (\<lambda>x. map_option fst (f x)) xs"
  by (induction xs) (auto simp: map_filter_simps split: option.split)

lemma pick_fresh_live:
  assumes "selector_wf env st" "live \<noteq> []"
  shows "pick_relay (fst (pick_fresh env now live pa pb commit st)) \<in> set live"
proof -
  have ok: "\<forall>s \<in> set (map fst (List.map_filter (side_costs env st) [pa, pb])). side_ok s"
    unfolding map_filter_fst using sel.sides_ok [of "(env, st)" _ "[pa, pb]"] assms(1) by auto
  show ?thesis
    using choose_from_member [OF _ ok] assms(2)
    by (auto simp: pick_fresh_def decide_def Let_def split: option.split)
qed

lemma find_live_Some: "find_live rp live want = Some r \<Longrightarrow> r \<in> set live \<and> normalize rp r = normalize rp want"
  unfolding find_live_def by (rule find_SomeD)

lemma pick_settled_live:
  assumes "pick_settled env now pa pb commit st = (Some p, st')" "s_live st \<noteq> []"
  shows "pick_relay p \<in> set (s_live st)"
  using assms
  by (auto simp: pick_settled_def standing_choice_def pinned_relay_def split: list.splits option.splits if_splits
      Option.bind_splits dest: find_live_Some)

lemma pick_live:
  assumes "selector_wf env st" "s_live st \<noteq> []"
  shows "pick_relay (fst (pick env now pa pb commit st)) \<in> set (s_live st)"
  using assms pick_settled_live [of env now pa pb commit st] pick_settled_wf [of env st now pa pb commit]
  by (auto simp: pick_def intro: pick_fresh_live split: prod.split option.split)

lemma pick_none: "s_live st = [] \<Longrightarrow> pick env now pa pb commit st =
    (\<lparr>pick_relay = [], pick_reason = NoRelayConfigured, pick_costs = []\<rparr>, st)"
  by (simp add: pick_def pick_settled_def standing_choice_def)

lemma pick_dry: "snd (pick env now pa pb False st) = st"
  by (auto simp: pick_def pick_settled_def pick_fresh_def decide_def Let_def
      split: option.split prod.split)

lemma pick_dry_state: "pick env now pa pb False st = (p, st') \<Longrightarrow> st' = st"
  using pick_dry [of env now pa pb st] by simp

text \<open>A choice changes at most the held choices and the rotation.\<close>

lemma pinned_relay_updates: "\<exists>pins. snd (pinned_relay now key live st) = st\<lparr>s_pins := pins\<rparr>"
  by (cases "hget (s_pins st) key") (auto simp: pinned_relay_def intro: exI [of _ "s_pins st"])

lemma pick_settled_updates: "\<exists>pins. snd (pick_settled env now pa pb commit st) = st\<lparr>s_pins := pins\<rparr>"
proof -
  have "snd (pick_settled env now pa pb commit st) = st \<or>
      snd (pick_settled env now pa pb commit st) = snd (pinned_relay now (pin_key_of pa pb) (s_live st) st)"
    by (simp add: pick_settled_def split: option.split prod.split)
  moreover have "st = st\<lparr>s_pins := s_pins st\<rparr>" by simp
  ultimately show ?thesis using pinned_relay_updates by metis
qed

lemma decide_updates: "\<exists>rot. snd (decide env live pa pb commit st) = st\<lparr>s_rotation := rot\<rparr>"
proof -
  have keep: "\<exists>rot. st = st\<lparr>s_rotation := rot\<rparr>" by (rule exI [of _ "s_rotation st"]) simp
  show ?thesis by (simp add: decide_def Let_def keep split: option.split) blast
qed

lemma pin_relay_updates: "\<exists>pins. pin_relay now key r st = st\<lparr>s_pins := pins\<rparr>"
  by (cases "s_pin_ttl_ms st = 0") (auto simp: pin_relay_def intro: exI [of _ "s_pins st"])

lemma pick_fresh_updates:
  "\<exists>pins rot. snd (pick_fresh env now live pa pb commit st) = st\<lparr>s_pins := pins, s_rotation := rot\<rparr>"
proof -
  obtain p st1 where d: "decide env live pa pb commit st = (p, st1)" by fastforce
  with decide_updates [of env live pa pb commit st] obtain rot where st1: "st1 = st\<lparr>s_rotation := rot\<rparr>" by auto
  obtain pins where "pin_relay now (pin_key_of pa pb) (pick_relay p) st1 = st1\<lparr>s_pins := pins\<rparr>"
    using pin_relay_updates by blast
  with d st1 have "snd (pick_fresh env now live pa pb commit st) =
      st\<lparr>s_pins := (if commit then pins else s_pins st), s_rotation := rot\<rparr>"
    by (simp add: pick_fresh_def)
  then show ?thesis by blast
qed

lemma pick_updates: "\<exists>pins rot. snd (pick env now pa pb commit st) = st\<lparr>s_pins := pins, s_rotation := rot\<rparr>"
proof -
  obtain o1 st1 where s: "pick_settled env now pa pb commit st = (o1, st1)" by fastforce
  with pick_settled_updates [of env now pa pb commit st] obtain pins where st1: "st1 = st\<lparr>s_pins := pins\<rparr>"
    by auto
  show ?thesis
  proof (cases o1)
    case None
    with s pick_fresh_updates [of env now "s_live st" pa pb commit st1] st1 show ?thesis
      by (auto simp: pick_def)
  next
    case (Some p)
    with s st1 have "snd (pick env now pa pb commit st) = st\<lparr>s_pins := pins, s_rotation := s_rotation st\<rparr>"
      by (simp add: pick_def)
    then show ?thesis by blast
  qed
qed

lemma pick_frame:
  fixes env now pa pb commit st
  defines "st' \<equiv> snd (pick env now pa pb commit st)"
  shows "s_live st' = s_live st" "s_preferred st' = s_preferred st" "s_pin_ttl_ms st' = s_pin_ttl_ms st"
    "s_routes st' = s_routes st" "s_geo st' = s_geo st"
  using pick_updates [of env now pa pb commit st] by (auto simp: st'_def)

lemma pin_key_swap: "pin_key_of pa pb = pin_key_of pb pa"
  by (auto simp: pin_key_of_def Let_def)

lemma pin_key_canonical [simp]: "pin_key_of (to_canonical pa) (to_canonical pb) = pin_key_of pa pb"
  by (simp add: pin_key_of_def)

section \<open>Held choices\<close>

fun pick_run :: "'n sel_env \<Rightarrow> (instant \<times> ipaddr \<times> ipaddr) list \<Rightarrow> 'n selector \<Rightarrow> 'n selector" where
  "pick_run env [] st = st"
| "pick_run env ((t, a, b) # ps) st = pick_run env ps (snd (pick env t a b True st))"

text \<open>A choice that is held, and stays so at a time.\<close>

definition holds_at :: "instant \<Rightarrow> pin_key \<Rightarrow> string \<Rightarrow> 'n selector \<Rightarrow> bool" where
  "holds_at limit key relay st \<longleftrightarrow>
     (\<exists>p. hget (s_pins st) key = Some p \<and> limit \<le> rp_until p \<and> rp_relay p = relay)
     \<and> relay \<in> set (s_live st) \<and> hwf (s_pins st)"

lemma pick_standing: "standing_choice env st = Some p \<Longrightarrow> pick env t a b commit st = (p, st)"
  by (simp add: pick_def pick_settled_def)

lemma pick_held:
  assumes "holds_at limit (pin_key_of a b) relay st" "t < limit" "standing_choice env st = None"
  shows "pick env t a b True st = (\<lparr>pick_relay = relay, pick_reason = PinnedChoice, pick_costs = []\<rparr>, st)"
  using assms by (auto simp: pick_def pick_settled_def pinned_relay_def holds_at_def)

lemma pick_not_held:
  assumes "standing_choice env st = None" "hget (s_pins st) (pin_key_of a b) = None"
  shows "pick env t a b commit st = pick_fresh env t (s_live st) a b commit st"
  using assms by (simp add: pick_def pick_settled_def pinned_relay_def)

lemma pick_fresh_pins:
  assumes "pick_fresh env t live a b True st = (p, st')"
  shows "s_pins st' = (if s_pin_ttl_ms st = 0 then s_pins st
    else hput (pin_key_of a b) \<lparr>rp_relay = pick_relay p, rp_until = after_millis t (unat (s_pin_ttl_ms st))\<rparr>
           (make_room t (s_pins st)))"
proof -
  obtain st1 where d: "decide env live a b True st = (p, st1)"
    and st': "st' = pin_relay t (pin_key_of a b) (pick_relay p) st1"
    using assms by (auto simp: pick_fresh_def split: prod.splits)
  with decide_updates [of env live a b True st] obtain rot where "st1 = st\<lparr>s_rotation := rot\<rparr>" by auto
  with st' show ?thesis by (simp add: pin_relay_def)
qed

lemma make_room_len: "hlen (make_room now pins) \<le> hlen pins"
  by (auto simp: make_room_def Let_def hlen_retain_le hlen_def [of "[]"])

definition valid_pin :: "instant \<Rightarrow> pin_key \<Rightarrow> 'n selector \<Rightarrow> bool" where
  "valid_pin t key st \<longleftrightarrow>
     (\<exists>p. hget (s_pins st) key = Some p \<and> t < rp_until p \<and> rp_relay p \<in> set (s_live st))"

lemma hdel_absent: "hget m k = None \<Longrightarrow> hdel k m = m"
  by (simp add: hget_def hdel_def delete_id map_of_eq_None_iff)

lemma pick_valid_pin: "standing_choice env st = None \<Longrightarrow> valid_pin t (pin_key_of a b) st \<Longrightarrow>
    snd (pick env t a b True st) = st"
  by (auto simp: valid_pin_def pick_def pick_settled_def pinned_relay_def)

lemma pick_unheld:
  assumes "standing_choice env st = None" "\<not> valid_pin t (pin_key_of a b) st"
  shows "pick env t a b True st =
    pick_fresh env t (s_live st) a b True (st\<lparr>s_pins := hdel (pin_key_of a b) (s_pins st)\<rparr>)"
  using assms
  by (cases "hget (s_pins st) (pin_key_of a b)")
     (auto simp: valid_pin_def pick_def pick_settled_def pinned_relay_def hdel_absent)

text \<open>How the held choices change in a committed choice.\<close>

lemma pick_pins:
  "s_pins (snd (pick env t a b True st)) =
   (if standing_choice env st \<noteq> None \<or> valid_pin t (pin_key_of a b) st then s_pins st
    else if s_pin_ttl_ms st = 0 then hdel (pin_key_of a b) (s_pins st)
    else hput (pin_key_of a b)
      \<lparr>rp_relay = pick_relay (fst (pick env t a b True st)),
       rp_until = after_millis t (unat (s_pin_ttl_ms st))\<rparr>
      (make_room t (hdel (pin_key_of a b) (s_pins st))))"
proof (cases "standing_choice env st = None \<and> \<not> valid_pin t (pin_key_of a b) st")
  case True
  then show ?thesis
    using pick_fresh_pins [OF prod.collapse [symmetric], of env t "s_live st" a b
        "st\<lparr>s_pins := hdel (pin_key_of a b) (s_pins st)\<rparr>"]
    by (simp add: pick_unheld)
next
  case False
  then show ?thesis
    by (cases "standing_choice env st") (auto simp: pick_standing pick_valid_pin)
qed

lemma pick_keeps_held:
  assumes "holds_at limit key relay st" "t < limit" "hlen (s_pins st) < MAX_RELAY_PINS"
  shows "holds_at limit key relay (snd (pick env t a b True st)) \<and>
    hlen (s_pins (snd (pick env t a b True st))) \<le> Suc (hlen (s_pins st))"
proof -
  let ?k = "pin_key_of a b" and ?st' = "snd (pick env t a b True st)"
  have wf: "hwf (s_pins st)" using assms(1) by (simp add: holds_at_def)
  have del: "hlen (hdel ?k (s_pins st)) \<le> hlen (s_pins st)" using wf by (rule hm.len_del_le)
  then have room: "make_room t (hdel ?k (s_pins st)) = hdel ?k (s_pins st)"
    using assms(3) by (simp add: make_room_def)
  have "hlen (hput ?k v (hdel ?k (s_pins st))) \<le> Suc (hlen (s_pins st))" for v
    using hm.len_put_le [OF hwf_del [OF wf], of ?k v ?k] del by (meson Suc_le_mono order_trans)
  moreover have "?k \<noteq> key" if "\<not> valid_pin t ?k st"
    using that assms(1,2) by (auto simp: valid_pin_def holds_at_def)
  ultimately show ?thesis
    using assms(1) del by (auto simp: holds_at_def pick_pins pick_frame room)
qed

lemma pick_run_keeps_held:
  assumes "holds_at limit key relay st" "\<forall>(t, a, b) \<in> set picks. t < limit"
    and "hlen (s_pins st) + length picks \<le> MAX_RELAY_PINS"
  shows "holds_at limit key relay (pick_run env picks st)"
  using assms
proof (induction env picks st rule: pick_run.induct)
  case (2 env t a b ps st)
  then have "holds_at limit key relay (snd (pick env t a b True st)) \<and>
    hlen (s_pins (snd (pick env t a b True st))) \<le> Suc (hlen (s_pins st))"
    by (intro pick_keeps_held) auto
  with "2" show ?case by simp
qed simp

lemma standing_choice_frame:
  "s_live st' = s_live st \<Longrightarrow> s_preferred st' = s_preferred st \<Longrightarrow> standing_choice env st' = standing_choice env st"
  by (simp add: standing_choice_def split: list.split)

lemma pick_run_frame:
  "s_live (pick_run env picks st) = s_live st \<and> s_preferred (pick_run env picks st) = s_preferred st"
  by (induction env picks st rule: pick_run.induct) (auto simp: pick_frame)

lemma pick_run_standing: "standing_choice env (pick_run env picks st) = standing_choice env st"
  using pick_run_frame [of env picks st] by (blast intro: standing_choice_frame)

lemma pick_standing_none:
  "standing_choice env (snd (pick env t a b c st)) = standing_choice env st"
  by (rule standing_choice_frame) (simp_all add: pick_frame)

text \<open>A fresh choice is held from then on.\<close>

lemma pick_starts_holding:
  assumes "selector_wf env st" "pick env t a b True st = (p, st')" "standing_choice env st = None"
    and "pick_reason p \<noteq> PinnedChoice" "s_pin_ttl_ms st \<noteq> 0"
  shows "holds_at (after_millis t (unat (s_pin_ttl_ms st))) (pin_key_of a b) (pick_relay p) st'"
    and "hlen (s_pins st') \<le> Suc (hlen (s_pins st))"
proof -
  let ?k = "pin_key_of a b"
  have fresh: "\<not> valid_pin t ?k st"
    using assms(2-4) by (auto simp: valid_pin_def pick_def pick_settled_def pinned_relay_def)
  have wf: "hwf (s_pins st)" using assms(1) by (simp add: selector_wf_def)
  have "s_live st \<noteq> []" using assms(3) by (auto simp: standing_choice_def)
  then have live: "pick_relay p \<in> set (s_live st')"
    using pick_live [OF assms(1), of t a b True] pick_frame(1) [of env t a b True st] assms(2) by simp
  have st': "s_pins st' = hput ?k \<lparr>rp_relay = pick_relay p, rp_until = after_millis t (unat (s_pin_ttl_ms st))\<rparr>
      (make_room t (hdel ?k (s_pins st)))"
    using pick_pins [of env t a b st] fresh assms(2,3,5) by simp
  with live wf show "holds_at (after_millis t (unat (s_pin_ttl_ms st))) ?k (pick_relay p) st'"
    by (simp add: holds_at_def make_room_wf)
  have "hlen (make_room t (hdel ?k (s_pins st))) \<le> hlen (s_pins st)"
    using make_room_len hm.len_del_le [OF wf] order_trans by blast
  then show "hlen (s_pins st') \<le> Suc (hlen (s_pins st))"
    using hm.len_put_le [OF make_room_wf [OF hwf_del [OF wf]], of ?k] unfolding st'
    by (meson Suc_le_mono order_trans)
qed

section \<open>Reloading\<close>

lemma reload_routes_frame:
  "s_geo (reload_relay_routes env fs st) = s_geo st"
  "s_live (reload_relay_routes env fs st) = s_live st"
  "s_preferred (reload_relay_routes env fs st) = s_preferred st"
  by (auto simp: reload_relay_routes_def Let_def clear_pins_def split: option.split sum.split)

lemma reload_routes_result:
  "s_routes (reload_relay_routes env fs st) =
   (case rs_path (s_routes st) of
      None \<Rightarrow> s_routes st
    | Some path \<Rightarrow>
        if rs_seen (s_routes st) = Some (file_stamp fs path) then s_routes st
        else (case route_table_load (se_relay_port env) (se_net env) (read_to_string fs) path of
                Inr t \<Rightarrow> (s_routes st)\<lparr>rs_seen := Some (file_stamp fs path), rs_table := Some t, rs_error := None\<rparr>
              | Inl e \<Rightarrow> (s_routes st)\<lparr>rs_seen := Some (file_stamp fs path),
                  rs_error := Some (if read_to_string fs path = None then StampMissing path else RouteProblem e)\<rparr>))"
  by (auto simp: reload_relay_routes_def Let_def clear_pins_def route_table_load_def file_stamp_read
      dest: file_stamp_Some split: option.split sum.split)

lemma reload_routes_pins:
  "s_pins (reload_relay_routes env fs st) =
   (case rs_path (s_routes st) of
      None \<Rightarrow> s_pins st
    | Some path \<Rightarrow>
        if rs_seen (s_routes st) \<noteq> Some (file_stamp fs path)
           \<and> (\<exists>t. route_table_load (se_relay_port env) (se_net env) (read_to_string fs) path = Inr t)
        then [] else s_pins st)"
  by (auto simp: reload_relay_routes_def Let_def clear_pins_def route_table_load_def file_stamp_read
      split: option.split sum.split)

lemma reload_file_seen: "reload_file fs path (map_option (file_stamp fs) path) load = None"
  by (simp add: reload_file_def split: option.split)

lemma reload_file_unseen: "reload_file fs path seen load = None \<Longrightarrow> path = None \<or> seen = map_option (file_stamp fs) path"
  by (auto simp: reload_file_def Let_def split: option.splits if_splits)

lemma reload_geo_seen:
  fixes env fs st
  defines "g \<equiv> s_geo st" and "g' \<equiv> s_geo (reload_relay_geo env fs st)"
  shows "gs_db_path g' = gs_db_path g" "gs_loc_path g' = gs_loc_path g"
    "reload_file fs (gs_db_path g') (gs_db_seen g') load = None"
    "reload_file fs (gs_loc_path g') (gs_loc_seen g') load' = None"
proof -
  have paths: "gs_db_path g' = gs_db_path g \<and> gs_loc_path g' = gs_loc_path g"
    by (auto simp: g_def g'_def reload_relay_geo_def Let_def clear_pins_def split: option.split sum.split)
  have "gs_db_seen g' = (if reload_file fs (gs_db_path g) (gs_db_seen g) (load_db env fs) = None
      then gs_db_seen g else map_option (file_stamp fs) (gs_db_path g))"
    by (auto simp: g_def g'_def reload_relay_geo_def Let_def clear_pins_def split: option.split sum.split)
  moreover have "gs_loc_seen g' = (if reload_file fs (gs_loc_path g) (gs_loc_seen g) (load_locations env fs) = None
      then gs_loc_seen g else map_option (file_stamp fs) (gs_loc_path g))"
    by (auto simp: g_def g'_def reload_relay_geo_def Let_def clear_pins_def split: option.split sum.split)
  ultimately show "gs_db_path g' = gs_db_path g" "gs_loc_path g' = gs_loc_path g"
    "reload_file fs (gs_db_path g') (gs_db_seen g') load = None"
    "reload_file fs (gs_loc_path g') (gs_loc_seen g') load' = None"
    using paths by (auto simp: reload_file_seen reload_file_def [of _ None] dest: reload_file_unseen
        split: if_splits)
qed

lemma reload_geo_noop:
  assumes "reload_file fs (gs_db_path (s_geo st)) (gs_db_seen (s_geo st)) (load_db env fs) = None"
    and "reload_file fs (gs_loc_path (s_geo st)) (gs_loc_seen (s_geo st)) (load_locations env fs) = None"
  shows "reload_relay_geo env fs st = st"
  using assms by (simp add: reload_relay_geo_def)

lemma reload_geo_again: "reload_relay_geo env fs (reload_relay_geo env fs st) = reload_relay_geo env fs st"
  by (rule reload_geo_noop) (rule reload_geo_seen)+

lemma reload_routes_noop:
  "rs_path (s_routes st) = None \<or> rs_seen (s_routes st) = map_option (file_stamp fs) (rs_path (s_routes st)) \<Longrightarrow>
   reload_relay_routes env fs st = st"
  by (cases "rs_path (s_routes st)") (auto simp: reload_relay_routes_def)

lemma reload_routes_seen:
  fixes env fs st
  defines "rs \<equiv> s_routes (reload_relay_routes env fs st)"
  shows "rs_path rs = None \<or> rs_seen rs = map_option (file_stamp fs) (rs_path rs)"
  unfolding rs_def reload_routes_result by (simp split: option.split sum.split)

lemma reload_again: "reload env fs (reload env fs st) = reload env fs st"
proof -
  have "reload_relay_routes env fs (reload env fs st) = reload env fs st"
    using reload_routes_seen [where env = env and fs = fs and st = st]
    by (intro reload_routes_noop) (simp add: reload_def reload_geo_parts(1))
  then show ?thesis unfolding reload_def by (simp add: reload_geo_again)
qed

section \<open>Runs of the server\<close>

text \<open>What the server does to the selector: configure it, replace the list of healthy relays,
  choose, reload, and answer the console.\<close>

inductive sel_step :: "'n sel_env \<Rightarrow> 'n selector \<Rightarrow> 'n selector \<Rightarrow> bool" for env where
  step_configure: "sel_step env st (configure env fs st)"
| step_set_live: "sel_step env st (set_live relays st)"
| step_pick: "sel_step env st (snd (pick env now pa pb commit st))"
| step_reload: "sel_step env st (reload env fs st)"
| step_console: "sel_step env st (snd (snd (console env now cmd fs st)))"

definition sel_reachable :: "'n sel_env \<Rightarrow> 'n selector \<Rightarrow> bool" where
  "sel_reachable env st \<longleftrightarrow> (sel_step env)\<^sup>*\<^sup>* selector_default st"

inductive_cases sel_stepE: "sel_step env st st'"

lemma console_cases:
  "snd (snd (console env now cmd fs st)) = st \<or>
   (\<exists>arg. snd (snd (console env now cmd fs st)) = snd (snd (use_relay_command env arg fs st)))"
proof -
  have "snd (test_relay_console env now fds st) = st" for fds
    by (auto simp: test_relay_console_def Let_def dest: pick_dry_state split: list.split option.split prod.split)
  then show ?thesis by (auto simp: console_def Let_def case_prod_beta)
qed

lemma sel_step_wf: "sel_step env st st' \<Longrightarrow> selector_wf env st \<Longrightarrow> selector_wf env st'"
proof (induction rule: sel_step.induct)
  case (step_console st now cmd fs)
  then show ?case using console_cases [of env now cmd fs st] use_relay_wf [of env st _ fs] by metis
qed (simp_all add: configure_wf set_live_wf pick_wf reload_wf)

interpretation selector: invariant_system "sel_step env" "\<lambda>st. st = selector_default" "selector_wf env" for env
  by unfold_locales (auto intro: selector_default_wf sel_step_wf)

lemma sel_reachable_wf: "sel_reachable env st \<Longrightarrow> selector_wf env st"
  unfolding sel_reachable_def by (rule selector.reachable_inv [OF refl])

lemma first_line_of_line:
  assumes "trim r = r" "r \<noteq> []" "newline \<notin> set r"
  shows "first_line (r @ [newline]) = Some r"
proof -
  have "split_on (\<lambda>c. c = newline) (r @ [newline]) = [r, []]"
    using assms(3) split_on_append_sep [of r "\<lambda>c. c = newline" newline "[]"] by force
  moreover have "strip_cr r = r"
    using trim_hd_last [of r] assms(1,2) by (auto simp: strip_cr_def is_ws_def)
  ultimately show ?thesis using assms(1,2) by (simp add: first_line_def str_lines_def)
qed

lemma relay_ok_line: "relay_entry_problem r = None \<Longrightarrow> newline \<notin> set r"
  by (auto simp: relay_entry_problem_def is_ws_def newline_def split: if_splits)

section \<open>Properties\<close>

text \<open>
  C19. Every choice is a healthy relay: whatever the server did before, the relay handed out
  is one of the list of answering relays, and none only when that list is empty. The held
  choices never exceed their bound, and the table and the locations in force are well formed.
\<close>

theorem pick_always_healthy:
  assumes "sel_reachable env st"
  shows "(if s_live st = [] then pick_relay (fst (pick env now pa pb commit st)) = []
     else pick_relay (fst (pick env now pa pb commit st)) \<in> set (s_live st)) \<and>
    hlen (s_pins st) \<le> MAX_RELAY_PINS \<and>
    (case rs_table (s_routes st) of None \<Rightarrow> True | Some t \<Rightarrow> table_wf (se_relay_port env) (se_net env) t) \<and>
    (case gs_locations (s_geo st) of None \<Rightarrow> True | Some l \<Rightarrow> locations_wf (se_relay_port env) l)"
  using sel_reachable_wf [OF assms] pick_live [of env st now pa pb commit] pick_none [of st env now pa pb commit]
  by (auto simp: selector_wf_def split: option.split)

definition example_sel_env :: "(ipaddr \<times> nat) sel_env" where
  "example_sel_env = \<lparr>se_relay_port = 21117, se_net = cidr_ops, se_args = [], se_open_db = (\<lambda>_ _. None)\<rparr>"

definition example_selector :: "(ipaddr \<times> nat) selector" where
  "example_selector = set_live [''a:1'', ''b:1''] selector_default"

lemma example_selector_reachable: "sel_reachable example_sel_env example_selector"
  unfolding sel_reachable_def example_selector_def by (intro r_into_rtranclp step_set_live)

lemmas selector_eval = pick_def pick_settled_def standing_choice_def pinned_relay_def pick_fresh_def decide_def
  side_costs_def locate_def choose_from_def map_filter_def pin_relay_def make_room_def pin_key_of_def
  example_selector_def example_sel_env_def set_live_def selector_default_def v4_of_def
  hget_def hput_def hlen_def MAX_RELAY_PINS_def RELAY_PIN_TTL_DEFAULT_SEC_def after_millis_def

theorem pick_always_healthy_witness:
  "pick_relay (fst (pick example_sel_env 0 (v4_of 5 5 5 5) (v4_of 6 6 6 6) True example_selector)) \<in> {''a:1'', ''b:1''}"
  using pick_always_healthy [OF example_selector_reachable, of 0 "v4_of 5 5 5 5" "v4_of 6 6 6 6" True]
  by (simp add: example_selector_def set_live_def)

text \<open>
  C20. The two ends of a session meet: once a relay was chosen for a pair of addresses, every
  later question about the pair within the holding time gets the same relay, whichever end
  asks and however its address is written, after any sequence of other choices that fits the
  bound on held choices.
\<close>

theorem held_choice_consistent:
  assumes "sel_reachable env st" "s_pin_ttl_ms st \<noteq> 0"
    and "pick env t0 a b True st = (p, st1)" "pick_reason p \<noteq> PinnedChoice"
    and "\<forall>(u, x, y) \<in> set picks. u < after_millis t0 (unat (s_pin_ttl_ms st))"
    and "hlen (s_pins st) + length picks < MAX_RELAY_PINS"
    and "t < after_millis t0 (unat (s_pin_ttl_ms st))"
    and "to_canonical a' = to_canonical a \<and> to_canonical b' = to_canonical b \<or>
      to_canonical a' = to_canonical b \<and> to_canonical b' = to_canonical a"
  shows "pick_relay (fst (pick env t a' b' True (pick_run env picks st1))) = pick_relay p"
proof (cases "standing_choice env st")
  case (Some q)
  with assms(3) show ?thesis
    by (simp add: pick_standing pick_run_standing)
next
  case None
  have key: "pin_key_of a' b' = pin_key_of a b"
    using assms(8) pin_key_canonical pin_key_swap by metis
  note held = pick_starts_holding [OF sel_reachable_wf [OF assms(1)] assms(3) None assms(4,2)]
  have "standing_choice env (pick_run env picks st1) = None"
    using None pick_standing_none [of env t0 a b True st] assms(3) by (simp add: pick_run_standing)
  moreover have "holds_at (after_millis t0 (unat (s_pin_ttl_ms st))) (pin_key_of a' b') (pick_relay p)
      (pick_run env picks st1)"
    unfolding key using held assms(5,6) by (intro pick_run_keeps_held) auto
  ultimately show ?thesis using pick_held assms(7) by fastforce
qed

lemma example_pick:
  "pick example_sel_env 0 (v4_of 5 5 5 5) (v4_of 6 6 6 6) True example_selector =
   (\<lparr>pick_relay = ''a:1'', pick_reason = RoundRobin, pick_costs = []\<rparr>,
    example_selector\<lparr>s_rotation := 1,
      s_pins := [((v4_of 5 5 5 5, v4_of 6 6 6 6), \<lparr>rp_relay = ''a:1'', rp_until = 30000000000\<rparr>)]\<rparr>)"
  by (simp add: selector_eval)

theorem held_choice_consistent_witness:
  "pick_relay (fst (pick example_sel_env 29999999999 (v4_of 6 6 6 6) (v4_of 5 5 5 5) True
     (pick_run example_sel_env [(5, v4_of 3 3 3 3, v4_of 6 6 6 6)]
       (example_selector\<lparr>s_rotation := 1,
         s_pins := [((v4_of 5 5 5 5, v4_of 6 6 6 6), \<lparr>rp_relay = ''a:1'', rp_until = 30000000000\<rparr>)]\<rparr>)))) = ''a:1''"
  using held_choice_consistent [OF example_selector_reachable _ example_pick, of "[(5, v4_of 3 3 3 3, v4_of 6 6 6 6)]"
      29999999999 "v4_of 6 6 6 6" "v4_of 5 5 5 5"]
  by (simp add: example_selector_def set_live_def selector_default_def RELAY_PIN_TTL_DEFAULT_SEC_def
      after_millis_def MAX_RELAY_PINS_def hlen_def)

text \<open>
  The dry run holds, rotates and changes nothing, and shows what a session would get:
  the same relay, for the same reason and at the same costs, as the committed choice makes
  when no choice is held for the pair.
\<close>

theorem dry_run_faithful:
  "snd (pick env now pa pb False st) = st \<and>
   (hget (s_pins st) (pin_key_of pa pb) = None \<longrightarrow>
     fst (pick env now pa pb False st) = fst (pick env now pa pb True st))"
proof -
  have "fst (pick_fresh env now live pa pb False st) = fst (pick_fresh env now live pa pb True st)" for live
    by (simp add: pick_fresh_def decide_def Let_def split: option.split prod.split)
  then show ?thesis
    by (cases "standing_choice env st") (simp_all add: pick_dry pick_standing pick_not_held)
qed

theorem dry_run_faithful_witness:
  "fst (pick example_sel_env 0 (v4_of 5 5 5 5) (v4_of 6 6 6 6) False example_selector) =
   \<lparr>pick_relay = ''a:1'', pick_reason = RoundRobin, pick_costs = []\<rparr>"
proof -
  have "hget (s_pins example_selector) k = None" for k
    by (simp add: example_selector_def set_live_def selector_default_def)
  then show ?thesis
    using dry_run_faithful [of example_sel_env 0 "v4_of 5 5 5 5" "v4_of 6 6 6 6" example_selector]
    by (simp add: example_pick)
qed

text \<open>
  C23. A file that cannot be read or parsed never takes routing away: after a reload the
  table in force is the one just read if the file changed and is good, and otherwise the
  previous one; the same holds of the relay locations; and reloading again without a change
  of the files changes nothing.
\<close>

theorem reload_keeps_previous:
  "rs_table (s_routes (reload env fs st)) =
     (case rs_path (s_routes st) of
        None \<Rightarrow> rs_table (s_routes st)
      | Some path \<Rightarrow>
          if rs_seen (s_routes st) = Some (file_stamp fs path) then rs_table (s_routes st)
          else (case route_table_load (se_relay_port env) (se_net env) (read_to_string fs) path of
                  Inr t \<Rightarrow> Some t | Inl _ \<Rightarrow> rs_table (s_routes st))) \<and>
   gs_locations (s_geo (reload env fs st)) =
     (case gs_loc_path (s_geo st) of
        None \<Rightarrow> gs_locations (s_geo st)
      | Some path \<Rightarrow>
          if gs_loc_seen (s_geo st) = Some (file_stamp fs path) then gs_locations (s_geo st)
          else (case locations_load (se_relay_port env) (read_to_string fs) path of
                  Inr l \<Rightarrow> Some l | Inl _ \<Rightarrow> gs_locations (s_geo st))) \<and>
   reload env fs (reload env fs st) = reload env fs st"
proof -
  have routes: "s_routes (reload env fs st) = s_routes (reload_relay_routes env fs st)"
    by (simp add: reload_def reload_geo_parts(1))
  have locs: "gs_locations (s_geo (reload_relay_geo env fs s)) =
     (case gs_loc_path (s_geo s) of
        None \<Rightarrow> gs_locations (s_geo s)
      | Some path \<Rightarrow>
          if gs_loc_seen (s_geo s) = Some (file_stamp fs path) then gs_locations (s_geo s)
          else (case locations_load (se_relay_port env) (read_to_string fs) path of
                  Inr l \<Rightarrow> Some l | Inl _ \<Rightarrow> gs_locations (s_geo s)))" for s
    by (auto simp: reload_relay_geo_def reload_file_def load_locations_def locations_load_def Let_def
        clear_pins_def file_stamp_read dest: file_stamp_Some split: option.split sum.split)
  show ?thesis
    unfolding routes reload_routes_result reload_again
    by (simp add: reload_def locs reload_routes_frame split: option.split sum.split)
qed

text \<open>
  The operator's choice survives a restart: a relay set with use-relay is one of the
  answering relays, names what was asked for, is used for every new session while it answers,
  and is what a new process reads back when it was saved; after use-relay auto a new process
  reads no choice.
\<close>

theorem use_relay_survives_restart:
  assumes "relay_list_ok (se_relay_port env) (s_live st)"
    and "pr_path (s_preferred st) = get_arg_or (se_args env) ''relay-preferred-file'' ''relay_preferred''"
  shows "(use_relay_command env (Some want) fs st = (NowUses relay None, fs', st') \<longrightarrow>
      relay \<in> set (s_live st) \<and> normalize (se_relay_port env) relay = normalize (se_relay_port env) want \<and>
      pick_relay (fst (pick env now pa pb True st')) = relay \<and>
      pr_relay (s_preferred (load_preferred_relay env fs' selector_default)) = Some relay) \<and>
    (use_relay_command env (Some ''auto'') fs st = (AutoAgain None, fs', st') \<longrightarrow>
      pr_relay (s_preferred st') = None \<and>
      pr_relay (s_preferred (load_preferred_relay env fs' selector_default)) = None)"
proof (intro conjI impI)
  assume use: "use_relay_command env (Some want) fs st = (NowUses relay None, fs', st')"
  then have found: "find_live (se_relay_port env) (s_live st) want = Some relay"
    and saved: "fs_write (pr_path (s_preferred st)) (relay @ [newline]) fs = (True, fs')"
    and st': "s_live st' = s_live st" "pr_relay (s_preferred st') = Some relay"
    by (auto simp: use_relay_command_def clear_pins_def Let_def split: option.splits if_splits prod.splits)
  note live = find_live_Some [OF found]
  then show "relay \<in> set (s_live st)" "normalize (se_relay_port env) relay = normalize (se_relay_port env) want"
    by auto
  have again: "find_live (se_relay_port env) (s_live st) relay = Some relay"
    using found live by (simp add: find_live_def)
  then show "pick_relay (fst (pick env now pa pb True st')) = relay"
    using live st' by (auto simp: pick_def pick_settled_def standing_choice_def split: list.split)
  have "first_line (relay @ [newline]) = Some relay"
    using assms(1) live by (intro first_line_of_line relay_ok_line) (auto simp: relay_list_ok_def)
  then show "pr_relay (s_preferred (load_preferred_relay env fs' selector_default)) = Some relay"
    using read_after_write [OF saved] assms(2) by (simp add: load_preferred_relay_def)
next
  assume use: "use_relay_command env (Some ''auto'') fs st = (AutoAgain None, fs', st')"
  then obtain r where "remove_file (pr_path (s_preferred st)) fs = (r, fs')" "r \<noteq> RemoveFailed"
    and st': "pr_relay (s_preferred st') = None"
    by (auto simp: use_relay_command_def clear_pins_def Let_def split: if_splits prod.splits)
  from read_after_remove [OF this(1,2)] assms(2)
  show "pr_relay (s_preferred (load_preferred_relay env fs' selector_default)) = None"
    by (simp add: load_preferred_relay_def)
  show "pr_relay (s_preferred st') = None" by (rule st')
qed


definition example_fs :: fsys where
  "example_fs = \<lparr>fs_files = [], fs_writable = (\<lambda>_. True), fs_clock = 1\<rparr>"

definition example_started :: "(ipaddr \<times> nat) selector" where
  "example_started = load_preferred_relay example_sel_env example_fs example_selector"

lemma example_relay_list_ok: "relay_list_ok 21117 [''a:1'', ''b:1'']"
  by (simp add: relay_list_ok_def relay_entry_problem_def normalize_def text_eval)

lemma example_started_path:
  "pr_path (s_preferred example_started) =
   get_arg_or (se_args example_sel_env) ''relay-preferred-file'' ''relay_preferred''"
  by (simp add: example_started_def load_preferred_relay_def Let_def)

lemma example_use_relay:
  "use_relay_command example_sel_env (Some ''B:1'') example_fs example_started =
   (NowUses ''b:1'' None, example_fs\<lparr>fs_files := [(''relay_preferred'', (''b:1'' @ [newline], 1))]\<rparr>,
    example_started\<lparr>s_preferred := \<lparr>pr_relay = Some ''b:1'', pr_path = ''relay_preferred''\<rparr>\<rparr>)"
  by (simp add: use_relay_command_def example_started_def load_preferred_relay_def example_selector_def
      example_sel_env_def example_fs_def selector_default_def set_live_def find_live_def clear_pins_def
      normalize_def fs_write_def read_to_string_def hput_def get_arg_or_def text_eval)

theorem use_relay_survives_restart_witness:
  "pr_relay (s_preferred (load_preferred_relay example_sel_env
     (example_fs\<lparr>fs_files := [(''relay_preferred'', (''b:1'' @ [newline], 1))]\<rparr>) selector_default)) = Some ''b:1''"
proof -
  have "relay_list_ok (se_relay_port example_sel_env) (s_live example_started)"
    using example_relay_list_ok
    by (simp add: example_sel_env_def example_started_def load_preferred_relay_def
        Let_def example_selector_def set_live_def)
  from use_relay_survives_restart [OF this example_started_path] example_use_relay show ?thesis by blast
qed

text \<open>
  Asking which relay is preferred, or naming one that is not answering, reports that
  nothing changed, yet drops every held choice: a session between two requests of one attempt
  may then be given another relay.
\<close>

theorem use_relay_query_drops_pins:
  assumes "arg = None \<or> (\<exists>want. arg = Some want \<and> want \<noteq> ''auto'' \<and> find_live (se_relay_port env) (s_live st) want = None)"
  shows "snd (snd (use_relay_command env arg fs st)) = st\<lparr>s_pins := []\<rparr>"
  using assms by (auto simp: use_relay_command_def clear_pins_def Let_def split: option.split)

theorem use_relay_query_drops_pins_witness:
  "s_pins (snd (snd (use_relay_command example_sel_env None example_fs
     (example_selector\<lparr>s_pins := [((v4_of 5 5 5 5, v4_of 6 6 6 6), \<lparr>rp_relay = ''a:1'', rp_until = 30\<rparr>)]\<rparr>)))) = []"
  using use_relay_query_drops_pins [of None example_sel_env
      "example_selector\<lparr>s_pins := [((v4_of 5 5 5 5, v4_of 6 6 6 6), \<lparr>rp_relay = ''a:1'', rp_until = 30\<rparr>)]\<rparr>" example_fs]
  by simp

text \<open>
  A choice is not one atomic step: between its lookup of a held choice and the moment it
  holds its own, a second request of the same attempt can also find none, and the two are then
  given different relays.
\<close>

theorem concurrent_picks_can_diverge:
  "sel_reachable example_sel_env example_selector \<and>
   pick_settled example_sel_env 0 (v4_of 5 5 5 5) (v4_of 6 6 6 6) True example_selector = (None, example_selector) \<and>
   pick_settled example_sel_env 0 (v4_of 6 6 6 6) (v4_of 5 5 5 5) True example_selector = (None, example_selector) \<and>
   (case pick_fresh example_sel_env 0 [''a:1'', ''b:1''] (v4_of 5 5 5 5) (v4_of 6 6 6 6) True example_selector of
      (p1, st1) \<Rightarrow>
        pick_relay p1 = ''a:1'' \<and>
        pick_relay (fst (pick_fresh example_sel_env 0 [''a:1'', ''b:1''] (v4_of 6 6 6 6) (v4_of 5 5 5 5) True st1)) = ''b:1'')"
  using example_selector_reachable by (simp add: selector_eval)

end
