(* ===== verification/Peer_Store.thy ===== *)
theory Peer_Store
  imports Config
begin

text \<open>
  The peers: the table of \<^verbatim>\<open>src/src/database.rs\<close> and the map in memory of \<^verbatim>\<open>src/src/peer.rs\<close> that is
  filled from it. SQLite keeps the constraints of the schema (a primary key on the guid, a
  unique index on the id); whether a connection is available is an input of every operation,
  as is a new guid. The JSON form of the stored address (\<^verbatim>\<open>serde_json\<close>) is a parameter. A peer
  is shared behind a lock; here an operation reads and writes it by its id, which \<^verbatim>\<open>Peer_Refs\<close> justifies.
\<close>

section \<open>The table\<close>

record db_row =
  row_guid :: bytes
  row_id :: string
  row_uuid :: bytes
  row_pk :: bytes
  row_info :: string

type_synonym database = "db_row list"

definition db_get_peer :: "bool \<Rightarrow> database \<Rightarrow> string \<Rightarrow> unit + db_row option" where
  "db_get_peer up db pid = (if up then Inr (List.find (\<lambda>r. row_id r = pid) db) else Inl ())"

definition db_insert_peer ::
  "bool \<Rightarrow> bytes \<Rightarrow> string \<Rightarrow> bytes \<Rightarrow> bytes \<Rightarrow> string \<Rightarrow> database \<Rightarrow> (unit + bytes) \<times> database" where
  "db_insert_peer up new_guid pid uuid pk info db =
     (if \<not> up \<or> (\<exists>r \<in> set db. row_guid r = new_guid \<or> row_id r = pid) then (Inl (), db)
      else (Inr new_guid,
            db @ [\<lparr>row_guid = new_guid, row_id = pid, row_uuid = uuid, row_pk = pk, row_info = info\<rparr>]))"

definition db_update_pk ::
  "bool \<Rightarrow> bytes \<Rightarrow> string \<Rightarrow> bytes \<Rightarrow> string \<Rightarrow> database \<Rightarrow> (unit + unit) \<times> database" where
  "db_update_pk up guid pid pk info db =
     (if \<not> up \<or> (\<exists>r \<in> set db. row_guid r = guid) \<and> (\<exists>r \<in> set db. row_id r = pid \<and> row_guid r \<noteq> guid)
      then (Inl (), db)
      else (Inr (),
            map (\<lambda>r. if row_guid r = guid then r\<lparr>row_id := pid, row_pk := pk, row_info := info\<rparr> else r) db))"

section \<open>Peers in memory\<close>

definition IP_CHANGE_DUR :: nat where
  "IP_CHANGE_DUR = 180"

definition IP_CHANGE_DUR_X2 :: nat where
  "IP_CHANGE_DUR_X2 = IP_CHANGE_DUR * 2"

definition DAY_SECONDS :: nat where
  "DAY_SECONDS = 3600 * 24"

definition IP_BLOCK_DUR :: nat where
  "IP_BLOCK_DUR = 60"

definition MAX_PEER_ID_LEN :: nat where
  "MAX_PEER_ID_LEN = 253"

record peer =
  socket_addr :: sockaddr
  last_reg_time :: instant
  guid :: bytes
  uuid :: bytes
  pk :: bytes
  info_ip :: string
  reg_pk :: "nat \<times> instant"

definition peer_default :: "instant \<Rightarrow> peer" where
  "peer_default now =
     \<lparr>socket_addr = SocketAddr (v4_of 0 0 0 0) 0, last_reg_time = get_expired_time now,
      guid = [], uuid = [], pk = [], info_ip = [], reg_pk = (0, get_expired_time now)\<rparr>"

record peer_map =
  pm_map :: "(string, peer) hmap"
  pm_db :: database

record serde =
  sd_print :: "string \<Rightarrow> string"
  sd_parse :: "string \<Rightarrow> string option"

text \<open>\<^verbatim>\<open>PeerMap::new\<close>: where the table is (the build for Windows apart).\<close>

definition db_url :: "environ \<Rightarrow> string" where
  "db_url env = (case get_arg_opt env ''DB_URL'' of Some u \<Rightarrow> u | None \<Rightarrow> ''./'' @ ''db_v2.sqlite3'')"

definition peer_of_row :: "serde \<Rightarrow> instant \<Rightarrow> db_row \<Rightarrow> peer" where
  "peer_of_row sd now r =
     (peer_default now)\<lparr>guid := row_guid r, uuid := row_uuid r, pk := row_pk r,
        info_ip := (case sd_parse sd (row_info r) of Some ip \<Rightarrow> ip | None \<Rightarrow> [])\<rparr>"

definition pm_get :: "serde \<Rightarrow> instant \<Rightarrow> bool \<Rightarrow> string \<Rightarrow> peer_map \<Rightarrow> peer option \<times> peer_map" where
  "pm_get sd now up pid pm =
     (case hget (pm_map pm) pid of
        Some p \<Rightarrow> (Some p, pm)
      | None \<Rightarrow>
          (case db_get_peer up (pm_db pm) pid of
             Inr (Some r) \<Rightarrow>
               (let p = peer_of_row sd now r in (Some p, pm\<lparr>pm_map := hput pid p (pm_map pm)\<rparr>))
           | _ \<Rightarrow> (None, pm)))"

definition pm_get_or :: "serde \<Rightarrow> instant \<Rightarrow> bool \<Rightarrow> string \<Rightarrow> peer_map \<Rightarrow> peer \<times> peer_map" where
  "pm_get_or sd now up pid pm =
     (case pm_get sd now up pid pm of
        (Some p, pm') \<Rightarrow> (p, pm')
      | (None, pm') \<Rightarrow>
          (case hget (pm_map pm') pid of
             Some p \<Rightarrow> (p, pm')
           | None \<Rightarrow> (peer_default now, pm'\<lparr>pm_map := hput pid (peer_default now) (pm_map pm')\<rparr>)))"

definition get_in_memory :: "peer_map \<Rightarrow> string \<Rightarrow> peer option" where
  "get_in_memory pm pid = hget (pm_map pm) pid"

definition is_in_memory :: "peer_map \<Rightarrow> string \<Rightarrow> bool" where
  "is_in_memory pm pid \<longleftrightarrow> hget (pm_map pm) pid \<noteq> None"

text \<open>Writing a peer through its lock.\<close>

definition pm_write :: "string \<Rightarrow> peer \<Rightarrow> peer_map \<Rightarrow> peer_map" where
  "pm_write pid p pm = pm\<lparr>pm_map := hput pid p (pm_map pm)\<rparr>"

datatype reg_result = OK | SERVER_ERROR | UUID_MISMATCH | TOO_FREQUENT

definition pm_update_pk ::
  "serde \<Rightarrow> instant \<Rightarrow> bool \<Rightarrow> bytes \<Rightarrow> string \<Rightarrow> peer \<Rightarrow> sockaddr \<Rightarrow> bytes \<Rightarrow> bytes \<Rightarrow> string \<Rightarrow> peer_map
   \<Rightarrow> reg_result \<times> peer_map" where
  "pm_update_pk sd now up new_guid pid p addr new_uuid new_pk ip pm =
     (let w = p\<lparr>socket_addr := addr, uuid := new_uuid, pk := new_pk, last_reg_time := now, info_ip := ip\<rparr>;
          pm1 = pm_write pid w pm;
          info_str = sd_print sd ip
      in if guid w = [] then
           (case db_insert_peer up new_guid pid new_uuid new_pk info_str (pm_db pm1) of
              (Inl _, _) \<Rightarrow> (SERVER_ERROR, pm1)
            | (Inr g, db) \<Rightarrow> (OK, pm_write pid (w\<lparr>guid := g\<rparr>) (pm1\<lparr>pm_db := db\<rparr>)))
         else
           (case db_update_pk up (guid w) pid new_pk info_str (pm_db pm1) of
              (Inl _, _) \<Rightarrow> (SERVER_ERROR, pm1)
            | (Inr _, db) \<Rightarrow> (OK, pm1\<lparr>pm_db := db\<rparr>)))"

section \<open>Invariant\<close>

definition db_wf :: "database \<Rightarrow> bool" where
  "db_wf db \<longleftrightarrow> distinct (map row_guid db) \<and> distinct (map row_id db)"

text \<open>
  Every peer in memory that has a guid is the row of that guid, under the same id and bound
  to the same uuid, and no row is without a guid or a uuid.
\<close>

definition pm_wf :: "peer_map \<Rightarrow> bool" where
  "pm_wf pm \<longleftrightarrow>
     hwf (pm_map pm) \<and> db_wf (pm_db pm) \<and> [] \<notin> set (map row_guid (pm_db pm)) \<and>
     [] \<notin> set (map row_uuid (pm_db pm)) \<and>
     (\<forall>pid p. hget (pm_map pm) pid = Some p \<longrightarrow> guid p \<noteq> [] \<longrightarrow>
        (\<exists>r \<in> set (pm_db pm). row_guid r = guid p \<and> row_id r = pid \<and> row_uuid r = uuid p))"

lemma db_find_row: "db_wf db \<Longrightarrow> r \<in> set db \<Longrightarrow> List.find (\<lambda>x. row_id x = row_id r) db = Some r"
  unfolding db_wf_def by (induction db) auto

lemma db_row_unique: "db_wf db \<Longrightarrow> r \<in> set db \<Longrightarrow> s \<in> set db \<Longrightarrow> row_id r = row_id s \<or> row_guid r = row_guid s \<Longrightarrow> r = s"
  unfolding db_wf_def distinct_map by (auto dest: inj_onD)

lemma db_insert_wf:
  "db_wf db \<Longrightarrow> db_wf (snd (db_insert_peer up g pid u k i db))"
  by (auto simp: db_insert_peer_def db_wf_def)

lemma db_update_guids: "map row_guid (snd (db_update_pk up g pid k i db)) = map row_guid db"
  by (simp add: db_update_pk_def comp_def if_distrib cong: if_cong)

lemma db_update_wf:
  assumes "db_wf db"
  shows "db_wf (snd (db_update_pk up g pid k i db))"
proof (cases "fst (db_update_pk up g pid k i db) = Inr ()")
  case True
  then have ok: "\<not> ((\<exists>r \<in> set db. row_guid r = g) \<and> (\<exists>r \<in> set db. row_id r = pid \<and> row_guid r \<noteq> g))"
    and db': "snd (db_update_pk up g pid k i db) =
      map (\<lambda>r. if row_guid r = g then r\<lparr>row_id := pid, row_pk := k, row_info := i\<rparr> else r) db"
    by (auto simp: db_update_pk_def split: if_splits)
  have inj: "inj_on row_guid (set db)" "inj_on row_id (set db)" "distinct db"
    using assms by (auto simp: db_wf_def distinct_map)
  have "inj_on (\<lambda>r. if row_guid r = g then pid else row_id r) (set db)"
    using ok inj by (auto simp: inj_on_def)
  then have "distinct (map row_id (snd (db_update_pk up g pid k i db)))"
    using inj(3) by (simp add: db' comp_def distinct_map if_distrib cong: if_cong)
  then show ?thesis
    using assms db_update_guids [of up g pid k i db] by (simp add: db_wf_def)
qed (use assms in \<open>auto simp: db_update_pk_def split: if_splits\<close>)

lemma pm_get_wf [wf_intros]:
  assumes "pm_wf pm"
  shows "pm_wf (snd (pm_get sd now up pid pm))"
  using assms
  by (auto simp: pm_get_def pm_wf_def db_get_peer_def peer_of_row_def Let_def
      split: option.split dest!: find_SomeD)

lemma pm_get_or_wf [wf_intros]:
  assumes "pm_wf pm"
  shows "pm_wf (snd (pm_get_or sd now up pid pm))"
proof -
  have "pm_wf (pm'\<lparr>pm_map := hput pid (peer_default now) (pm_map pm')\<rparr>)" if "pm_wf pm'" for pm'
    using that by (simp add: pm_wf_def peer_default_def)
  with pm_get_wf [OF assms, of sd now up pid] show ?thesis
    by (auto simp: pm_get_or_def split: option.split prod.split)
qed

lemma pm_get_or_present: "hget (pm_map (snd (pm_get_or sd now up pid pm))) pid = Some (fst (pm_get_or sd now up pid pm))"
  by (auto simp: pm_get_or_def pm_get_def Let_def split: option.split sum.split prod.split)

lemma pm_get_or_db: "pm_db (snd (pm_get_or sd now up pid pm)) = pm_db pm"
  by (auto simp: pm_get_or_def pm_get_def Let_def split: option.split sum.split prod.split)

lemma pm_get_or_other: "pid' \<noteq> pid \<Longrightarrow> hget (pm_map (snd (pm_get_or sd now up pid pm))) pid' = hget (pm_map pm) pid'"
  by (auto simp: pm_get_or_def pm_get_def Let_def split: option.split sum.split prod.split)

lemma pm_get_result:
  "fst (pm_get sd now up pid pm) =
   (case hget (pm_map pm) pid of
      Some p \<Rightarrow> Some p
    | None \<Rightarrow> if up then map_option (peer_of_row sd now) (List.find (\<lambda>r. row_id r = pid) (pm_db pm)) else None)"
  by (auto simp: pm_get_def db_get_peer_def Let_def split: option.split)

text \<open>What a registration writes: the peer in memory in every case, and the row when the table
  accepts it.\<close>

lemma pm_update_pk_memory:
  assumes "pm_update_pk sd now up g pid p addr u k ip pm = (res, pm')"
  shows "\<exists>w. hget (pm_map pm') pid = Some w \<and> socket_addr w = addr \<and> uuid w = u \<and> pk w = k \<and>
      last_reg_time w = now \<and> info_ip w = ip \<and> reg_pk w = reg_pk p"
    and "pid' \<noteq> pid \<Longrightarrow> hget (pm_map pm') pid' = hget (pm_map pm) pid'"
  using assms
  by (auto simp: pm_update_pk_def pm_write_def Let_def split: if_splits prod.splits sum.splits)

lemma pm_update_pk_new:
  assumes "pm_update_pk sd now up g pid p addr u k ip pm = (OK, pm')" "guid p = []"
  shows "up" "\<forall>r \<in> set (pm_db pm). row_guid r \<noteq> g \<and> row_id r \<noteq> pid"
    "pm_db pm' = pm_db pm @ [\<lparr>row_guid = g, row_id = pid, row_uuid = u, row_pk = k, row_info = sd_print sd ip\<rparr>]"
    "\<exists>w. hget (pm_map pm') pid = Some w \<and> guid w = g \<and> uuid w = u"
  using assms
  by (auto simp: pm_update_pk_def pm_write_def db_insert_peer_def Let_def split: if_splits prod.splits sum.splits)

lemma pm_update_pk_old:
  assumes "pm_update_pk sd now up g pid p addr u k ip pm = (OK, pm')" "guid p \<noteq> []"
  shows "up" "pm_db pm' = snd (db_update_pk True (guid p) pid k (sd_print sd ip) (pm_db pm))"
    "fst (db_update_pk True (guid p) pid k (sd_print sd ip) (pm_db pm)) = Inr ()"
    "\<exists>w. hget (pm_map pm') pid = Some w \<and> guid w = guid p \<and> uuid w = u"
  using assms
  by (auto simp: pm_update_pk_def pm_write_def db_update_pk_def Let_def split: if_splits prod.splits sum.splits)

lemma pm_update_pk_failed:
  assumes "pm_update_pk sd now up g pid p addr u k ip pm = (res, pm')" "res \<noteq> OK"
  shows "res = SERVER_ERROR \<and> pm_db pm' = pm_db pm \<and>
    (\<exists>w. hget (pm_map pm') pid = Some w \<and> guid w = guid p \<and> uuid w = u)"
  using assms
  by (auto simp: pm_update_pk_def pm_write_def Let_def split: if_splits prod.splits sum.splits)

lemma pm_update_pk_hwf:
  "hwf (pm_map pm) \<Longrightarrow> hwf (pm_map (snd (pm_update_pk sd now up g pid p addr u k ip pm)))"
  by (auto simp: pm_update_pk_def pm_write_def Let_def split: prod.split sum.split)

lemma pm_wf_row:
  "pm_wf pm \<Longrightarrow> hget (pm_map pm) pid = Some p \<Longrightarrow> guid p \<noteq> [] \<Longrightarrow>
   \<exists>r \<in> set (pm_db pm). row_guid r = guid p \<and> row_id r = pid \<and> row_uuid r = uuid p"
  unfolding pm_wf_def by blast

text \<open>A step that touches one id keeps the invariant when the rows of the others stay and its
  own peer has its row.\<close>

lemma pm_wf_step:
  assumes "pm_wf pm" "hwf (pm_map pm')" "db_wf (pm_db pm')" "[] \<notin> set (map row_guid (pm_db pm'))"
    and "[] \<notin> set (map row_uuid (pm_db pm'))"
    and other: "\<And>i. i \<noteq> pid \<Longrightarrow> hget (pm_map pm') i = hget (pm_map pm) i"
    and rows: "\<And>r. r \<in> set (pm_db pm) \<Longrightarrow> row_id r \<noteq> pid \<Longrightarrow> r \<in> set (pm_db pm')"
    and own: "\<And>w. hget (pm_map pm') pid = Some w \<Longrightarrow> guid w \<noteq> [] \<Longrightarrow>
      \<exists>r \<in> set (pm_db pm'). row_guid r = guid w \<and> row_id r = pid \<and> row_uuid r = uuid w"
  shows "pm_wf pm'"
proof -
  have "\<exists>r \<in> set (pm_db pm'). row_guid r = guid q \<and> row_id r = i \<and> row_uuid r = uuid q"
    if q: "hget (pm_map pm') i = Some q" "guid q \<noteq> []" for i q
  proof (cases "i = pid")
    case True
    with own q show ?thesis by blast
  next
    case False
    with other q have "hget (pm_map pm) i = Some q" by simp
    then obtain r where "r \<in> set (pm_db pm)" "row_guid r = guid q" "row_id r = i" "row_uuid r = uuid q"
      using pm_wf_row [OF assms(1)] q(2) by blast
    with rows False show ?thesis by blast
  qed
  with assms(2-5) show ?thesis unfolding pm_wf_def by blast
qed

lemma pm_wf_parts: "pm_wf pm \<Longrightarrow> hwf (pm_map pm) \<and> db_wf (pm_db pm) \<and> [] \<notin> set (map row_guid (pm_db pm))
    \<and> [] \<notin> set (map row_uuid (pm_db pm))"
  by (simp add: pm_wf_def)

lemma pm_update_pk_failed_wf:
  assumes "pm_wf pm" "hget (pm_map pm) pid = Some p" "uuid p = [] \<and> guid p = [] \<or> uuid p = u"
    and run: "pm_update_pk sd now up g pid p addr u k ip pm = (res, pm')" and res: "res \<noteq> OK"
  shows "pm_wf pm'"
proof -
  note wf = pm_wf_parts [OF assms(1)]
  obtain w where w: "hget (pm_map pm') pid = Some w" "guid w = guid p" "uuid w = u" and db: "pm_db pm' = pm_db pm"
    using pm_update_pk_failed [OF run res] by blast
  show ?thesis
  proof (rule pm_wf_step [OF assms(1), of pm' pid])
    show "hwf (pm_map pm')" using pm_update_pk_hwf [of pm sd now up g pid p addr u k ip] wf run by simp
    show "\<exists>r \<in> set (pm_db pm'). row_guid r = guid w' \<and> row_id r = pid \<and> row_uuid r = uuid w'"
      if "hget (pm_map pm') pid = Some w'" "guid w' \<noteq> []" for w'
      using pm_wf_row [OF assms(1,2)] that w db assms(3) by auto
  qed (use wf db pm_update_pk_memory(2) [OF run] in auto)
qed

lemma pm_update_pk_new_wf:
  assumes "pm_wf pm" "guid p = []" "g \<noteq> []" "u \<noteq> []"
    and run: "pm_update_pk sd now up g pid p addr u k ip pm = (OK, pm')"
  shows "pm_wf pm'"
proof -
  note wf = pm_wf_parts [OF assms(1)] and ins = pm_update_pk_new [OF run assms(2)]
  show ?thesis
  proof (rule pm_wf_step [OF assms(1), of pm' pid])
    show "hwf (pm_map pm')" using pm_update_pk_hwf [of pm sd now up g pid p addr u k ip] wf run by simp
    show "db_wf (pm_db pm')" using wf ins(2,3) by (auto simp: db_wf_def)
    show "\<exists>r \<in> set (pm_db pm'). row_guid r = guid w' \<and> row_id r = pid \<and> row_uuid r = uuid w'"
      if "hget (pm_map pm') pid = Some w'" for w'
      using that ins(3,4) by auto
  qed (use wf ins(3) assms(3,4) pm_update_pk_memory(2) [OF run] in auto)
qed

lemma pm_update_pk_old_wf:
  assumes "pm_wf pm" "hget (pm_map pm) pid = Some p" "guid p \<noteq> []" "uuid p = u"
    and run: "pm_update_pk sd now up g pid p addr u k ip pm = (OK, pm')"
  shows "pm_wf pm'"
proof -
  note wf = pm_wf_parts [OF assms(1)] and upd = pm_update_pk_old [OF run assms(3)]
  let ?new = "\<lambda>r. r\<lparr>row_id := pid, row_pk := k, row_info := sd_print sd ip\<rparr>"
  have db': "pm_db pm' = map (\<lambda>r. if row_guid r = guid p then ?new r else r) (pm_db pm)"
    using upd(2,3) by (auto simp: db_update_pk_def split: if_splits)
  obtain r0 where r0: "r0 \<in> set (pm_db pm)" "row_guid r0 = guid p" "row_id r0 = pid" "row_uuid r0 = uuid p"
    using pm_wf_row [OF assms(1,2,3)] by blast
  have new: "?new r0 \<in> set (pm_db pm')" using r0 by (force simp: db')
  show ?thesis
  proof (rule pm_wf_step [OF assms(1), of pm' pid])
    show "hwf (pm_map pm')" using pm_update_pk_hwf [of pm sd now up g pid p addr u k ip] wf run by simp
    show "db_wf (pm_db pm')" unfolding upd(2) using wf by (blast intro: db_update_wf)
    show "[] \<notin> set (map row_guid (pm_db pm'))" unfolding upd(2) db_update_guids using wf by blast
    show "[] \<notin> set (map row_uuid (pm_db pm'))" using wf by (auto simp: db' split: if_splits)
    show "r \<in> set (pm_db pm')" if "r \<in> set (pm_db pm)" "row_id r \<noteq> pid" for r
    proof -
      have "row_guid r \<noteq> guid p" using db_row_unique [of "pm_db pm" r r0] that r0 wf by auto
      with that(1) show ?thesis by (force simp: db')
    qed
    show "\<exists>r \<in> set (pm_db pm'). row_guid r = guid w' \<and> row_id r = pid \<and> row_uuid r = uuid w'"
      if "hget (pm_map pm') pid = Some w'" for w'
      using that upd(4) new r0 assms(4) by (intro bexI [of _ "?new r0"]) auto
  qed (rule pm_update_pk_memory(2) [OF run])
qed

lemma pm_wf_unbound: "pm_wf pm \<Longrightarrow> hget (pm_map pm) pid = Some p \<Longrightarrow> uuid p = [] \<Longrightarrow> guid p = []"
  using pm_wf_row [of pm pid p] pm_wf_parts [of pm] by (metis image_eqI list.set_map)

lemma pm_update_pk_wf:
  assumes "pm_wf pm" "hget (pm_map pm) pid = Some p" "g \<noteq> []" "u \<noteq> []" "uuid p = [] \<or> uuid p = u"
  shows "pm_wf (snd (pm_update_pk sd now up g pid p addr u k ip pm))"
proof -
  obtain res pm' where run: "pm_update_pk sd now up g pid p addr u k ip pm = (res, pm')" by fastforce
  have bound: "uuid p = [] \<and> guid p = [] \<or> uuid p = u" using pm_wf_unbound [OF assms(1,2)] assms(5) by blast
  show ?thesis
    using pm_update_pk_failed_wf [OF assms(1,2) bound run] pm_update_pk_new_wf [OF assms(1) _ assms(3,4)]
      pm_update_pk_old_wf [OF assms(1,2)] bound run
    by (cases "res = OK"; cases "guid p = []") auto
qed

text \<open>A registration that the table accepted is read back by the next process.\<close>

definition restart :: "peer_map \<Rightarrow> peer_map" where
  "restart pm = pm\<lparr>pm_map := []\<rparr>"

lemma pm_update_pk_row:
  assumes wf: "pm_wf pm" and p: "hget (pm_map pm) pid = Some p" and bound: "guid p = [] \<or> uuid p = u"
    and run: "pm_update_pk sd now up g pid p addr u k ip pm = (OK, pm')"
  shows "\<exists>r \<in> set (pm_db pm'). row_id r = pid \<and> row_uuid r = u \<and> row_pk r = k \<and> row_info r = sd_print sd ip"
proof (cases "guid p = []")
  case True
  from pm_update_pk_new(3) [OF run True] show ?thesis by auto
next
  case False
  then obtain r where r: "r \<in> set (pm_db pm)" "row_guid r = guid p" "row_uuid r = uuid p"
    using pm_wf_row [OF wf p] by blast
  have "r\<lparr>row_id := pid, row_pk := k, row_info := sd_print sd ip\<rparr> \<in> set (pm_db pm')"
    using pm_update_pk_old(2,3) [OF run False] r by (force simp: db_update_pk_def split: if_splits)
  with r bound False show ?thesis
    by (intro bexI [of _ "r\<lparr>row_id := pid, row_pk := k, row_info := sd_print sd ip\<rparr>"]) auto
qed

lemma expired_elapsed:
  assumes "3600 * 10 ^ 9 \<le> now" "now \<le> t"
  shows "3600000 \<le> elapsed_millis t (get_expired_time now)"
proof -
  have "3600 * 10 ^ 9 \<le> t - get_expired_time now" using assms by (simp add: get_expired_time_def)
  then have "3600 * 10 ^ 9 div 10 ^ 6 \<le> (t - get_expired_time now) div 10 ^ 6" by (rule div_le_mono)
  then show ?thesis by (simp add: elapsed_millis_def)
qed

section \<open>Properties\<close>

text \<open>
  C18. A registration that succeeded survives a restart: the next process, when it can read the
  table, has the same public key, uuid and IP address for the id. If the clock of that process
  reads at least an hour, it takes the peer to have been silent for an hour until it reports again.
\<close>

theorem registration_survives_restart:
  assumes "pm_wf pm" "hget (pm_map pm) pid = Some p" "uuid p = [] \<or> uuid p = u" "u \<noteq> []" "g \<noteq> []"
    and "\<forall>s. sd_parse sd (sd_print sd s) = Some s"
    and "pm_update_pk sd now up g pid p addr u k ip pm = (OK, pm')"
  shows "\<exists>q. fst (pm_get sd later True pid (restart pm')) = Some q \<and>
    q = (peer_default later)\<lparr>guid := (if guid p = [] then g else guid p), uuid := u, pk := k, info_ip := ip\<rparr> \<and>
    (\<forall>t. 3600 * 10 ^ 9 \<le> later \<and> later \<le> t \<longrightarrow> 3600000 \<le> elapsed_millis t (last_reg_time q))"
proof -
  have silent: "last_reg_time (peer_default later) = get_expired_time later" by (simp add: peer_default_def)
  have wf': "pm_wf pm'" using pm_update_pk_wf [OF assms(1,2,5,4,3), of sd now up addr k ip] assms(7) by simp
  have bound: "guid p = [] \<or> uuid p = u" using pm_wf_unbound [OF assms(1,2)] assms(3) by blast
  obtain r where r: "r \<in> set (pm_db pm')" "row_id r = pid" "row_uuid r = u" "row_pk r = k"
    "row_info r = sd_print sd ip"
    using pm_update_pk_row [OF assms(1,2) bound assms(7)] by blast
  obtain w where w: "hget (pm_map pm') pid = Some w" "guid w = (if guid p = [] then g else guid p)"
    using pm_update_pk_new(4) [OF assms(7)] pm_update_pk_old(4) [OF assms(7)] by (cases "guid p = []") auto
  then obtain s where "s \<in> set (pm_db pm')" "row_guid s = guid w" "row_id s = pid"
    using pm_wf_row [OF wf'] assms(5) by (metis)
  then have "row_guid r = guid w" using db_row_unique [of "pm_db pm'" r s] r wf' by (auto simp: pm_wf_def)
  moreover have "List.find (\<lambda>x. row_id x = pid) (pm_db pm') = Some r"
    using db_find_row [of "pm_db pm'" r] r wf' by (auto simp: pm_wf_def)
  ultimately show ?thesis
    using r w(2) assms(6) expired_elapsed [of later] by (auto simp: pm_get_result restart_def peer_of_row_def silent)
qed


definition example_serde :: serde where
  "example_serde = \<lparr>sd_print = (\<lambda>s. s), sd_parse = Some\<rparr>"

lemma example_update_pk:
  "pm_update_pk example_serde 5 True [9] ''123456'' (peer_default 0) (SocketAddr (v4_of 7 7 7 7) 80) [3] [4] ''7.7.7.7''
     \<lparr>pm_map = [(''123456'', peer_default 0)], pm_db = []\<rparr> =
   (OK, \<lparr>pm_map = [(''123456'', (peer_default 0)\<lparr>socket_addr := SocketAddr (v4_of 7 7 7 7) 80, uuid := [3], pk := [4],
            last_reg_time := 5, info_ip := ''7.7.7.7'', guid := [9]\<rparr>)],
         pm_db = [\<lparr>row_guid = [9], row_id = ''123456'', row_uuid = [3], row_pk = [4], row_info = ''7.7.7.7''\<rparr>]\<rparr>)"
  by (simp add: pm_update_pk_def pm_write_def db_insert_peer_def peer_default_def example_serde_def hput_def)

theorem registration_survives_restart_witness:
  "\<exists>q. fst (pm_get example_serde (4000 * 10 ^ 9) True ''123456''
     (restart \<lparr>pm_map = [(''123456'', (peer_default 0)\<lparr>socket_addr := SocketAddr (v4_of 7 7 7 7) 80, uuid := [3], pk := [4],
            last_reg_time := 5, info_ip := ''7.7.7.7'', guid := [9]\<rparr>)],
         pm_db = [\<lparr>row_guid = [9], row_id = ''123456'', row_uuid = [3], row_pk = [4], row_info = ''7.7.7.7''\<rparr>]\<rparr>)) = Some q \<and>
     guid q = [9] \<and> uuid q = [3] \<and> pk q = [4] \<and> info_ip q = ''7.7.7.7'' \<and>
     3600000 \<le> elapsed_millis (4001 * 10 ^ 9) (last_reg_time q)"
proof -
  have "pm_wf \<lparr>pm_map = [(''123456'', peer_default 0)], pm_db = []\<rparr>"
    by (simp add: pm_wf_def hwf_def hget_def db_wf_def peer_default_def)
  from registration_survives_restart [OF this _ _ _ _ _ example_update_pk, of "4000 * 10 ^ 9"] show ?thesis
    by (auto simp: hget_def peer_default_def example_serde_def)
qed

end
