(* ===== verification/Rate_Limits.thy ===== *)
theory Rate_Limits
  imports Peer_Store
begin

text \<open>
  What the rendezvous server counts: attempts per address and ids per address
  (\<^verbatim>\<open>check_ip_blocker\<close>), key registrations per peer, changes of address, and the log of punch
  requests, all of \<^verbatim>\<open>src/src/rendezvous_server.rs\<close>.
\<close>

section \<open>Counting in a window\<close>

text \<open>
  The counter both limits use: an attempt longer than the window after the last admitted one
  starts over, one over the limit is refused and leaves the counter as it is, any other is
  counted and becomes the last.
\<close>

definition window_tick :: "nat \<Rightarrow> nat \<Rightarrow> instant \<Rightarrow> nat \<times> instant \<Rightarrow> bool \<times> nat \<times> instant" where
  "window_tick dur limit now c =
     (if dur < elapsed_secs now (snd c) then (True, 1, now)
      else if limit < fst c then (False, c)
      else (True, Suc (fst c), now))"

text \<open>
  The contract of such a counter, whatever state it is a part of, and the bound it promises:
  over any span of time that fits in the window at most \<open>limit + 1\<close> attempts are admitted.
\<close>

locale window_counter =
  fixes admit :: "instant \<Rightarrow> 's \<Rightarrow> bool"
    and after :: "instant \<Rightarrow> 's \<Rightarrow> 's"
    and counted :: "'s \<Rightarrow> nat"
    and last_at :: "'s \<Rightarrow> instant"
    and dur :: nat
    and limit :: nat
  assumes admit_iff: "admit now s \<longleftrightarrow> dur < elapsed_secs now (last_at s) \<or> counted s \<le> limit"
    and counted_after: "admit now s \<Longrightarrow> counted (after now s) =
      (if dur < elapsed_secs now (last_at s) then 1 else Suc (counted s))"
    and last_after: "admit now s \<Longrightarrow> last_at (after now s) = now"
    and refused: "\<not> admit now s \<Longrightarrow> counted (after now s) = counted s \<and> last_at (after now s) = last_at s"
begin

fun admissions :: "instant list \<Rightarrow> 's \<Rightarrow> nat" where
  "admissions [] s = 0"
| "admissions (t # ts) s = (if admit t s then 1 else 0) + admissions ts (after t s)"

lemma admissions_same_window:
  assumes "\<forall>t \<in> set ts. elapsed_secs t lo \<le> dur" "lo \<le> last_at s" "\<forall>t \<in> set ts. lo \<le> t"
    and "counted s \<le> Suc limit"
  shows "counted s + admissions ts s \<le> Suc limit"
  using assms
proof (induction ts arbitrary: s)
  case (Cons t ts)
  have near: "\<not> dur < elapsed_secs t (last_at s)"
    using Cons.prems elapsed_secs_mono [of lo "last_at s" t] by force
  show ?case
  proof (cases "admit t s")
    case True
    with near have c: "counted (after t s) = Suc (counted s)" "last_at (after t s) = t" "counted s \<le> limit"
      by (simp_all add: counted_after last_after admit_iff)
    have "counted (after t s) + admissions ts (after t s) \<le> Suc limit"
      using Cons.prems c by (intro Cons.IH) auto
    with True c show ?thesis by simp
  next
    case False
    then have r: "counted (after t s) = counted s" "last_at (after t s) = last_at s" using refused by auto
    have "counted (after t s) + admissions ts (after t s) \<le> Suc limit"
      using Cons.prems r by (intro Cons.IH) auto
    with False r show ?thesis by simp
  qed
qed simp

lemma admissions_bounded:
  assumes "\<forall>t \<in> set ts. lo \<le> t \<and> elapsed_secs t lo \<le> dur" "counted s \<le> Suc limit"
  shows "admissions ts s \<le> Suc limit"
  using assms
proof (induction ts arbitrary: s)
  case (Cons t ts)
  show ?case
  proof (cases "admit t s")
    case True
    have c: "1 \<le> counted (after t s)" "counted (after t s) \<le> Suc limit" "last_at (after t s) = t"
      using True by (auto simp: counted_after last_after admit_iff)
    then have "counted (after t s) + admissions ts (after t s) \<le> Suc limit"
      using Cons.prems by (intro admissions_same_window [of _ lo]) auto
    with True c(1) show ?thesis by simp
  next
    case False
    with Cons.prems refused have "admissions ts (after t s) \<le> Suc limit" by (intro Cons.IH) auto
    with False show ?thesis by simp
  qed
qed simp

end

section \<open>Attempts per address\<close>

type_synonym block_entry = "(nat \<times> instant) \<times> (string list \<times> instant)"
type_synonym ip_blocker = "(string, block_entry) hmap"

definition check_ip_blocker :: "instant \<Rightarrow> string \<Rightarrow> string \<Rightarrow> ip_blocker \<Rightarrow> bool \<times> ip_blocker" where
  "check_ip_blocker now ip pid blk =
     (case hget blk ip of
        None \<Rightarrow> (True, hput ip ((0, now), ([], now)) blk)
      | Some (counter, ids, tm) \<Rightarrow>
          (case window_tick IP_BLOCK_DUR 30 now counter of
             (False, _) \<Rightarrow> (False, blk)
           | (True, counter') \<Rightarrow>
               (let is_new = pid \<notin> set ids
                in if DAY_SECONDS < elapsed_secs now tm then
                     (True, hput ip (counter', (if is_new then [pid] else [], now)) blk)
                   else if 300 < length ids then (\<not> is_new, hput ip (counter', (ids, tm)) blk)
                   else (True, hput ip (counter', (if is_new then ids @ [pid] else ids, now)) blk))))"

section \<open>Key registrations per peer\<close>

definition reg_pk_tick :: "instant \<Rightarrow> peer \<Rightarrow> bool \<times> peer" where
  "reg_pk_tick now p =
     (case window_tick 6 2 now (reg_pk p) of (ok, c) \<Rightarrow> (ok, if ok then p\<lparr>reg_pk := c\<rparr> else p))"

section \<open>Changes of address\<close>

type_synonym ip_changes = "(string, instant \<times> (string, int) hmap) hmap"

definition record_ip_change :: "instant \<Rightarrow> string \<Rightarrow> string \<Rightarrow> ip_changes \<Rightarrow> ip_changes" where
  "record_ip_change now pid ip m =
     (case hget m pid of
        Some (tm, ips) \<Rightarrow>
          if IP_CHANGE_DUR < elapsed_secs now tm then hput pid (now, hput ip 1 []) m
          else (case hget ips ip of
                  Some v \<Rightarrow> hput pid (tm, hput ip (i32_wrap (v + 1)) ips) m
                | None \<Rightarrow> hput pid (tm, hput ip 1 ips) m)
      | None \<Rightarrow> hput pid (now, [(ip, 1)]) m)"

section \<open>Punch requests\<close>

record punch_req =
  pr_tm :: instant
  pr_from_ip :: string
  pr_to_ip :: string
  pr_to_id :: string

definition PUNCH_REQ_DEDUPE_SEC :: nat where
  "PUNCH_REQ_DEDUPE_SEC = 60"

definition punch_req_max :: "environ \<Rightarrow> nat" where
  "punch_req_max env = (case parse_u64 (get_arg env ''MAX_PUNCH_REQUESTS'') of Some n \<Rightarrow> n | None \<Rightarrow> 100000)"

definition recent_match :: "string \<Rightarrow> string \<Rightarrow> punch_req list \<Rightarrow> punch_req option" where
  "recent_match from_ip to_id reqs =
     List.find (\<lambda>e. pr_from_ip e = from_ip \<and> pr_to_id e = to_id) (take 30 (rev reqs))"

definition record_punch_req ::
  "nat \<Rightarrow> instant \<Rightarrow> string \<Rightarrow> string \<Rightarrow> string \<Rightarrow> punch_req list \<Rightarrow> punch_req list" where
  "record_punch_req mx now from_ip to_ip to_id reqs =
     (if mx = 0 then reqs
      else
        (let dup = (case recent_match from_ip to_id reqs of
                      Some e \<Rightarrow> elapsed_secs now (pr_tm e) < PUNCH_REQ_DEDUPE_SEC
                    | None \<Rightarrow> False)
         in if dup then reqs
            else (if mx \<le> length reqs then tl reqs else reqs)
                 @ [\<lparr>pr_tm = now, pr_from_ip = from_ip, pr_to_ip = to_ip, pr_to_id = to_id\<rparr>]))"

section \<open>The limits kept\<close>

definition block_entry_wf :: "block_entry \<Rightarrow> bool" where
  "block_entry_wf e \<longleftrightarrow> fst (fst e) \<le> 31 \<and> length (fst (snd e)) \<le> 301 \<and> distinct (fst (snd e))"

definition blocker_wf :: "ip_blocker \<Rightarrow> bool" where
  "blocker_wf blk \<longleftrightarrow> hwf blk \<and> (\<forall>(ip, e) \<in> set blk. block_entry_wf e)"

lemma check_ip_blocker_wf:
  assumes "blocker_wf blk"
  shows "blocker_wf (snd (check_ip_blocker now ip pid blk))"
proof (cases "hget blk ip")
  case None
  with assms show ?thesis
    by (auto simp: check_ip_blocker_def blocker_wf_def block_entry_wf_def dest!: hput_set)
next
  case (Some e)
  then have "block_entry_wf e"
    using assms hget_in_set [of blk ip e] by (auto simp: blocker_wf_def)
  with Some assms show ?thesis
    by (cases e)
       (auto simp: check_ip_blocker_def blocker_wf_def block_entry_wf_def window_tick_def Let_def
         split: if_splits dest!: hput_set)
qed

text \<open>The entry of an address that is known, seen as a counter.\<close>

definition blocker_counter :: "string \<Rightarrow> ip_blocker \<Rightarrow> nat \<times> instant" where
  "blocker_counter ip blk = (case hget blk ip of Some (c, _) \<Rightarrow> c | None \<Rightarrow> (0, 0))"

text \<open>Both limits are window counters.\<close>

interpretation tick: window_counter "\<lambda>now c. fst (window_tick dur limit now c)"
    "\<lambda>now c. snd (window_tick dur limit now c)" fst snd dur limit for dur limit
  by unfold_locales (auto simp: window_tick_def split: if_splits)

interpretation reg: window_counter "\<lambda>now p. fst (reg_pk_tick now p)" "\<lambda>now p. snd (reg_pk_tick now p)"
    "\<lambda>p. fst (reg_pk p)" "\<lambda>p. snd (reg_pk p)" 6 2
  by unfold_locales (auto simp: reg_pk_tick_def window_tick_def split: if_splits)

text \<open>How many of a sequence of attempts from one address are let through.\<close>

fun blocker_admits :: "string \<Rightarrow> (instant \<times> string) list \<Rightarrow> ip_blocker \<Rightarrow> nat" where
  "blocker_admits ip [] blk = 0"
| "blocker_admits ip ((now, pid) # rest) blk =
     (case check_ip_blocker now ip pid blk of
        (ok, blk') \<Rightarrow> (if ok then 1 else 0) + blocker_admits ip rest blk')"

lemma check_known_ip:
  assumes "hget blk ip = Some e"
  shows "fst (check_ip_blocker now ip pid blk) \<Longrightarrow> fst (window_tick IP_BLOCK_DUR 30 now (fst e))"
    and "\<exists>e'. hget (snd (check_ip_blocker now ip pid blk)) ip = Some e' \<and>
      fst e' = snd (window_tick IP_BLOCK_DUR 30 now (fst e))"
proof -
  obtain c ids tm where e: "e = (c, ids, tm)" by (metis prod_cases3)
  obtain ok c' where w: "window_tick IP_BLOCK_DUR 30 now c = (ok, c')"
    by (cases "window_tick IP_BLOCK_DUR 30 now c")
  have r: "check_ip_blocker now ip pid blk =
     (if ok then (let is_new = pid \<notin> set ids
                in if DAY_SECONDS < elapsed_secs now tm then
                     (True, hput ip (c', (if is_new then [pid] else [], now)) blk)
                   else if 300 < length ids then (\<not> is_new, hput ip (c', (ids, tm)) blk)
                   else (True, hput ip (c', (if is_new then ids @ [pid] else ids, now)) blk))
      else (False, blk))"
    by (simp add: check_ip_blocker_def assms e w split: bool.split)
  show "fst (check_ip_blocker now ip pid blk) \<Longrightarrow> fst (window_tick IP_BLOCK_DUR 30 now (fst e))"
    unfolding r using e w by (simp split: if_splits)
  have "c' = c" if "\<not> ok" using that w by (simp add: window_tick_def split: if_splits)
  then show "\<exists>e'. hget (snd (check_ip_blocker now ip pid blk)) ip = Some e' \<and>
      fst e' = snd (window_tick IP_BLOCK_DUR 30 now (fst e))"
    unfolding r Let_def using assms e w by (cases ok; cases c') (simp_all split: if_split)
qed

lemma blocker_admits_known:
  assumes "hget blk ip = Some e"
  shows "blocker_admits ip rqs blk \<le> tick.admissions IP_BLOCK_DUR 30 (map fst rqs) (fst e)"
  using assms
proof (induction ip rqs blk arbitrary: e rule: blocker_admits.induct)
  case (2 ip now pid rest blk)
  obtain e' where e': "hget (snd (check_ip_blocker now ip pid blk)) ip = Some e'"
    "fst e' = snd (window_tick IP_BLOCK_DUR 30 now (fst e))"
    using check_known_ip(2) [OF "2.prems"] by blast
  from "2.IH" [OF _ e'(1)] have "blocker_admits ip rest (snd (check_ip_blocker now ip pid blk)) \<le>
    tick.admissions IP_BLOCK_DUR 30 (map fst rest) (fst e')"
    by (metis prod.collapse)
  with check_known_ip(1) [OF "2.prems", of now pid] e'(2) show ?case
    by (auto simp: case_prod_beta)
qed simp

section \<open>Properties\<close>

text \<open>
  C32. The address limit: whatever ids it asks for, and whatever happened before, at most 32
  attempts of one address are let through in any 60 seconds, and what is remembered about an
  address stays bounded.
\<close>

theorem ip_blocker_limit:
  assumes "blocker_wf blk" "\<forall>(t, pid) \<in> set rqs. lo \<le> t \<and> elapsed_secs t lo \<le> IP_BLOCK_DUR"
  shows "blocker_admits ip rqs blk \<le> 32 \<and> blocker_wf (snd (check_ip_blocker now ip pid blk))"
proof -
  have known: "blocker_admits ip rqs' blk' \<le> 31"
    if "hget blk' ip = Some e" "fst (fst e) \<le> 31" "\<forall>(t, pid) \<in> set rqs'. lo \<le> t \<and> elapsed_secs t lo \<le> IP_BLOCK_DUR"
    for rqs' blk' e
  proof -
    have "tick.admissions IP_BLOCK_DUR 30 (map fst rqs') (fst e) \<le> Suc 30"
      using that by (intro tick.admissions_bounded [of _ lo]) auto
    with blocker_admits_known [OF that(1), of rqs'] show ?thesis by simp
  qed
  have "blocker_admits ip rqs blk \<le> 32"
  proof (cases "hget blk ip")
    case None
    then show ?thesis
    proof (cases rqs)
      case (Cons r rest)
      obtain t i where r: "r = (t, i)" by force
      have "blocker_admits ip rest (hput ip ((0, t), ([], t)) blk) \<le> 31"
        using assms(2) Cons by (intro known [where e = "((0, t), ([], t))"]) auto
      with None Cons r show ?thesis by (simp add: check_ip_blocker_def)
    qed simp
  next
    case (Some e)
    with assms(1) hget_in_set [of blk ip e] have "fst (fst e) \<le> 31"
      by (auto simp: blocker_wf_def block_entry_wf_def)
    with known [OF Some _ assms(2)] show ?thesis by simp
  qed
  with check_ip_blocker_wf [OF assms(1)] show ?thesis by blast
qed

theorem ip_blocker_limit_witness:
  "blocker_admits ''1.2.3.4'' [(5, ''a''), (6, ''b'')] [] \<le> 32 \<and>
   blocker_wf (snd (check_ip_blocker 7 ''1.2.3.4'' ''a'' []))"
  by (rule ip_blocker_limit [where lo = 0])
     (simp_all add: blocker_wf_def elapsed_secs_def IP_BLOCK_DUR_def)

text \<open>
  The registration limit: at most three key registrations of one peer are counted in any
  6 seconds, from whatever state its counter is in.
\<close>

theorem reg_pk_limit:
  assumes "fst (reg_pk p) \<le> 3" "\<forall>t \<in> set ts. lo \<le> t \<and> elapsed_secs t lo \<le> 6"
  shows "length (filter (\<lambda>i. fst (reg_pk_tick (ts ! i) (foldl (\<lambda>p t. snd (reg_pk_tick t p)) p (take i ts)))) [0..<length ts]) \<le> 3"
proof -
  have "length (filter (\<lambda>i. fst (reg_pk_tick (ts ! i) (foldl (\<lambda>p t. snd (reg_pk_tick t p)) p (take i ts)))) [0..<length ts])
      = reg.admissions ts p" for p
  proof (induction ts arbitrary: p)
    case (Cons t ts)
    have "[0..<length (t # ts)] = 0 # map Suc [0..<length ts]" by (simp add: map_Suc_upt upt_conv_Cons del: upt_Suc)
    then show ?case using Cons.IH [of "snd (reg_pk_tick t p)"] by (simp add: filter_map comp_def del: upt_Suc)
  qed simp
  with reg.admissions_bounded [of ts lo p] assms show ?thesis by simp
qed

theorem reg_pk_limit_witness:
  "length (filter (\<lambda>i. fst (reg_pk_tick ([5, 6] ! i)
     (foldl (\<lambda>p t. snd (reg_pk_tick t p)) (peer_default 0) (take i [5, 6])))) [0..<length [5 :: nat, 6]]) \<le> 3"
  by (rule reg_pk_limit [where lo = 0]) (simp_all add: peer_default_def elapsed_secs_def)

text \<open>
  The log of punch requests stays within its bound and drops the oldest first; a request
  is not logged again while the latest of the last 30 entries for the same pair is less than
  60 seconds old, and is logged at the end otherwise.
\<close>

theorem record_punch_req_bounded:
  assumes "length reqs \<le> mx"
  shows "length (record_punch_req mx now from_ip to_ip to_id reqs) \<le> mx \<and>
    (record_punch_req mx now from_ip to_ip to_id reqs = reqs \<or>
     (\<exists>kept. (reqs = kept \<or> (\<exists>oldest. reqs = oldest # kept)) \<and>
        record_punch_req mx now from_ip to_ip to_id reqs =
          kept @ [\<lparr>pr_tm = now, pr_from_ip = from_ip, pr_to_ip = to_ip, pr_to_id = to_id\<rparr>])) \<and>
    (0 < mx \<and> now \<le> later \<and> elapsed_secs later now < 60 \<longrightarrow>
      record_punch_req mx later from_ip to_ip' to_id (record_punch_req mx now from_ip to_ip to_id reqs) =
        record_punch_req mx now from_ip to_ip to_id reqs
      \<or> record_punch_req mx now from_ip to_ip to_id reqs = reqs)"
proof -
  let ?new = "\<lparr>pr_tm = now, pr_from_ip = from_ip, pr_to_ip = to_ip, pr_to_id = to_id\<rparr>"
  consider (kept) "record_punch_req mx now from_ip to_ip to_id reqs = reqs"
    | (added) "0 < mx" "record_punch_req mx now from_ip to_ip to_id reqs =
        (if mx \<le> length reqs then tl reqs else reqs) @ [?new]"
    unfolding record_punch_req_def Let_def by (metis (full_types) gr0I)
  then show ?thesis
  proof cases
    case added
    have "recent_match from_ip to_id (xs @ [?new]) = Some ?new" for xs
      by (simp add: recent_match_def)
    then have again: "record_punch_req mx later from_ip to_ip' to_id (xs @ [?new]) = xs @ [?new]"
      if "elapsed_secs later now < 60" for xs
      using that added(1) by (simp add: record_punch_req_def PUNCH_REQ_DEDUPE_SEC_def)
    with added assms show ?thesis
      using again [of "[]"] by (cases reqs) auto
  qed (use assms in simp)
qed

theorem record_punch_req_bounded_witness:
  "length (record_punch_req 1 9 ''a'' ''b'' ''c'' [\<lparr>pr_tm = 0, pr_from_ip = ''x'', pr_to_ip = ''y'', pr_to_id = ''z''\<rparr>]) \<le> 1"
  using record_punch_req_bounded [of "[\<lparr>pr_tm = 0, pr_from_ip = ''x'', pr_to_ip = ''y'', pr_to_id = ''z''\<rparr>]" 1 9 "''a''" "''b''" "''c''"]
  by simp


text \<open>
  A defect of the daily set: whether an id is new is decided before the set of the last day is
  cleared, so an id that was in the old set is let through without being counted for the new day.
\<close>

theorem returning_id_not_counted:
  assumes "hget blk ip = Some (c, ids, tm)" "pid \<in> set ids" "DAY_SECONDS < elapsed_secs now tm"
    and "window_tick IP_BLOCK_DUR 30 now c = (True, c')"
  shows "check_ip_blocker now ip pid blk = (True, hput ip (c', ([], now)) blk)"
  using assms by (simp add: check_ip_blocker_def)

end
