(* ===== verification/Ws_Registry.thy ===== *)
theory Ws_Registry
  imports Net
begin

text \<open>
  The registry of websocket peers of \<^verbatim>\<open>src/src/rendezvous_server.rs\<close>: how a message reaches a peer
  that is only connected over a websocket, and the guard that takes a connection's entry back
  out when its task ends. A channel into a task is represented by the serial number of the
  connection; sending on it works while the task runs. \<open>into_v4\<close> stands for
  \<^verbatim>\<open>hbb_common::try_into_v4\<close>.
\<close>

section \<open>Behind a proxy\<close>

text \<open>The address a websocket client is taken to have: what the proxy says it is, if that is an
  address. A header is absent, unreadable, or a text.\<close>

definition real_ip :: "string option option \<Rightarrow> string option option \<Rightarrow> string option" where
  "real_ip x_real_ip x_forwarded_for =
     (case x_real_ip of Some v \<Rightarrow> v | None \<Rightarrow> (case x_forwarded_for of Some v \<Rightarrow> v | None \<Rightarrow> None))"

definition proxied_addr :: "string option \<Rightarrow> sockaddr \<Rightarrow> sockaddr" where
  "proxied_addr ip addr =
     (case ip of
        None \<Rightarrow> addr
      | Some ip \<Rightarrow>
          (case parse_sockaddr (if CHR ''.'' \<in> set ip then ip @ '':0'' else ''['' @ ip @ '']:0'') of
             Some a \<Rightarrow> a
           | None \<Rightarrow> addr))"

section \<open>Operations\<close>

type_synonym conn = nat

record ws_registry =
  ws_peers :: "(sockaddr, conn) hmap"
  ws_tasks :: "(conn \<times> sockaddr) list"
  ws_serial :: nat

definition ws_empty :: ws_registry where
  "ws_empty = \<lparr>ws_peers = [], ws_tasks = [], ws_serial = 0\<rparr>"

text \<open>A connection starts: it takes a serial number, and its guard remembers the address.\<close>

definition ws_accept :: "(sockaddr \<Rightarrow> sockaddr) \<Rightarrow> sockaddr \<Rightarrow> ws_registry \<Rightarrow> conn \<times> ws_registry" where
  "ws_accept into_v4 addr w =
     (ws_serial w, w\<lparr>ws_serial := Suc (ws_serial w), ws_tasks := ws_tasks w @ [(ws_serial w, into_v4 addr)]\<rparr>)"

definition register_ws_peer :: "(sockaddr \<Rightarrow> sockaddr) \<Rightarrow> sockaddr \<Rightarrow> conn \<Rightarrow> ws_registry \<Rightarrow> ws_registry" where
  "register_ws_peer into_v4 addr c w = w\<lparr>ws_peers := hput (into_v4 addr) c (ws_peers w)\<rparr>"

definition push_to_ws_peer :: "(sockaddr \<Rightarrow> sockaddr) \<Rightarrow> sockaddr \<Rightarrow> ws_registry \<Rightarrow> conn option \<times> ws_registry" where
  "push_to_ws_peer into_v4 addr w =
     (case hget (ws_peers w) (into_v4 addr) of
        None \<Rightarrow> (None, w)
      | Some c \<Rightarrow>
          if c \<in> set (map fst (ws_tasks w)) then (Some c, w)
          else (None, w\<lparr>ws_peers := hdel (into_v4 addr) (ws_peers w)\<rparr>))"

definition ws_peer_count :: "ws_registry \<Rightarrow> nat" where
  "ws_peer_count w = hlen (ws_peers w)"

text \<open>A task ends: the guard is dropped first, then the receiving half of the channel.\<close>

definition guard_drop :: "sockaddr \<Rightarrow> conn \<Rightarrow> ws_registry \<Rightarrow> ws_registry" where
  "guard_drop key c w =
     (if hget (ws_peers w) key = Some c then w\<lparr>ws_peers := hdel key (ws_peers w)\<rparr> else w)"

definition ws_end :: "conn \<Rightarrow> sockaddr \<Rightarrow> ws_registry \<Rightarrow> ws_registry" where
  "ws_end c key w =
     (let w1 = guard_drop key c w in w1\<lparr>ws_tasks := filter (\<lambda>(c', _). c' \<noteq> c) (ws_tasks w1)\<rparr>)"

section \<open>The life of the registry\<close>

text \<open>A task registers itself under its own address only; anyone may push.\<close>

inductive ws_step :: "(sockaddr \<Rightarrow> sockaddr) \<Rightarrow> ws_registry \<Rightarrow> ws_registry \<Rightarrow> bool" for into_v4 where
  ws_step_accept: "ws_step into_v4 w (snd (ws_accept into_v4 addr w))"
| ws_step_register: "(c, into_v4 addr) \<in> set (ws_tasks w) \<Longrightarrow> ws_step into_v4 w (register_ws_peer into_v4 addr c w)"
| ws_step_push: "ws_step into_v4 w (snd (push_to_ws_peer into_v4 addr w))"
| ws_step_end: "(c, key) \<in> set (ws_tasks w) \<Longrightarrow> ws_step into_v4 w (ws_end c key w)"

definition ws_reachable :: "(sockaddr \<Rightarrow> sockaddr) \<Rightarrow> ws_registry \<Rightarrow> bool" where
  "ws_reachable into_v4 w \<longleftrightarrow> (ws_step into_v4)\<^sup>*\<^sup>* ws_empty w"

definition ws_wf :: "ws_registry \<Rightarrow> bool" where
  "ws_wf w \<longleftrightarrow>
     hwf (ws_peers w) \<and> distinct (map fst (ws_tasks w)) \<and> (\<forall>(c, a) \<in> set (ws_tasks w). c < ws_serial w) \<and>
     (\<forall>a c. hget (ws_peers w) a = Some c \<longrightarrow> (c, a) \<in> set (ws_tasks w))"

lemma ws_wf_empty: "ws_wf ws_empty"
  by (simp add: ws_wf_def ws_empty_def)

lemma ws_accept_wf [wf_intros]: "ws_wf w \<Longrightarrow> ws_wf (snd (ws_accept into_v4 addr w))"
  by (fastforce simp: ws_wf_def ws_accept_def)

lemma register_wf [wf_intros]:
  "ws_wf w \<Longrightarrow> (c, into_v4 addr) \<in> set (ws_tasks w) \<Longrightarrow> ws_wf (register_ws_peer into_v4 addr c w)"
  by (auto simp: ws_wf_def register_ws_peer_def split: if_splits)

lemma push_alive:
  "ws_wf w \<Longrightarrow> push_to_ws_peer into_v4 addr w = (hget (ws_peers w) (into_v4 addr), w)"
  by (force simp: ws_wf_def push_to_ws_peer_def split: option.split)

lemma ws_end_wf [wf_intros]:
  assumes "ws_wf w" "(c, key) \<in> set (ws_tasks w)"
  shows "ws_wf (ws_end c key w)"
proof -
  let ?peers = "if hget (ws_peers w) key = Some c then hdel key (ws_peers w) else ws_peers w"
  let ?tasks = "filter (\<lambda>(c', _). c' \<noteq> c) (ws_tasks w)"
  have w': "ws_end c key w = \<lparr>ws_peers = ?peers, ws_tasks = ?tasks, ws_serial = ws_serial w\<rparr>"
    by (simp add: ws_end_def guard_drop_def)
  have "distinct (map fst ?tasks)" using assms(1) by (auto simp: ws_wf_def intro: distinct_map_filter)
  moreover have "(c', a) \<in> set ?tasks" if g: "hget ?peers a = Some c'" for a c'
  proof -
    have h: "hget (ws_peers w) a = Some c'" using g by (simp split: if_splits)
    then have t: "(c', a) \<in> set (ws_tasks w)" using assms(1) by (simp add: ws_wf_def)
    have "c' \<noteq> c"
    proof
      assume "c' = c"
      then have "a = key" using t assms eq_key_imp_eq_value [of "ws_tasks w" c] by (auto simp: ws_wf_def)
      with h g \<open>c' = c\<close> show False by simp
    qed
    with t show ?thesis by simp
  qed
  ultimately show ?thesis using assms(1) unfolding w' ws_wf_def by auto
qed

lemma ws_step_wf: "ws_step into_v4 w w' \<Longrightarrow> ws_wf w \<Longrightarrow> ws_wf w'"
  by (induction rule: ws_step.induct) (auto intro: wf_intros simp: push_alive)

interpretation ws: invariant_system "ws_step into_v4" "\<lambda>w. w = ws_empty" ws_wf for into_v4
  by unfold_locales (auto intro: ws_wf_empty ws_step_wf)

lemma ws_reachable_wf: "ws_reachable into_v4 w \<Longrightarrow> ws_wf w"
  unfolding ws_reachable_def by (rule ws.reachable_inv [OF refl])

lemma ws_peers_le_tasks:
  assumes "ws_wf w"
  shows "hlen (ws_peers w) \<le> length (ws_tasks w)"
proof -
  have "set (map (\<lambda>(a, c). (c, a)) (ws_peers w)) \<subseteq> set (ws_tasks w)"
    using assms hget_in_set [of "ws_peers w"] by (auto simp: ws_wf_def)
  moreover have d: "distinct (map (\<lambda>(a, c). (c, a)) (ws_peers w))"
    using assms by (auto simp: ws_wf_def hwf_def distinct_map inj_on_def)
  ultimately have "card (set (map (\<lambda>(a, c). (c, a)) (ws_peers w))) \<le> length (ws_tasks w)"
    by (meson List.finite_set card_length card_mono order_trans)
  then show ?thesis by (simp only: distinct_card [OF d] length_map hlen_def)
qed

section \<open>Properties\<close>

text \<open>
  C33. The registry does not leak: after any sequence of connections, registrations, pushes
  and ends of tasks, every entry is that of a running task under the task's own address, so
  there are never more entries than running tasks, and none once all have ended; pushing to a
  peer finds a running task or no entry, never a stale one.
\<close>

theorem ws_registry_no_leak:
  assumes "ws_reachable into_v4 w"
  shows "(\<forall>a c. hget (ws_peers w) a = Some c \<longrightarrow> (c, a) \<in> set (ws_tasks w)) \<and>
    ws_peer_count w \<le> length (ws_tasks w) \<and>
    push_to_ws_peer into_v4 addr w = (hget (ws_peers w) (into_v4 addr), w)"
  using ws_reachable_wf [OF assms] ws_peers_le_tasks [of w] push_alive [of w into_v4 addr]
  by (auto simp: ws_wf_def ws_peer_count_def)

abbreviation example_peer_addr :: sockaddr where
  "example_peer_addr \<equiv> SocketAddr (v4_of 9 9 9 9) 0"

lemma example_ws_run:
  "ws_reachable (\<lambda>a. a) \<lparr>ws_peers = [(example_peer_addr, 0)], ws_tasks = [(0, example_peer_addr)], ws_serial = 1\<rparr>"
proof -
  let ?w1 = "snd (ws_accept (\<lambda>a. a) example_peer_addr ws_empty)"
  have "ws_step (\<lambda>a. a) ws_empty ?w1" by (rule ws_step_accept)
  moreover have "ws_step (\<lambda>a. a) ?w1 (register_ws_peer (\<lambda>a. a) example_peer_addr 0 ?w1)"
    by (rule ws_step_register) (simp add: ws_accept_def ws_empty_def)
  ultimately have "(ws_step (\<lambda>a. a))\<^sup>*\<^sup>* ws_empty (register_ws_peer (\<lambda>a. a) example_peer_addr 0 ?w1)" by simp
  then show ?thesis
    by (simp add: ws_reachable_def register_ws_peer_def ws_accept_def ws_empty_def hput_def)
qed

theorem ws_registry_no_leak_witness:
  "fst (push_to_ws_peer (\<lambda>a. a) example_peer_addr
     \<lparr>ws_peers = [(example_peer_addr, 0)], ws_tasks = [(0, example_peer_addr)], ws_serial = 1\<rparr>) = Some 0"
  using ws_registry_no_leak [OF example_ws_run, of example_peer_addr] by (simp add: hget_def)

text \<open>
  A reconnect keeps its route: when a new connection has registered under the same key,
  the end of the older one leaves its entry alone, and the end of a connection removes its own
  entry.
\<close>

theorem ws_reconnect_keeps_route:
  assumes "ws_reachable into_v4 w" "(old, into_v4 addr) \<in> set (ws_tasks w)" "(new, into_v4 addr) \<in> set (ws_tasks w)"
    and "old \<noteq> new"
  shows "fst (push_to_ws_peer into_v4 addr (ws_end old (into_v4 addr) (register_ws_peer into_v4 addr new w))) = Some new \<and>
    hget (ws_peers (ws_end new (into_v4 addr) (register_ws_peer into_v4 addr new w))) (into_v4 addr) = None"
proof -
  let ?w = "register_ws_peer into_v4 addr new w"
  have wf: "ws_wf ?w" using ws_reachable_wf [OF assms(1)] assms(3) by (rule register_wf)
  have "ws_wf (ws_end old (into_v4 addr) ?w)"
    using wf assms(2) by (intro ws_end_wf) (simp_all add: register_ws_peer_def)
  then show ?thesis
    using assms(4) by (simp add: push_alive ws_end_def guard_drop_def register_ws_peer_def Let_def)
qed

lemma example_ws_two:
  "ws_reachable (\<lambda>a. a) \<lparr>ws_peers = [(example_peer_addr, 0)],
     ws_tasks = [(0, example_peer_addr), (1, example_peer_addr)], ws_serial = 2\<rparr>"
  using rtranclp.rtrancl_into_rtrancl [OF example_ws_run [unfolded ws_reachable_def] ws_step_accept, of example_peer_addr]
  by (simp add: ws_reachable_def ws_accept_def numeral_2_eq_2)

theorem ws_reconnect_keeps_route_witness:
  "fst (push_to_ws_peer (\<lambda>a. a) example_peer_addr (ws_end 0 example_peer_addr
     (register_ws_peer (\<lambda>a. a) example_peer_addr 1
       \<lparr>ws_peers = [(example_peer_addr, 0)],
        ws_tasks = [(0, example_peer_addr), (1, example_peer_addr)], ws_serial = 2\<rparr>))) = Some 1"
  using ws_reconnect_keeps_route [OF example_ws_two, of 0 example_peer_addr 1] by simp

end
