(* ===== verification/Jwt.thy ===== *)
theory Jwt
  imports Rust_Str
begin

text \<open>
  Login tokens, \<^verbatim>\<open>src/src/jwt.rs\<close>. The encoding and its check (\<^verbatim>\<open>jsonwebtoken\<close>, HS256 with the
  shared secret, expiry with a leeway) are parameters; the additional check of the expiry
  against the clock is the module's own. The clock is in seconds.
\<close>

record claims =
  cl_user_id :: "32 word"
  cl_exp :: u64

record jwt_ops =
  jw_secret :: string
  jw_encode :: "string \<Rightarrow> claims \<Rightarrow> string option"
  jw_decode :: "string \<Rightarrow> nat \<Rightarrow> string \<Rightarrow> claims option"

datatype token_error = TokenExpired | TokenInvalid

definition generate_token :: "jwt_ops \<Rightarrow> int \<Rightarrow> 32 word \<Rightarrow> int \<Rightarrow> string option" where
  "generate_token jw now user_id expires =
     jw_encode jw (jw_secret jw) \<lparr>cl_user_id = user_id, cl_exp = word_of_int (now + expires)\<rparr>"

definition verify_token :: "jwt_ops \<Rightarrow> nat \<Rightarrow> string \<Rightarrow> token_error + claims" where
  "verify_token jw now token =
     (case jw_decode jw (jw_secret jw) now token of
        Some c \<Rightarrow> if of_nat now < cl_exp c then Inr c else Inl TokenExpired
      | None \<Rightarrow> Inl TokenInvalid)"

lemma verify_token_sound:
  assumes "verify_token jw now token = Inr c"
  shows "jw_decode jw (jw_secret jw) now token = Some c" "of_nat now < cl_exp c"
  using assms by (auto simp: verify_token_def split: option.splits if_splits)

text \<open>What the module relies on of the crate: a token it made with a secret is read back under
  that secret as the claims it was made from, at least while it has not expired, and under no
  other secret.\<close>

definition jwt_laws :: "jwt_ops \<Rightarrow> bool" where
  "jwt_laws jw \<longleftrightarrow>
     (\<forall>s c t now. jw_encode jw s c = Some t \<longrightarrow>
        (of_nat now \<le> cl_exp c \<longrightarrow> jw_decode jw s now t = Some c) \<and>
        jw_decode jw s now t \<in> {None, Some c} \<and>
        (\<forall>s'. s' \<noteq> s \<longrightarrow> jw_decode jw s' now t = None))"

section \<open>Properties\<close>

text \<open>
  Login tokens: a token made for a number of seconds is accepted, with its claims, at
  every moment before it expires, and at no later one, not even within the leeway of the
  library; a token made with another secret is never accepted.
\<close>

theorem token_accepted_until_expiry:
  assumes "jwt_laws jw" "generate_token jw (int made) user secs = Some t"
    and "0 \<le> secs" "int made + secs < 2 ^ 64" "now < 2 ^ 64"
  shows "(if int now < int made + secs
      then verify_token jw now t = Inr \<lparr>cl_user_id = user, cl_exp = word_of_int (int made + secs)\<rparr>
      else (\<exists>e. verify_token jw now t = Inl e)) \<and>
    (s' = jw_secret jw \<or> verify_token (jw\<lparr>jw_secret := s'\<rparr>) now t = Inl TokenInvalid)"
proof -
  define e :: u64 where "e = word_of_int (int made + secs)"
  let ?c = "\<lparr>cl_user_id = user, cl_exp = e\<rparr>"
  have enc: "jw_encode jw (jw_secret jw) ?c = Some t" using assms(2) by (simp add: generate_token_def e_def)
  have "uint e = int made + secs"
    unfolding e_def using assms(3,4) by (subst uint_word_of_int_eq) (simp add: take_bit_int_eq_self)
  moreover have "uint (of_nat now :: u64) = int now"
    using assms(5) by (simp add: unsigned_of_nat take_bit_nat_eq_self)
  ultimately have lt: "(of_nat now :: u64) < e \<longleftrightarrow> int now < int made + secs"
    by (simp add: word_less_def)
  have decode: "of_nat now \<le> e \<Longrightarrow> jw_decode jw (jw_secret jw) now t = Some ?c"
      "jw_decode jw (jw_secret jw) now t = None \<or> jw_decode jw (jw_secret jw) now t = Some ?c"
      "s' \<noteq> jw_secret jw \<Longrightarrow> jw_decode jw s' now t = None"
    using assms(1) enc unfolding jwt_laws_def by (auto dest!: spec)
  have "verify_token jw now t = Inr ?c" if "int now < int made + secs"
    using decode(1) that lt by (simp add: verify_token_def)
  moreover have "\<exists>x. verify_token jw now t = Inl x" if "\<not> int now < int made + secs"
    using decode(2) that lt by (auto simp: verify_token_def)
  moreover have "s' = jw_secret jw \<or> verify_token (jw\<lparr>jw_secret := s'\<rparr>) now t = Inl TokenInvalid"
    using decode(3) by (cases "s' = jw_secret jw") (simp_all add: verify_token_def)
  ultimately show ?thesis unfolding e_def by simp
qed

text \<open>An instance of the library for the witness: the token is the claims themselves next to the
  secret.\<close>

definition example_jwt :: jwt_ops where
  "example_jwt =
     \<lparr>jw_secret = ''k'',
      jw_encode = (\<lambda>s c. if CHR '':'' \<in> set s then None
        else Some (s @ '':'' @ show_nat (unat (cl_user_id c)) @ '':'' @ show_nat (unat (cl_exp c)))),
      jw_decode = (\<lambda>s now t. case split_char (CHR '':'') t of
        [s', u, e] \<Rightarrow> if s' = s then Some \<lparr>cl_user_id = of_nat (the (parse_digits u)), cl_exp = of_nat (the (parse_digits e))\<rparr> else None
      | _ \<Rightarrow> None)\<rparr>"

lemma show_nat_no_colon: "CHR '':'' \<notin> set (show_nat n)"
  using show_nat_digits [of "CHR '':''" n] by auto

lemma example_jwt_decode:
  assumes "CHR '':'' \<notin> set s"
  shows "split_char (CHR '':'') (s @ '':'' @ show_nat u @ '':'' @ show_nat e) = [s, show_nat u, show_nat e]"
proof -
  have piece: "split_on (\<lambda>x. x = CHR '':'') (p @ CHR '':'' # rest) = p # split_on (\<lambda>x. x = CHR '':'') rest"
    if "CHR '':'' \<notin> set p" for p rest
    using that by (intro split_on_append_sep) auto
  have "split_on (\<lambda>x. x = CHR '':'') (show_nat e) = [show_nat e]"
    using show_nat_no_colon [of e] by (intro split_on_id) auto
  with piece [OF assms] piece [OF show_nat_no_colon [of u]] show ?thesis by (simp add: split_char_def)
qed

lemma example_jwt_laws: "jwt_laws example_jwt"
proof -
  have "jw_decode example_jwt s' now t = (if s' = s then Some c else None)"
    if "jw_encode example_jwt s c = Some t" for s s' c t now
    using that example_jwt_decode [of s "unat (cl_user_id c)" "unat (cl_exp c)"]
    by (simp add: example_jwt_def split: if_splits)
  then show ?thesis unfolding jwt_laws_def by simp
qed

theorem token_accepted_until_expiry_witness:
  "verify_token example_jwt 109 ''k:7:110'' = Inr \<lparr>cl_user_id = 7, cl_exp = 110\<rparr> \<and>
   (\<exists>e. verify_token example_jwt 110 ''k:7:110'' = Inl e)"
proof -
  have "generate_token example_jwt (int 100) 7 10 = Some ''k:7:110''"
    by (simp add: generate_token_def example_jwt_def text_eval)
  from token_accepted_until_expiry [OF example_jwt_laws this, of 109] token_accepted_until_expiry [OF example_jwt_laws this, of 110]
  show ?thesis by simp
qed

end
