(* ===== verification/Rendezvous.thy ===== *)
theory Rendezvous
  imports Relay_Select Rate_Limits Ws_Registry Jwt
begin

text \<open>
  The rendezvous server, \<^verbatim>\<open>src/src/rendezvous_server.rs\<close>: its messages, its state, and a handler for
  every message it takes over UDP, TCP and websockets. A handler takes the surroundings, the
  inputs of its step (clock, availability of the database, a new guid) and the configuration of
  the clone of the server it runs on, and returns its result, what it sends, and the new
  shared state. The wire format, the mangling of addresses and the signature of a peer's key
  (\<^verbatim>\<open>hbb_common\<close>, \<^verbatim>\<open>sodiumoxide\<close>) are parameters.
\<close>

section \<open>Messages\<close>

datatype nat_type = UNKNOWN_NAT | ASYMMETRIC | SYMMETRIC | NatOther int

datatype failure = ID_NOT_EXIST | OFFLINE | LICENSE_MISMATCH

record punch_hole_request =
  ph_id :: string
  ph_nat_type :: nat_type
  ph_licence_key :: string
  ph_token :: string

record punch_hole_response =
  phr_socket_addr :: bytes
  phr_pk :: bytes
  phr_relay_server :: string
  phr_failure :: "failure option"
  phr_nat_type :: "nat_type option"
  phr_is_local :: bool
  phr_other_failure :: string

record punch_hole_sent =
  phs_socket_addr :: bytes
  phs_id :: string
  phs_relay_server :: string
  phs_nat_type :: nat_type
  phs_version :: string

record local_addr_msg =
  la_socket_addr :: bytes
  la_local_addr :: bytes
  la_relay_server :: string
  la_id :: string
  la_version :: string

text \<open>The fields of a relay request and of a relay response that the server does not look at are
  kept together; the id and the key of a response share one field.\<close>

record request_relay =
  rf_id :: string
  rf_socket_addr :: bytes
  rf_rest :: bytes

datatype rr_union = RrNone | RrId string | RrPk bytes

record relay_response =
  rr_socket_addr :: bytes
  rr_relay_server :: string
  rr_version :: string
  rr_union :: rr_union
  rr_rest :: bytes

datatype rmsg =
    RegisterPeer string int
  | RegisterPeerResponse bool
  | RegisterPk string bytes bytes
  | RegisterPkResponse reg_result
  | PunchHoleRequest punch_hole_request
  | PunchHole bytes nat_type string
  | PunchHoleSent punch_hole_sent
  | PunchHoleResponse punch_hole_response
  | FetchLocalAddr bytes string
  | LocalAddr local_addr_msg
  | RequestRelay request_relay
  | RelayResponse relay_response
  | TestNatRequest int
  | TestNatResponse nat "(int \<times> string list) option"
  | ConfigureUpdate int "string list"
  | SoftwareUpdate string
  | OnlineRequest "string list"
  | OnlineResponse bytes
  | KeyExchange "bytes list"
  | OtherMessage

definition empty_response :: punch_hole_response where
  "empty_response = \<lparr>phr_socket_addr = [], phr_pk = [], phr_relay_server = [], phr_failure = None,
     phr_nat_type = None, phr_is_local = False, phr_other_failure = []\<rparr>"

section \<open>State\<close>

text \<open>The write half of a connection, by the number of the connection. A sink is moved from
  its connection into \<open>sv_tcp_punch\<close> when the answer may come from elsewhere.\<close>

datatype sink = TcpSink nat | WsSink conn

datatype outcome =
    ToUdp rmsg sockaddr
  | ToSink sink rmsg
  | PushWs conn rmsg
  | QueueUdp rmsg sockaddr
  | QueueRelays0 string

record 'n server =
  sv_tcp_punch :: "(sockaddr, sink) hmap"
  sv_pm :: peer_map
  sv_relays :: "'n selector"
  sv_ws :: ws_registry
  sv_blocker :: ip_blocker
  sv_ip_changes :: ip_changes
  sv_punch_reqs :: "punch_req list"
  sv_always_use_relay :: bool
  sv_must_login :: bool

text \<open>What each clone of the server has for itself.\<close>

record conf =
  cf_serial :: int
  cf_version :: string
  cf_software_url :: string
  cf_mask :: "(32 word \<Rightarrow> bool) option"
  cf_local_ip :: string
  cf_sk :: "bytes option"
  cf_rendezvous_servers :: "string list"
  cf_relay_servers0 :: "string list"

record 'n surroundings =
  su_sel :: "'n sel_env"
  su_parse :: "bytes \<Rightarrow> rmsg option"
  su_into_v4 :: "sockaddr \<Rightarrow> sockaddr"
  su_mangle :: "sockaddr \<Rightarrow> bytes"
  su_unmangle :: "bytes \<Rightarrow> sockaddr"
  su_sign_pk :: "bytes \<Rightarrow> string \<Rightarrow> bytes \<Rightarrow> bytes"
  su_jwt :: jwt_ops
  su_serde :: serde
  su_resolve :: "string \<Rightarrow> sockaddr list option"
  su_punch_max :: nat

record inputs =
  in_now :: instant
  in_utc :: nat
  in_db_up :: bool
  in_guid :: bytes

definition REG_TIMEOUT :: nat where
  "REG_TIMEOUT = 30000"

section \<open>Helpers\<close>

definition is_lan :: "conf \<Rightarrow> sockaddr \<Rightarrow> bool" where
  "is_lan cf addr =
     (case cf_mask cf of
        None \<Rightarrow> False
      | Some contains \<Rightarrow>
          (case sa_ip addr of
             V4 a \<Rightarrow> contains a
           | V6 a \<Rightarrow> (case v6_to_ipv4 a of Some v4 \<Rightarrow> contains v4 | None \<Rightarrow> False)))"

definition get_relay_server ::
  "'n surroundings \<Rightarrow> inputs \<Rightarrow> ipaddr \<Rightarrow> ipaddr \<Rightarrow> 'n server \<Rightarrow> string \<times> 'n server" where
  "get_relay_server su i pa pb sv =
     (let (p, sel) = pick (su_sel su) (in_now i) pa pb True (sv_relays sv)
      in (pick_relay p, sv\<lparr>sv_relays := sel\<rparr>))"

definition parse_relay_servers ::
  "'n surroundings \<Rightarrow> string \<Rightarrow> conf \<Rightarrow> 'n server \<Rightarrow> conf \<times> 'n server" where
  "parse_relay_servers su text cf sv =
     (let (rs, dropped) = parse_relay_list (se_relay_port (su_sel su)) text
      in (cf\<lparr>cf_relay_servers0 := rs\<rparr>, sv\<lparr>sv_relays := set_live rs (sv_relays sv)\<rparr>))"

definition get_pk ::
  "'n surroundings \<Rightarrow> inputs \<Rightarrow> conf \<Rightarrow> string \<Rightarrow> string \<Rightarrow> 'n server \<Rightarrow> bytes \<times> 'n server" where
  "get_pk su i cf version pid sv =
     (case cf_sk cf of
        None \<Rightarrow> ([], sv)
      | Some sk \<Rightarrow>
          if version = [] then ([], sv)
          else (case pm_get (su_serde su) (in_now i) (in_db_up i) pid (sv_pm sv) of
                  (Some p, pm) \<Rightarrow> (su_sign_pk su sk pid (pk p), sv\<lparr>sv_pm := pm\<rparr>)
                | (None, pm) \<Rightarrow> ([], sv\<lparr>sv_pm := pm\<rparr>)))"

text \<open>Pushing over a websocket, and sending to wherever the route to an address is; a sink taken
  out of the map is used once and dropped.\<close>

definition push_ws :: "'n surroundings \<Rightarrow> sockaddr \<Rightarrow> 'n server \<Rightarrow> conn option \<times> 'n server" where
  "push_ws su addr sv =
     (let (c, w) = push_to_ws_peer (su_into_v4 su) addr (sv_ws sv) in (c, sv\<lparr>sv_ws := w\<rparr>))"

definition send_to_tcp :: "'n surroundings \<Rightarrow> rmsg \<Rightarrow> sockaddr \<Rightarrow> 'n server \<Rightarrow> outcome list \<times> 'n server" where
  "send_to_tcp su m addr sv =
     (case push_ws su addr sv of
        (Some c, sv') \<Rightarrow> ([PushWs c m], sv')
      | (None, sv') \<Rightarrow>
          (let key = su_into_v4 su addr; tcp = hget (sv_tcp_punch sv') key
           in ((case tcp of Some s \<Rightarrow> [ToSink s m] | None \<Rightarrow> []),
               sv'\<lparr>sv_tcp_punch := hdel key (sv_tcp_punch sv')\<rparr>)))"

definition send_to_sink :: "sink option \<Rightarrow> rmsg \<Rightarrow> outcome list" where
  "send_to_sink s m = (case s of Some s \<Rightarrow> [ToSink s m] | None \<Rightarrow> [])"

definition send_to_tcp_sync :: "'n surroundings \<Rightarrow> rmsg \<Rightarrow> sockaddr \<Rightarrow> 'n server \<Rightarrow> outcome list \<times> 'n server" where
  "send_to_tcp_sync su m addr sv =
     (case push_ws su addr sv of
        (Some c, sv') \<Rightarrow> ([PushWs c m], sv')
      | (None, sv') \<Rightarrow>
          (let key = su_into_v4 su addr; s = hget (sv_tcp_punch sv') key
           in (send_to_sink s m, sv'\<lparr>sv_tcp_punch := hdel key (sv_tcp_punch sv')\<rparr>)))"

text \<open>Waiting for the message to be sent or not, the same is sent to the same place.\<close>

lemma send_to_tcp_sync_same [simp]: "send_to_tcp_sync su m addr sv = send_to_tcp su m addr sv"
  by (simp add: send_to_tcp_sync_def send_to_tcp_def send_to_sink_def split: option.split prod.split)

definition send_rk_res :: "sockaddr \<Rightarrow> reg_result \<Rightarrow> outcome" where
  [simp]: "send_rk_res addr res = ToUdp (RegisterPkResponse res) addr"

section \<open>Registration\<close>

definition update_addr ::
  "'n surroundings \<Rightarrow> inputs \<Rightarrow> string \<Rightarrow> sockaddr \<Rightarrow> 'n server \<Rightarrow> bool \<times> 'n server" where
  "update_addr su i pid addr sv =
     (case get_in_memory (sv_pm sv) pid of
        None \<Rightarrow> (True, sv)
      | Some old \<Rightarrow>
          (let ip = sa_ip addr;
               ip_change = (if sa_port (socket_addr old) \<noteq> 0 then ip \<noteq> sa_ip (socket_addr old)
                            else show_ip ip \<noteq> info_ip old) \<and> \<not> is_loopback ip;
               request_pk = (pk old = [] \<or> ip_change)
           in (request_pk,
               if request_pk then sv
               else sv\<lparr>sv_pm := pm_write pid (old\<lparr>socket_addr := addr, last_reg_time := in_now i\<rparr>) (sv_pm sv)\<rparr>)))"

text \<open>Is the registration of a key for a known peer a change, and a change of address? Nothing
  when it must be refused.\<close>

definition compare_registration :: "peer \<Rightarrow> bytes \<Rightarrow> bytes \<Rightarrow> string \<Rightarrow> (bool \<times> bool) option" where
  "compare_registration p new_uuid new_pk ip =
     (if uuid p = [] then Some (True, False)
      else if uuid p = new_uuid then
        (if info_ip p \<noteq> ip \<and> pk p \<noteq> new_pk then None
         else Some (uuid p \<noteq> new_uuid \<or> pk p \<noteq> new_pk \<or> info_ip p \<noteq> ip, info_ip p \<noteq> ip))
      else None)"

definition handle_register_pk ::
  "'n surroundings \<Rightarrow> inputs \<Rightarrow> string \<Rightarrow> bytes \<Rightarrow> bytes \<Rightarrow> sockaddr \<Rightarrow> bool \<Rightarrow> 'n server
   \<Rightarrow> reg_result option \<times> 'n server" where
  "handle_register_pk su i pid new_uuid new_pk addr ws sv =
     (if new_uuid = [] \<or> new_pk = [] then (None, sv)
      else
        (let ip = show_ip (sa_ip addr)
         in if length pid < 6 \<or> MAX_PEER_ID_LEN < length pid then (Some UUID_MISMATCH, sv)
            else
              (case check_ip_blocker (in_now i) ip pid (sv_blocker sv) of
                 (False, blk) \<Rightarrow> (Some TOO_FREQUENT, sv\<lparr>sv_blocker := blk\<rparr>)
               | (True, blk) \<Rightarrow>
                   (let (p, pm1) = pm_get_or (su_serde su) (in_now i) (in_db_up i) pid (sv_pm sv);
                        sv1 = sv\<lparr>sv_blocker := blk, sv_pm := pm1\<rparr>
                    in case compare_registration p new_uuid new_pk ip of
                         None \<Rightarrow> (Some UUID_MISMATCH, sv1)
                       | Some (changed, ip_changed) \<Rightarrow>
                           (case reg_pk_tick (in_now i) p of
                              (False, _) \<Rightarrow> (Some TOO_FREQUENT, sv1)
                            | (True, p') \<Rightarrow>
                                (let sv2 = sv1\<lparr>sv_pm := pm_write pid p' pm1,
                                       sv_ip_changes := (if ip_changed
                                         then record_ip_change (in_now i) pid ip (sv_ip_changes sv)
                                         else sv_ip_changes sv)\<rparr>
                                 in (Some OK,
                                     if changed \<or> ws
                                     then sv2\<lparr>sv_pm := snd (pm_update_pk (su_serde su) (in_now i) (in_db_up i)
                                            (in_guid i) pid p' addr new_uuid new_pk ip (sv_pm sv2))\<rparr>
                                     else sv2)))))))"

definition peers_online_bits :: "inputs \<Rightarrow> peer_map \<Rightarrow> string list \<Rightarrow> bool list" where
  "peers_online_bits i pm peers =
     map (\<lambda>pid. case get_in_memory pm pid of
            None \<Rightarrow> False
          | Some p \<Rightarrow> elapsed_millis (in_now i) (last_reg_time p) < REG_TIMEOUT) peers"

text \<open>\<^verbatim>\<open>peers_online_state\<close>: one bit per peer, from the most significant bit of the first byte on.\<close>

fun set_states :: "nat \<Rightarrow> bool list \<Rightarrow> bytes \<Rightarrow> bytes" where
  "set_states k [] states = states"
| "set_states k (b # bs) states =
     set_states (Suc k) bs
       (if b then states[k div 8 := states ! (k div 8) OR push_bit (7 - k mod 8) 1] else states)"

definition peers_online_state :: "inputs \<Rightarrow> peer_map \<Rightarrow> string list \<Rightarrow> bytes" where
  "peers_online_state i pm peers =
     set_states 0 (peers_online_bits i pm peers) (replicate ((length peers + 7) div 8) 0)"

section \<open>Punching holes\<close>

text \<open>Why a request is refused before the peer is looked for.\<close>

definition refuse_punch :: "'n surroundings \<Rightarrow> inputs \<Rightarrow> string \<Rightarrow> bool \<Rightarrow> punch_hole_request \<Rightarrow> punch_hole_response option" where
  "refuse_punch su i key must_login ph =
     (if key \<noteq> [] \<and> ph_licence_key ph \<noteq> key then Some (empty_response\<lparr>phr_failure := Some LICENSE_MISMATCH\<rparr>)
      else if must_login \<and> ph_token ph = [] then
        Some (empty_response\<lparr>phr_other_failure := ''Connection failed, please login!''\<rparr>)
      else if must_login \<and> jw_secret (su_jwt su) \<noteq> [] \<and> isl (verify_token (su_jwt su) (in_utc i) (ph_token ph)) then
        Some (empty_response\<lparr>phr_other_failure := ''Token error, please log out and log back in!''\<rparr>)
      else None)"

definition same_kind_and_ip :: "sockaddr \<Rightarrow> sockaddr \<Rightarrow> bool" where
  "same_kind_and_ip a b = (sa_ip a = sa_ip b)"

definition handle_punch_hole_request ::
  "'n surroundings \<Rightarrow> inputs \<Rightarrow> conf \<Rightarrow> sockaddr \<Rightarrow> punch_hole_request \<Rightarrow> string \<Rightarrow> bool \<Rightarrow> 'n server
   \<Rightarrow> (rmsg \<times> sockaddr option) \<times> 'n server" where
  "handle_punch_hole_request su i cf addr ph key ws sv =
     (case refuse_punch su i key (sv_must_login sv) ph of
        Some r \<Rightarrow> ((PunchHoleResponse r, None), sv)
      | None \<Rightarrow>
          (case pm_get (su_serde su) (in_now i) (in_db_up i) (ph_id ph) (sv_pm sv) of
             (None, pm) \<Rightarrow>
               ((PunchHoleResponse (empty_response\<lparr>phr_failure := Some ID_NOT_EXIST\<rparr>), None), sv\<lparr>sv_pm := pm\<rparr>)
           | (Some p, pm) \<Rightarrow>
               if REG_TIMEOUT \<le> elapsed_millis (in_now i) (last_reg_time p) then
                 ((PunchHoleResponse (empty_response\<lparr>phr_failure := Some OFFLINE\<rparr>), None), sv\<lparr>sv_pm := pm\<rparr>)
               else
                 (let peer_addr = socket_addr p;
                      reqs = record_punch_req (su_punch_max su) (in_now i)
                               (show_ip (sa_ip (su_into_v4 su addr))) (show_ip (sa_ip (su_into_v4 su peer_addr)))
                               (ph_id ph) (sv_punch_reqs sv);
                      peer_is_lan = is_lan cf peer_addr; addr_is_lan = is_lan cf addr;
                      (relay, sv1) = get_relay_server su i (sa_ip addr) (sa_ip peer_addr)
                                       (sv\<lparr>sv_pm := pm, sv_punch_reqs := reqs\<rparr>);
                      force = sv_always_use_relay sv \<or> peer_is_lan \<noteq> addr_is_lan;
                      relay_server = (if force \<and> peer_is_lan then cf_local_ip cf else relay);
                      nat = (if force then SYMMETRIC else ph_nat_type ph);
                      same_intranet = (\<not> ws \<and> (peer_is_lan \<and> addr_is_lan \<or> same_kind_and_ip peer_addr addr))
                  in ((if same_intranet then FetchLocalAddr (su_mangle su addr) relay_server
                       else PunchHole (su_mangle su addr) nat relay_server, Some peer_addr), sv1))))"

definition handle_tcp_punch_hole_request ::
  "'n surroundings \<Rightarrow> inputs \<Rightarrow> conf \<Rightarrow> sockaddr \<Rightarrow> punch_hole_request \<Rightarrow> string \<Rightarrow> bool \<Rightarrow> 'n server
   \<Rightarrow> outcome list \<times> 'n server" where
  "handle_tcp_punch_hole_request su i cf addr ph key ws sv =
     (case handle_punch_hole_request su i cf addr ph key ws sv of
        ((m, Some to), sv1) \<Rightarrow>
          (case push_ws su to sv1 of
             (Some c, sv2) \<Rightarrow> ([PushWs c m], sv2)
           | (None, sv2) \<Rightarrow> ([QueueUdp m to], sv2))
      | ((m, None), sv1) \<Rightarrow> send_to_tcp_sync su m addr sv1)"

definition handle_udp_punch_hole_request ::
  "'n surroundings \<Rightarrow> inputs \<Rightarrow> conf \<Rightarrow> sockaddr \<Rightarrow> punch_hole_request \<Rightarrow> string \<Rightarrow> 'n server
   \<Rightarrow> outcome list \<times> 'n server" where
  "handle_udp_punch_hole_request su i cf addr ph key sv =
     (case handle_punch_hole_request su i cf addr ph key False sv of
        ((m, to), sv1) \<Rightarrow> ([QueueUdp m (case to of Some a \<Rightarrow> a | None \<Rightarrow> addr)], sv1))"

definition enum_value :: "nat_type \<Rightarrow> nat_type option" where
  "enum_value t = (case t of NatOther _ \<Rightarrow> None | _ \<Rightarrow> Some t)"

text \<open>The two answers of the peer are only taken over TCP and websockets, so they are always sent
  by \<^verbatim>\<open>send_to_tcp\<close>.\<close>

definition handle_hole_sent ::
  "'n surroundings \<Rightarrow> inputs \<Rightarrow> conf \<Rightarrow> punch_hole_sent \<Rightarrow> sockaddr \<Rightarrow> 'n server \<Rightarrow> outcome list \<times> 'n server" where
  "handle_hole_sent su i cf phs addr sv =
     (let addr_a = su_unmangle su (phs_socket_addr phs);
          (key, sv1) = get_pk su i cf (phs_version phs) (phs_id phs) sv
      in send_to_tcp su (PunchHoleResponse (empty_response\<lparr>phr_socket_addr := su_mangle su addr, phr_pk := key,
             phr_relay_server := phs_relay_server phs, phr_nat_type := enum_value (phs_nat_type phs)\<rparr>)) addr_a sv1)"

definition handle_local_addr ::
  "'n surroundings \<Rightarrow> inputs \<Rightarrow> conf \<Rightarrow> local_addr_msg \<Rightarrow> 'n server \<Rightarrow> outcome list \<times> 'n server" where
  "handle_local_addr su i cf la sv =
     (let addr_a = su_unmangle su (la_socket_addr la);
          (key, sv1) = get_pk su i cf (la_version la) (la_id la) sv
      in send_to_tcp su (PunchHoleResponse (empty_response\<lparr>phr_socket_addr := la_local_addr la, phr_pk := key,
             phr_relay_server := la_relay_server la, phr_is_local := True\<rparr>)) addr_a sv1)"

text \<open>A relay response on its way back: the signed key in place of the id, and a relay that the
  other end can reach in place of the address within the local network.\<close>

definition fill_pk ::
  "'n surroundings \<Rightarrow> inputs \<Rightarrow> conf \<Rightarrow> relay_response \<Rightarrow> 'n server \<Rightarrow> relay_response \<times> 'n server" where
  "fill_pk su i cf rr sv =
     (case rr_union rr of
        RrId pid \<Rightarrow>
          if pid = [] then (rr, sv)
          else (let (key, sv1) = get_pk su i cf (rr_version rr) pid sv in (rr\<lparr>rr_union := RrPk key\<rparr>, sv1))
      | _ \<Rightarrow> (rr, sv))"

definition fill_relay ::
  "'n surroundings \<Rightarrow> inputs \<Rightarrow> conf \<Rightarrow> sockaddr \<Rightarrow> sockaddr \<Rightarrow> relay_response \<Rightarrow> 'n server
   \<Rightarrow> relay_response \<times> 'n server" where
  "fill_relay su i cf addr addr_b rr sv =
     (if rr_relay_server rr = [] then (rr, sv)
      else if is_lan cf addr_b then (rr\<lparr>rr_relay_server := cf_local_ip cf\<rparr>, sv)
      else if rr_relay_server rr = cf_local_ip cf then
        (let (relay, sv1) = get_relay_server su i (sa_ip addr) (sa_ip addr_b) sv
         in (rr\<lparr>rr_relay_server := relay\<rparr>, sv1))
      else (rr, sv))"

definition handle_relay_response ::
  "'n surroundings \<Rightarrow> inputs \<Rightarrow> conf \<Rightarrow> relay_response \<Rightarrow> sockaddr \<Rightarrow> 'n server \<Rightarrow> outcome list \<times> 'n server" where
  "handle_relay_response su i cf rr addr sv =
     (let addr_b = su_unmangle su (rr_socket_addr rr);
          (rr1, sv1) = fill_pk su i cf (rr\<lparr>rr_socket_addr := []\<rparr>) sv;
          (rr2, sv2) = fill_relay su i cf addr addr_b rr1 sv1
      in send_to_tcp_sync su (RelayResponse rr2) addr_b sv2)"

section \<open>The handlers of the transports\<close>

text \<open>A registration over any transport: the answer, and the configuration if it is newer.\<close>

definition config_update :: "conf \<Rightarrow> int \<Rightarrow> rmsg list" where
  "config_update cf serial =
     (if serial < cf_serial cf then [ConfigureUpdate (cf_serial cf) (cf_rendezvous_servers cf)] else [])"

definition valid_peer_id :: "string \<Rightarrow> bool" where
  "valid_peer_id pid \<longleftrightarrow> pid \<noteq> [] \<and> length pid \<le> MAX_PEER_ID_LEN"

text \<open>\<^verbatim>\<open>handle_udp\<close>, with the configuration of the main task, which it may replace.\<close>

definition handle_udp ::
  "'n surroundings \<Rightarrow> inputs \<Rightarrow> bytes \<Rightarrow> sockaddr \<Rightarrow> conf \<Rightarrow> 'n server \<Rightarrow> outcome list \<times> conf \<times> 'n server" where
  "handle_udp su i data addr cf sv =
     (case su_parse su data of
        Some (RegisterPeer pid serial) \<Rightarrow>
          if valid_peer_id pid then
            (let (request_pk, sv1) = update_addr su i pid addr sv
             in (map (\<lambda>m. ToUdp m addr) (RegisterPeerResponse request_pk # config_update cf serial), cf, sv1))
          else ([], cf, sv)
      | Some (RegisterPk pid new_uuid new_pk) \<Rightarrow>
          (case handle_register_pk su i pid new_uuid new_pk addr False sv of
             (Some res, sv1) \<Rightarrow> ([send_rk_res addr res], cf, sv1)
           | (None, sv1) \<Rightarrow> ([], cf, sv1))
      | Some (ConfigureUpdate serial servers) \<Rightarrow>
          if is_loopback (sa_ip (su_into_v4 su addr)) \<and> cf_serial cf < serial then
            ([], cf\<lparr>cf_serial := serial, cf_rendezvous_servers :=
                      filter (\<lambda>x. x \<noteq> [] \<and> test_if_valid_server (su_resolve su) x \<noteq> None) servers\<rparr>, sv)
          else ([], cf, sv)
      | Some (SoftwareUpdate url) \<Rightarrow>
          if cf_version cf \<noteq> [] \<and> url \<noteq> cf_version cf then
            ([ToUdp (SoftwareUpdate (cf_software_url cf)) addr], cf, sv)
          else ([], cf, sv)
      | _ \<Rightarrow> ([], cf, sv))"

text \<open>Keeping a route back to the connection: the registry for a websocket, the moved sink for
  plain TCP.\<close>

definition keep_route ::
  "'n surroundings \<Rightarrow> sockaddr \<Rightarrow> conn option \<Rightarrow> sink option \<Rightarrow> 'n server \<Rightarrow> sink option \<times> 'n server" where
  "keep_route su addr ws_conn s sv =
     (case ws_conn of
        Some c \<Rightarrow> (s, sv\<lparr>sv_ws := register_ws_peer (su_into_v4 su) addr c (sv_ws sv)\<rparr>)
      | None \<Rightarrow>
          (case s of
             Some k \<Rightarrow> (None, sv\<lparr>sv_tcp_punch := hput (su_into_v4 su addr) k (sv_tcp_punch sv)\<rparr>)
           | None \<Rightarrow> (None, sv)))"

definition register_conn :: "'n surroundings \<Rightarrow> sockaddr \<Rightarrow> conn option \<Rightarrow> 'n server \<Rightarrow> 'n server" where
  "register_conn su addr ws_conn sv =
     (case ws_conn of
        Some c \<Rightarrow> sv\<lparr>sv_ws := register_ws_peer (su_into_v4 su) addr c (sv_ws sv)\<rparr>
      | None \<Rightarrow> sv)"

text \<open>\<^verbatim>\<open>handle_tcp\<close>: whether the connection stays open, what is sent, the sink that remains with
  the connection, and the new state.\<close>

definition handle_tcp ::
  "'n surroundings \<Rightarrow> inputs \<Rightarrow> conf \<Rightarrow> bytes \<Rightarrow> sink option \<Rightarrow> sockaddr \<Rightarrow> string \<Rightarrow> bool \<Rightarrow> conn option \<Rightarrow> 'n server
   \<Rightarrow> bool \<times> outcome list \<times> sink option \<times> 'n server" where
  "handle_tcp su i cf data s addr key ws ws_conn sv =
     (case su_parse su data of
        Some (PunchHoleRequest ph) \<Rightarrow>
          (let (s1, sv1) = keep_route su addr ws_conn s sv;
               (outs, sv2) = handle_tcp_punch_hole_request su i cf addr ph key ws sv1
           in (True, outs, s1, sv2))
      | Some (RequestRelay rf) \<Rightarrow>
          (let (s1, sv1) = keep_route su addr ws_conn s sv
           in case get_in_memory (sv_pm sv1) (rf_id rf) of
                None \<Rightarrow> (True, [], s1, sv1)
              | Some p \<Rightarrow>
                  (let m = RequestRelay (rf\<lparr>rf_socket_addr := su_mangle su addr\<rparr>)
                   in case push_ws su (socket_addr p) sv1 of
                        (Some c, sv2) \<Rightarrow> (True, [PushWs c m], s1, sv2)
                      | (None, sv2) \<Rightarrow> (True, [QueueUdp m (socket_addr p)], s1, sv2)))
      | Some (RelayResponse rr) \<Rightarrow>
          (let (outs, sv1) = handle_relay_response su i cf rr addr sv in (ws, outs, s, sv1))
      | Some (PunchHoleSent phs) \<Rightarrow>
          (let (outs, sv1) = handle_hole_sent su i cf phs addr sv in (ws, outs, s, sv1))
      | Some (LocalAddr la) \<Rightarrow>
          (let (outs, sv1) = handle_local_addr su i cf la sv in (ws, outs, s, sv1))
      | Some (TestNatRequest serial) \<Rightarrow>
          (ws, send_to_sink s (TestNatResponse (unat (sa_port addr))
                 (if serial < cf_serial cf then Some (cf_serial cf, cf_rendezvous_servers cf) else None)), s, sv)
      | Some (OnlineRequest peers) \<Rightarrow>
          (ws, send_to_sink s (OnlineResponse (peers_online_state i (sv_pm sv) peers)), s, sv)
      | Some (RegisterPeer pid serial) \<Rightarrow>
          if valid_peer_id pid then
            (let (request_pk, sv1) = update_addr su i pid addr sv
             in (ws, concat (map (send_to_sink s) (RegisterPeerResponse request_pk # config_update cf serial)), s,
                 register_conn su addr ws_conn sv1))
          else (ws, [], s, sv)
      | Some (RegisterPk pid new_uuid new_pk) \<Rightarrow>
          (case handle_register_pk su i pid new_uuid new_pk addr ws sv of
             (None, sv1) \<Rightarrow> (False, [], s, sv1)
           | (Some res, sv1) \<Rightarrow>
               if res = OK then
                 (True, send_to_sink s (RegisterPkResponse res), s, register_conn su addr ws_conn sv1)
               else (False, send_to_sink s (RegisterPkResponse res), s, sv1))
      | _ \<Rightarrow> (ws, [], s, sv))"

section \<open>Online bits\<close>

lemma bit_or_push:
  "m < 8 \<Longrightarrow> n < 8 \<Longrightarrow> bit (w OR 2 ^ m :: 8 word) n \<longleftrightarrow> bit w n \<or> n = m"
  by (auto simp: bit_or_iff bit_exp_iff)

lemma bit_position: "(j :: nat) div 8 = k div 8 \<Longrightarrow> 7 - j mod 8 = 7 - k mod 8 \<longleftrightarrow> j = k"
proof -
  assume d: "j div 8 = k div 8"
  have "j mod 8 < 8" "k mod 8 < 8" by simp_all
  then have "7 - j mod 8 = 7 - k mod 8 \<longleftrightarrow> j mod 8 = k mod 8" by linarith
  with d show "7 - j mod 8 = 7 - k mod 8 \<longleftrightarrow> j = k" by (metis div_mult_mod_eq)
qed

lemma set_states_length [simp]: "length (set_states k bs st) = length st"
  by (induction k bs st rule: set_states.induct) auto

lemma set_states_bit:
  assumes "k + length bs \<le> 8 * length st" "j < 8 * length st"
  shows "bit (set_states k bs st ! (j div 8)) (7 - j mod 8) \<longleftrightarrow>
    (k \<le> j \<and> j < k + length bs \<and> bs ! (j - k)) \<or> bit (st ! (j div 8)) (7 - j mod 8)"
  using assms
proof (induction k bs st rule: set_states.induct)
  case (2 k b bs st)
  define st' where "st' = (if b then st[k div 8 := st ! (k div 8) OR push_bit (7 - k mod 8) 1] else st)"
  have kd: "k div 8 < length st" and jd: "j div 8 < length st" using "2.prems" by auto
  have "bit (st' ! (j div 8)) (7 - j mod 8) \<longleftrightarrow> j = k \<and> b \<or> bit (st ! (j div 8)) (7 - j mod 8)"
  proof (cases "b \<and> j div 8 = k div 8")
    case True
    then have "bit (st' ! (j div 8)) (7 - j mod 8) \<longleftrightarrow>
        bit (st ! (j div 8)) (7 - j mod 8) \<or> 7 - j mod 8 = 7 - k mod 8"
      using kd by (simp add: st'_def bit_or_push)
    with True bit_position [of j k] show ?thesis by auto
  next
    case False
    with jd show ?thesis by (auto simp: st'_def nth_list_update)
  qed
  moreover have "bit (set_states (Suc k) bs st' ! (j div 8)) (7 - j mod 8) \<longleftrightarrow>
      Suc k \<le> j \<and> j < Suc k + length bs \<and> bs ! (j - Suc k) \<or> bit (st' ! (j div 8)) (7 - j mod 8)"
    unfolding st'_def using "2.prems" by (intro "2.IH") auto
  moreover have "(b # bs) ! (j - k) = (if j = k then b else bs ! (j - Suc k))" if "k \<le> j"
    using that by (simp add: nth_Cons')
  ultimately show ?case by (auto simp: st'_def split: if_splits)
qed auto

section \<open>Frame lemmas\<close>

lemma push_ws_frame:
  "push_ws su addr sv = (c, sv') \<Longrightarrow> \<exists>w. sv' = sv\<lparr>sv_ws := w\<rparr>"
  by (auto simp: push_ws_def split: prod.splits)

lemma get_relay_server_frame:
  "get_relay_server su i pa pb sv = (r, sv') \<Longrightarrow> \<exists>sel. sv' = sv\<lparr>sv_relays := sel\<rparr>"
  by (auto simp: get_relay_server_def split: prod.splits)

lemma get_pk_frame: "get_pk su i cf v pid sv = (k, sv') \<Longrightarrow> \<exists>pm. sv' = sv\<lparr>sv_pm := pm\<rparr> \<and> pm_db pm = pm_db (sv_pm sv)"
proof -
  have keep: "\<exists>pm. sv = sv\<lparr>sv_pm := pm\<rparr> \<and> pm_db pm = pm_db (sv_pm sv)" by (rule exI [of _ "sv_pm sv"]) simp
  have db: "pm_db (snd (pm_get sd now up p pm)) = pm_db pm" for sd now up p pm
    by (auto simp: pm_get_def Let_def split: option.split sum.split)
  show "get_pk su i cf v pid sv = (k, sv') \<Longrightarrow> \<exists>pm. sv' = sv\<lparr>sv_pm := pm\<rparr> \<and> pm_db pm = pm_db (sv_pm sv)"
    using keep db [of "su_serde su" "in_now i" "in_db_up i" pid "sv_pm sv"]
    by (auto simp: get_pk_def split: option.splits if_splits prod.splits)
qed


section \<open>Invariant of the server\<close>

definition server_wf :: "'n surroundings \<Rightarrow> 'n server \<Rightarrow> bool" where
  "server_wf su sv \<longleftrightarrow>
     pm_wf (sv_pm sv) \<and> blocker_wf (sv_blocker sv) \<and> selector_wf (su_sel su) (sv_relays sv) \<and>
     ws_wf (sv_ws sv) \<and> hwf (sv_tcp_punch sv) \<and> length (sv_punch_reqs sv) \<le> su_punch_max su"

lemma record_punch_req_len: "length reqs \<le> mx \<Longrightarrow> length (record_punch_req mx now f t d reqs) \<le> mx"
  by (cases reqs) (auto simp: record_punch_req_def Let_def)

lemma get_relay_server_wf: "server_wf su sv \<Longrightarrow> server_wf su (snd (get_relay_server su i pa pb sv))"
  using pick_wf [of "su_sel su" "sv_relays sv" "in_now i" pa pb True]
  by (auto simp: get_relay_server_def server_wf_def split: prod.split)

lemma get_pk_wf: "server_wf su sv \<Longrightarrow> server_wf su (snd (get_pk su i cf v pid sv))"
  using pm_get_wf [of "sv_pm sv" "su_serde su" "in_now i" "in_db_up i" pid]
  by (auto simp: get_pk_def server_wf_def split: option.split prod.split)

lemma push_ws_wf: "server_wf su sv \<Longrightarrow> push_ws su addr sv = (hget (ws_peers (sv_ws sv)) (su_into_v4 su addr), sv)"
  by (simp add: push_ws_def push_alive server_wf_def)

lemma send_to_tcp_wf:
  assumes "server_wf su sv"
  shows "send_to_tcp su m addr sv =
    (case hget (ws_peers (sv_ws sv)) (su_into_v4 su addr) of
       Some c \<Rightarrow> ([PushWs c m], sv)
     | None \<Rightarrow> (send_to_sink (hget (sv_tcp_punch sv) (su_into_v4 su addr)) m,
         sv\<lparr>sv_tcp_punch := hdel (su_into_v4 su addr) (sv_tcp_punch sv)\<rparr>))"
  using push_ws_wf [OF assms, of addr]
  by (simp add: send_to_tcp_def send_to_sink_def Let_def split: option.split)

lemma send_to_tcp_keeps: "server_wf su sv \<Longrightarrow> server_wf su (snd (send_to_tcp su m addr sv))"
  by (simp add: send_to_tcp_wf) (simp add: server_wf_def split: option.split)

lemma update_addr_keeps: "server_wf su sv \<Longrightarrow> server_wf su (snd (update_addr su i pid addr sv))"
proof -
  assume wf: "server_wf su sv"
  have "pm_wf (pm_write pid (old\<lparr>socket_addr := a, last_reg_time := t\<rparr>) (sv_pm sv))"
    if "get_in_memory (sv_pm sv) pid = Some old" for old a t
    using wf that by (auto simp: server_wf_def pm_wf_def pm_write_def get_in_memory_def)
  with wf show ?thesis by (auto simp: update_addr_def server_wf_def Let_def split: option.split)
qed

lemma reg_pk_tick_same:
  "reg_pk_tick now p = (ok, p') \<Longrightarrow> guid p' = guid p \<and> uuid p' = uuid p \<and> pk p' = pk p \<and> info_ip p' = info_ip p
     \<and> socket_addr p' = socket_addr p \<and> last_reg_time p' = last_reg_time p"
  by (auto simp: reg_pk_tick_def split: prod.splits)

lemma compare_registration_uuid:
  "compare_registration p u k ip = Some x \<Longrightarrow> uuid p = [] \<or> uuid p = u"
  by (auto simp: compare_registration_def split: if_splits)

lemma pm_write_same_wf:
  assumes "pm_wf pm" "hget (pm_map pm) pid = Some p" "guid p' = guid p" "uuid p' = uuid p"
  shows "pm_wf (pm_write pid p' pm)"
  using assms by (auto simp: pm_wf_def pm_write_def)


section \<open>Registering a key\<close>

text \<open>The peer a registration is compared with, and the map with it in memory.\<close>

definition known_peer :: "'n surroundings \<Rightarrow> inputs \<Rightarrow> string \<Rightarrow> 'n server \<Rightarrow> peer" where
  "known_peer su i pid sv = fst (pm_get_or (su_serde su) (in_now i) (in_db_up i) pid (sv_pm sv))"

definition loaded_map :: "'n surroundings \<Rightarrow> inputs \<Rightarrow> string \<Rightarrow> 'n server \<Rightarrow> peer_map" where
  "loaded_map su i pid sv = snd (pm_get_or (su_serde su) (in_now i) (in_db_up i) pid (sv_pm sv))"

lemma loaded_map_known: "hget (pm_map (loaded_map su i pid sv)) pid = Some (known_peer su i pid sv)"
  unfolding loaded_map_def known_peer_def by (rule pm_get_or_present)

lemma loaded_map_wf: "pm_wf (sv_pm sv) \<Longrightarrow> pm_wf (loaded_map su i pid sv)"
  unfolding loaded_map_def by (rule pm_get_or_wf)

lemma loaded_map_db [simp]: "pm_db (loaded_map su i pid sv) = pm_db (sv_pm sv)"
  unfolding loaded_map_def by (rule pm_get_or_db)

lemma loaded_map_other: "pid' \<noteq> pid \<Longrightarrow> hget (pm_map (loaded_map su i pid sv)) pid' = hget (pm_map (sv_pm sv)) pid'"
  unfolding loaded_map_def by (rule pm_get_or_other)

lemma register_pk_unfold:
  fixes su i pid u k addr ws sv
  defines "ip \<equiv> show_ip (sa_ip addr)" and "p \<equiv> known_peer su i pid sv" and "pm1 \<equiv> loaded_map su i pid sv"
  shows "handle_register_pk su i pid u k addr ws sv =
    (if u = [] \<or> k = [] then (None, sv)
     else if length pid < 6 \<or> MAX_PEER_ID_LEN < length pid then (Some UUID_MISMATCH, sv)
     else
       (let (free, blk) = check_ip_blocker (in_now i) ip pid (sv_blocker sv)
        in if \<not> free then (Some TOO_FREQUENT, sv\<lparr>sv_blocker := blk\<rparr>)
           else (case compare_registration p u k ip of
              None \<Rightarrow> (Some UUID_MISMATCH, sv\<lparr>sv_blocker := blk, sv_pm := pm1\<rparr>)
            | Some (changed, ip_changed) \<Rightarrow>
                (let (ok, p') = reg_pk_tick (in_now i) p
                 in if \<not> ok then (Some TOO_FREQUENT, sv\<lparr>sv_blocker := blk, sv_pm := pm1\<rparr>)
                    else (Some OK, sv\<lparr>sv_blocker := blk,
                      sv_pm := (if changed \<or> ws
                        then snd (pm_update_pk (su_serde su) (in_now i) (in_db_up i) (in_guid i) pid p' addr u k ip
                               (pm_write pid p' pm1))
                        else pm_write pid p' pm1),
                      sv_ip_changes := (if ip_changed then record_ip_change (in_now i) pid ip (sv_ip_changes sv)
                        else sv_ip_changes sv)\<rparr>)))))"
  unfolding ip_def p_def pm1_def known_peer_def loaded_map_def handle_register_pk_def Let_def
  by (auto split: prod.split bool.split option.split)

lemma pm_update_written_wf:
  assumes "pm_wf pm" "hget (pm_map pm) pid = Some p" "guid p' = guid p" "uuid p' = uuid p"
    and "g \<noteq> []" "u \<noteq> []" "uuid p = [] \<or> uuid p = u"
  shows "pm_wf (snd (pm_update_pk sd now up g pid p' addr u k ip (pm_write pid p' pm)))"
proof (rule pm_update_pk_wf)
  show "pm_wf (pm_write pid p' pm)" using assms(1-4) by (rule pm_write_same_wf)
qed (use assms in \<open>auto simp: pm_write_def\<close>)

lemma handle_register_pk_wf:
  assumes "server_wf su sv" "in_guid i \<noteq> []"
  shows "server_wf su (snd (handle_register_pk su i pid u k addr ws sv))"
proof -
  let ?p = "known_peer su i pid sv" and ?pm = "loaded_map su i pid sv" and ?ip = "show_ip (sa_ip addr)"
  have pm: "pm_wf ?pm" using assms(1) loaded_map_wf by (auto simp: server_wf_def)
  obtain free blk where blk: "check_ip_blocker (in_now i) ?ip pid (sv_blocker sv) = (free, blk)" by fastforce
  then have blk_wf: "blocker_wf blk"
    using check_ip_blocker_wf [of "sv_blocker sv" "in_now i" ?ip pid] assms(1) by (simp add: server_wf_def)
  obtain ok p' where tick: "reg_pk_tick (in_now i) ?p = (ok, p')" by fastforce
  note same = reg_pk_tick_same [OF tick]
  have "pm_wf (pm_write pid p' ?pm)"
    using pm loaded_map_known same by (intro pm_write_same_wf [of _ _ ?p]) auto
  moreover have "pm_wf (snd (pm_update_pk (su_serde su) (in_now i) (in_db_up i) (in_guid i) pid p' addr u k ?ip
      (pm_write pid p' ?pm)))" if "u \<noteq> []" "compare_registration ?p u k ?ip = Some x" for x
    using pm loaded_map_known same that assms(2) compare_registration_uuid [OF that(2)]
    by (intro pm_update_written_wf [of _ _ ?p]) auto
  ultimately show ?thesis
    using assms(1) pm blk_wf unfolding register_pk_unfold blk tick
    by (auto simp: server_wf_def split: option.split)
qed


section \<open>The handlers keep the invariant\<close>

lemma pm_get_server_wf:
  "server_wf su sv \<Longrightarrow> server_wf su (sv\<lparr>sv_pm := snd (pm_get sd now up pid (sv_pm sv))\<rparr>)"
  using pm_get_wf by (auto simp: server_wf_def)

lemma handle_punch_wf:
  assumes "server_wf su sv"
  shows "server_wf su (snd (handle_punch_hole_request su i cf addr ph key ws sv))"
proof (cases "refuse_punch su i key (sv_must_login sv) ph")
  case None
  obtain r pm where g: "pm_get (su_serde su) (in_now i) (in_db_up i) (ph_id ph) (sv_pm sv) = (r, pm)" by fastforce
  have base: "server_wf su (sv\<lparr>sv_pm := pm\<rparr>)"
    using pm_get_server_wf [OF assms, of "su_serde su" "in_now i" "in_db_up i" "ph_id ph"] g by simp
  then have "server_wf su (sv\<lparr>sv_pm := pm, sv_punch_reqs :=
      record_punch_req (su_punch_max su) now f t d (sv_punch_reqs sv)\<rparr>)" for now f t d
    by (simp add: server_wf_def record_punch_req_len)
  then have "server_wf su (snd (get_relay_server su i a b (sv\<lparr>sv_pm := pm, sv_punch_reqs :=
      record_punch_req (su_punch_max su) now f t d (sv_punch_reqs sv)\<rparr>)))" for a b now f t d
    by (rule get_relay_server_wf)
  with base None g show ?thesis
    by (simp add: handle_punch_hole_request_def Let_def case_prod_beta split: option.split)
qed (use assms in \<open>simp add: handle_punch_hole_request_def\<close>)

lemma handle_tcp_punch_wf:
  assumes "server_wf su sv"
  shows "server_wf su (snd (handle_tcp_punch_hole_request su i cf addr ph key ws sv))"
proof -
  obtain m to sv1 where h: "handle_punch_hole_request su i cf addr ph key ws sv = ((m, to), sv1)"
    by (metis prod.collapse)
  with handle_punch_wf [OF assms, of i cf addr ph key ws] have wf: "server_wf su sv1" by simp
  show ?thesis
    using wf send_to_tcp_keeps [OF wf]
    by (simp add: handle_tcp_punch_hole_request_def h push_ws_wf [OF wf] split: option.split)
qed

lemma answers_wf:
  assumes "server_wf su sv"
  shows "server_wf su (snd (handle_hole_sent su i cf phs addr sv))"
    and "server_wf su (snd (handle_local_addr su i cf la sv))"
  using get_pk_wf [OF assms, of i cf] send_to_tcp_keeps [of su]
  by (simp_all add: handle_hole_sent_def handle_local_addr_def Let_def case_prod_beta)

lemma relay_response_wf:
  assumes "server_wf su sv"
  shows "server_wf su (snd (handle_relay_response su i cf rr addr sv))"
proof -
  have "server_wf su (snd (fill_pk su i cf r sv))" for r
    using assms get_pk_wf [OF assms, of i cf]
    by (simp add: fill_pk_def Let_def case_prod_beta split: rr_union.split)
  moreover have "server_wf su (snd (fill_relay su i cf addr b r s))" if "server_wf su s" for b r s
    using that get_relay_server_wf [OF that, of i] by (simp add: fill_relay_def Let_def case_prod_beta)
  ultimately show ?thesis
    by (simp add: handle_relay_response_def Let_def case_prod_beta send_to_tcp_keeps)
qed

lemma handle_udp_wf:
  assumes "server_wf su sv" "in_guid i \<noteq> []"
  shows "server_wf su (snd (snd (handle_udp su i data addr cf sv)))"
  using update_addr_keeps [OF assms(1), of i] handle_register_pk_wf [OF assms]
  by (auto simp: handle_udp_def Let_def case_prod_beta assms(1) split: option.split rmsg.split)

definition own_conn :: "'n surroundings \<Rightarrow> sockaddr \<Rightarrow> conn option \<Rightarrow> 'n server \<Rightarrow> bool" where
  "own_conn su addr ws_conn sv =
     (case ws_conn of None \<Rightarrow> True | Some c \<Rightarrow> (c, su_into_v4 su addr) \<in> set (ws_tasks (sv_ws sv)))"

lemma keep_route_wf:
  "server_wf su sv \<Longrightarrow> own_conn su addr wc sv \<Longrightarrow> server_wf su (snd (keep_route su addr wc s sv))"
  by (auto simp: keep_route_def server_wf_def own_conn_def intro: register_wf split: option.splits)

lemma register_conn_wf:
  "server_wf su sv \<Longrightarrow> own_conn su addr wc sv \<Longrightarrow> server_wf su (register_conn su addr wc sv)"
  by (auto simp: register_conn_def server_wf_def own_conn_def intro: register_wf split: option.splits)

lemma update_addr_ws: "sv_ws (snd (update_addr su i pid addr sv)) = sv_ws sv"
  by (simp add: update_addr_def Let_def split: option.split)

lemma handle_register_pk_ws: "sv_ws (snd (handle_register_pk su i pid u k addr ws sv)) = sv_ws sv"
  unfolding register_pk_unfold by (auto simp: Let_def split: prod.split option.split)

lemma handle_tcp_wf:
  assumes "server_wf su sv" "in_guid i \<noteq> []" "own_conn su addr wc sv"
  shows "server_wf su (snd (snd (snd (handle_tcp su i cf data s addr key ws wc sv))))"
proof -
  note route = keep_route_wf [OF assms(1,3), of s]
  have reg: "server_wf su (register_conn su addr wc sv')" if "server_wf su sv'" "sv_ws sv' = sv_ws sv" for sv'
    using that assms(3) by (intro register_conn_wf) (auto simp: own_conn_def split: option.splits)
  have push: "server_wf su (snd (push_ws su a sv'))" if "server_wf su sv'" for a sv'
    using that by (simp add: push_ws_wf)
  show ?thesis
    using assms(1) route push [OF route] handle_tcp_punch_wf [OF route] answers_wf [OF assms(1)]
      relay_response_wf [OF assms(1)] reg [OF update_addr_keeps [OF assms(1)] update_addr_ws]
      handle_register_pk_wf [OF assms(1,2)]
      reg [OF handle_register_pk_wf [OF assms(1,2)] handle_register_pk_ws]
    by (simp add: handle_tcp_def Let_def case_prod_beta split: option.split rmsg.split)
qed

end
