(* ===== verification/Rendezvous_Spec.thy ===== *)
theory Rendezvous_Spec
  imports Rendezvous
begin

text \<open>
  What the handlers of the rendezvous server promise: which peer a key belongs to, who may
  reach a peer, where answers go, and that every reachable state is well formed.
\<close>

section \<open>Runs\<close>

text \<open>Everything that changes the shared state: a datagram, a frame of a plain connection or of a
  websocket (handled on any clone's configuration), the start and end of a connection, and what
  happens to the selector of relays.\<close>

inductive srv_step :: "'n surroundings \<Rightarrow> 'n server \<Rightarrow> 'n server \<Rightarrow> bool" for su where
  srv_udp: "in_guid i \<noteq> [] \<Longrightarrow> srv_step su sv (snd (snd (handle_udp su i data addr cf sv)))"
| srv_tcp: "in_guid i \<noteq> [] \<Longrightarrow>
    srv_step su sv (snd (snd (snd (handle_tcp su i cf data s addr key False None sv))))"
| srv_ws: "in_guid i \<noteq> [] \<Longrightarrow> (c, su_into_v4 su addr) \<in> set (ws_tasks (sv_ws sv)) \<Longrightarrow>
    srv_step su sv (snd (snd (snd (handle_tcp su i cf data s addr key True (Some c) sv))))"
| srv_ws_accept: "srv_step su sv (sv\<lparr>sv_ws := snd (ws_accept (su_into_v4 su) addr (sv_ws sv))\<rparr>)"
| srv_ws_end: "(c, a) \<in> set (ws_tasks (sv_ws sv)) \<Longrightarrow> srv_step su sv (sv\<lparr>sv_ws := ws_end c a (sv_ws sv)\<rparr>)"
| srv_tcp_end: "srv_step su sv (sv\<lparr>sv_tcp_punch := hdel (su_into_v4 su addr) (sv_tcp_punch sv)\<rparr>)"
| srv_relays: "sel_step (su_sel su) (sv_relays sv) sel \<Longrightarrow> srv_step su sv (sv\<lparr>sv_relays := sel\<rparr>)"

definition srv_init :: "database \<Rightarrow> 'n server" where
  "srv_init db =
     \<lparr>sv_tcp_punch = [], sv_pm = \<lparr>pm_map = [], pm_db = db\<rparr>, sv_relays = selector_default, sv_ws = ws_empty,
      sv_blocker = [], sv_ip_changes = [], sv_punch_reqs = [], sv_always_use_relay = False, sv_must_login = False\<rparr>"

definition srv_reachable :: "'n surroundings \<Rightarrow> 'n server \<Rightarrow> bool" where
  "srv_reachable su sv \<longleftrightarrow>
     (\<exists>db. pm_wf \<lparr>pm_map = [], pm_db = db\<rparr> \<and> (srv_step su)\<^sup>*\<^sup>* (srv_init db) sv)"

lemma srv_init_wf: "pm_wf \<lparr>pm_map = [], pm_db = db\<rparr> \<Longrightarrow> server_wf su (srv_init db)"
  by (simp add: server_wf_def srv_init_def blocker_wf_def selector_default_wf ws_wf_empty)

lemma srv_step_wf: "srv_step su sv sv' \<Longrightarrow> server_wf su sv \<Longrightarrow> server_wf su sv'"
proof (induction rule: srv_step.induct)
  case (srv_udp i sv data addr cf)
  then show ?case by (intro handle_udp_wf)
next
  case (srv_tcp i sv cf data s addr key)
  then show ?case by (intro handle_tcp_wf) (simp_all add: own_conn_def)
next
  case (srv_ws i c addr sv cf data s key)
  then show ?case by (intro handle_tcp_wf) (simp_all add: own_conn_def)
next
  case (srv_relays sv sel)
  then show ?case using sel_step_wf by (auto simp: server_wf_def)
qed (auto simp: server_wf_def intro: ws_accept_wf ws_end_wf)

interpretation srv: invariant_system "srv_step su"
    "\<lambda>sv. \<exists>db. pm_wf \<lparr>pm_map = [], pm_db = db\<rparr> \<and> sv = srv_init db" "server_wf su" for su
  by unfold_locales (auto intro: srv_init_wf srv_step_wf)

lemma srv_reachable_wf: "srv_reachable su sv \<Longrightarrow> server_wf su sv"
  unfolding srv_reachable_def using srv.reachable_inv by blast

section \<open>Lemmas on single handlers\<close>

lemma register_pk_refused:
  assumes "handle_register_pk su i pid u k addr ws sv = (res, sv')" "res \<noteq> Some OK"
  shows "sv_pm sv' = sv_pm sv \<or> sv_pm sv' = loaded_map su i pid sv"
  using assms unfolding register_pk_unfold
  by (auto simp: Let_def split: if_splits option.splits prod.splits)

lemma register_pk_ok:
  assumes "handle_register_pk su i pid u k addr ws sv = (Some OK, sv')"
  shows "\<exists>changed ipc p'. compare_registration (known_peer su i pid sv) u k (show_ip (sa_ip addr)) = Some (changed, ipc)
    \<and> reg_pk_tick (in_now i) (known_peer su i pid sv) = (True, p')
    \<and> sv_pm sv' = (if changed \<or> ws
        then snd (pm_update_pk (su_serde su) (in_now i) (in_db_up i) (in_guid i) pid p' addr u k (show_ip (sa_ip addr))
               (pm_write pid p' (loaded_map su i pid sv)))
        else pm_write pid p' (loaded_map su i pid sv))"
  using assms unfolding register_pk_unfold
  by (auto simp: Let_def split: if_splits option.splits prod.splits)

lemma compare_registration_same:
  "compare_registration p u k ip = Some (changed, c) \<Longrightarrow> \<not> changed \<Longrightarrow> uuid p = u \<and> pk p = k \<and> info_ip p = ip"
  by (auto simp: compare_registration_def split: if_splits)

definition is_refusal :: "rmsg \<Rightarrow> bool" where
  "is_refusal m = (case m of
      PunchHoleResponse r \<Rightarrow> phr_failure r = Some LICENSE_MISMATCH \<or> phr_other_failure r \<noteq> []
    | _ \<Rightarrow> False)"

lemma refuse_punch_refusal: "refuse_punch su i key ml ph = Some r \<Longrightarrow> is_refusal (PunchHoleResponse r)"
  by (auto simp: refuse_punch_def is_refusal_def empty_response_def split: if_splits)

lemma handle_punch_frame:
  "sv_tcp_punch (snd (handle_punch_hole_request su i cf addr ph key ws sv)) = sv_tcp_punch sv"
  "sv_ws (snd (handle_punch_hole_request su i cf addr ph key ws sv)) = sv_ws sv"
  by (simp_all add: handle_punch_hole_request_def get_relay_server_def Let_def case_prod_beta split: option.split)

lemma handle_punch_passed_on:
  "fst (handle_punch_hole_request su i cf addr ph key ws sv) = (m, Some to) \<Longrightarrow>
   (\<exists>n relay. m = PunchHole (su_mangle su addr) n relay) \<or> (\<exists>relay. m = FetchLocalAddr (su_mangle su addr) relay)"
  by (auto simp: handle_punch_hole_request_def Let_def case_prod_beta split: option.splits if_splits)

lemma get_pk_routes:
  "sv_tcp_punch (snd (get_pk su i cf v pid sv)) = sv_tcp_punch sv" "sv_ws (snd (get_pk su i cf v pid sv)) = sv_ws sv"
  by (simp_all add: get_pk_def case_prod_beta split: option.split prod.split)

text \<open>What the answer of a peer does: it goes to the route of the address it names, which is used up.\<close>

lemma hole_sent_to_route:
  assumes "server_wf su sv" "hget (ws_peers (sv_ws sv)) (su_into_v4 su (su_unmangle su (phs_socket_addr phs))) = None"
    and "handle_hole_sent su i cf phs addr sv = (outs, sv')"
  shows "outs = send_to_sink (hget (sv_tcp_punch sv) (su_into_v4 su (su_unmangle su (phs_socket_addr phs))))
      (PunchHoleResponse (empty_response\<lparr>phr_socket_addr := su_mangle su addr,
         phr_pk := fst (get_pk su i cf (phs_version phs) (phs_id phs) sv),
         phr_relay_server := phs_relay_server phs, phr_nat_type := enum_value (phs_nat_type phs)\<rparr>)) \<and>
    hget (sv_tcp_punch sv') (su_into_v4 su (su_unmangle su (phs_socket_addr phs))) = None \<and>
    sv_ws sv' = sv_ws sv \<and> server_wf su sv'"
proof -
  note wf = get_pk_wf [OF assms(1), of i cf "phs_version phs" "phs_id phs"]
  have "server_wf su sv'" using answers_wf(1) [OF assms(1), of i cf phs addr] assms(3) by simp
  with assms(2,3) show ?thesis
    by (auto simp: handle_hole_sent_def Let_def case_prod_beta send_to_tcp_wf [OF wf] get_pk_routes)
qed

section \<open>An example\<close>

text \<open>A server with two relays and one registered peer, and surroundings that satisfy what the
  properties below rely on, for their witnesses.\<close>

definition addr_a :: sockaddr where
  "addr_a = SocketAddr (v4_of 5 5 5 5) 50"

definition addr_b :: sockaddr where
  "addr_b = SocketAddr (v4_of 7 7 7 7) 80"

definition example_peer :: peer where
  "example_peer = (peer_default 0)\<lparr>socket_addr := addr_b, uuid := [3], pk := [4],
     last_reg_time := 5, info_ip := ''7.7.7.7'', guid := [9]\<rparr>"

definition example_request :: punch_hole_request where
  "example_request = \<lparr>ph_id = ''123456'', ph_nat_type = ASYMMETRIC, ph_licence_key = ''k'', ph_token = []\<rparr>"

definition example_sent :: punch_hole_sent where
  "example_sent = \<lparr>phs_socket_addr = [5, 5, 5, 5, 50], phs_id = ''123456'', phs_relay_server = ''a:1'',
     phs_nat_type = ASYMMETRIC, phs_version = ''1''\<rparr>"

definition example_mangle :: "sockaddr \<Rightarrow> bytes" where
  "example_mangle a = (case sa_ip a of
      V4 w \<Rightarrow> map (\<lambda>k. of_nat (unat w div 256 ^ k)) [3, 2, 1, 0] @ [ucast (sa_port a)]
    | V6 w \<Rightarrow> [])"

definition example_unmangle :: "bytes \<Rightarrow> sockaddr" where
  "example_unmangle bs = (case bs of
      [a, b, c, d, p] \<Rightarrow> SocketAddr (v4_of (unat a) (unat b) (unat c) (unat d)) (ucast p)
    | _ \<Rightarrow> SocketAddr (V6 0) 0)"

definition example_su :: "(ipaddr \<times> nat) surroundings" where
  "example_su = \<lparr>su_sel = example_sel_env,
     su_parse = (\<lambda>d. if d = [2] then Some (PunchHoleRequest example_request)
                     else if d = [3] then Some (PunchHoleSent example_sent)
                     else if d = [4] then Some (RegisterPeer ''123456'' 0) else None),
     su_into_v4 = (\<lambda>a. a), su_mangle = example_mangle, su_unmangle = example_unmangle,
     su_sign_pk = (\<lambda>sk pid k. sk @ k), su_jwt = example_jwt, su_serde = example_serde,
     su_resolve = (\<lambda>_. None), su_punch_max = 4\<rparr>"

definition example_sv :: "(ipaddr \<times> nat) server" where
  "example_sv = (srv_init [])\<lparr>sv_relays := example_selector,
     sv_pm := \<lparr>pm_map = [(''123456'', example_peer)],
       pm_db = [\<lparr>row_guid = [9], row_id = ''123456'', row_uuid = [3], row_pk = [4], row_info = ''7.7.7.7''\<rparr>]\<rparr>\<rparr>"

definition example_in :: inputs where
  "example_in = \<lparr>in_now = 9, in_utc = 100, in_db_up = True, in_guid = [8]\<rparr>"

definition example_cf :: conf where
  "example_cf = \<lparr>cf_serial = 0, cf_version = [], cf_software_url = [], cf_mask = None, cf_local_ip = [],
     cf_sk = Some [6], cf_rendezvous_servers = [], cf_relay_servers0 = [''a:1'', ''b:1'']\<rparr>"

lemmas example_defs = example_su_def example_sv_def example_in_def example_cf_def example_peer_def
  example_request_def example_sent_def srv_init_def addr_a_def addr_b_def peer_default_def

lemma example_mangle_a: "example_mangle addr_a = [5, 5, 5, 5, 50]"
  by (simp add: example_mangle_def addr_a_def v4_of_def)

lemma example_unmangle_a: "example_unmangle [5, 5, 5, 5, 50] = addr_a"
  by (simp add: example_unmangle_def addr_a_def)

lemma example_show: "show_ip (sa_ip addr_a) = ''5.5.5.5''" "show_ip (sa_ip addr_b) = ''7.7.7.7''"
  by (simp_all add: addr_a_def addr_b_def v4_of_def net_eval text_eval)

lemma example_sv_wf: "server_wf example_su example_sv"
  using sel_reachable_wf [OF example_selector_reachable]
  by (simp add: server_wf_def example_defs blocker_wf_def ws_wf_empty pm_wf_def db_wf_def hwf_def hget_def)

lemma example_known: "known_peer example_su example_in ''123456'' example_sv = example_peer"
  by (simp add: known_peer_def pm_get_or_def pm_get_def get_in_memory_def example_defs hget_def)

lemma example_reachable: "srv_reachable example_su ((srv_init [])\<lparr>sv_relays := example_selector\<rparr>)"
proof -
  have "sel_step example_sel_env selector_default example_selector"
    unfolding example_selector_def by (rule step_set_live)
  then have "srv_step example_su (srv_init []) ((srv_init [])\<lparr>sv_relays := example_selector\<rparr>)"
    by (intro srv_relays) (simp add: example_su_def srv_init_def)
  moreover have "pm_wf \<lparr>pm_map = [], pm_db = []\<rparr>" by (simp add: pm_wf_def db_wf_def hwf_def)
  ultimately show ?thesis unfolding srv_reachable_def by blast
qed

section \<open>Properties\<close>

text \<open>
  Every state the server can reach is well formed: the table and the peers in memory
  agree, the limits hold, the choices held are bounded, the websocket registry has no stale
  entry, and the log of requests is within its bound.
\<close>

theorem server_invariant:
  assumes "srv_reachable su sv"
  shows "pm_wf (sv_pm sv) \<and> blocker_wf (sv_blocker sv) \<and> hlen (s_pins (sv_relays sv)) \<le> MAX_RELAY_PINS \<and>
    ws_peer_count (sv_ws sv) \<le> length (ws_tasks (sv_ws sv)) \<and> length (sv_punch_reqs sv) \<le> su_punch_max su"
  using srv_reachable_wf [OF assms] ws_peers_le_tasks
  by (auto simp: server_wf_def selector_wf_def ws_peer_count_def)

theorem server_invariant_witness:
  "hlen (s_pins (sv_relays ((srv_init [])\<lparr>sv_relays := example_selector\<rparr>))) \<le> MAX_RELAY_PINS"
  using server_invariant [OF example_reachable] by simp

text \<open>
  C4. A device keeps its id: a peer that is bound to a uuid cannot be taken over. A
  registration with another uuid, or with the same uuid but another key from another address,
  is not accepted and changes neither the table nor any peer in memory.
\<close>

theorem registration_cannot_hijack:
  assumes "handle_register_pk su i pid u k addr ws sv = (res, sv')"
    and "uuid (known_peer su i pid sv) \<noteq> []"
    and "u \<noteq> uuid (known_peer su i pid sv) \<or>
      k \<noteq> pk (known_peer su i pid sv) \<and> show_ip (sa_ip addr) \<noteq> info_ip (known_peer su i pid sv)"
  shows "res \<noteq> Some OK \<and> pm_db (sv_pm sv') = pm_db (sv_pm sv) \<and>
    (\<forall>pid'. hget (pm_map (sv_pm sv')) pid' = hget (pm_map (sv_pm sv)) pid' \<or>
       pid' = pid \<and> hget (pm_map (sv_pm sv')) pid' = Some (known_peer su i pid sv))"
proof -
  have "compare_registration (known_peer su i pid sv) u k (show_ip (sa_ip addr)) = None"
    using assms(2,3) by (auto simp: compare_registration_def)
  then have "res \<noteq> Some OK" using register_pk_ok assms(1) by fastforce
  with register_pk_refused [OF assms(1)] show ?thesis
    using loaded_map_known [of su i pid sv] loaded_map_other [of _ pid su i sv] loaded_map_db [of su i pid sv]
    by metis
qed

theorem registration_cannot_hijack_witness:
  "fst (handle_register_pk example_su example_in ''123456'' [1] [2] addr_a False example_sv) \<noteq> Some OK"
  using registration_cannot_hijack [OF surjective_pairing, of example_su example_in "''123456''" example_sv "[1]" "[2]" addr_a False]
  by (simp add: example_known example_peer_def)

text \<open>
  C7. A registration that is accepted is in force: the peer in memory has the uuid, the key
  and the address it was registered with, and unless nothing changed it counts as seen just
  now; the uuid the id was bound to before, if any, is the one given; no other peer changes.
\<close>

theorem registration_takes_effect:
  assumes "handle_register_pk su i pid u k addr ws sv = (Some OK, sv')"
  shows "(\<exists>p. hget (pm_map (sv_pm sv')) pid = Some p \<and> uuid p = u \<and> pk p = k \<and> info_ip p = show_ip (sa_ip addr) \<and>
      (if ws then last_reg_time p = in_now i \<and> socket_addr p = addr
       else p = (known_peer su i pid sv)\<lparr>reg_pk := reg_pk p\<rparr> \<or> last_reg_time p = in_now i \<and> socket_addr p = addr)) \<and>
    uuid (known_peer su i pid sv) \<in> {[], u} \<and>
    (\<forall>pid'. pid' = pid \<or> hget (pm_map (sv_pm sv')) pid' = hget (pm_map (sv_pm sv)) pid')"
proof -
  let ?p = "known_peer su i pid sv" and ?ip = "show_ip (sa_ip addr)" and ?pm = "loaded_map su i pid sv"
  obtain changed ipc p' where c: "compare_registration ?p u k ?ip = Some (changed, ipc)"
    and tick: "reg_pk_tick (in_now i) ?p = (True, p')"
    and pm: "sv_pm sv' = (if changed \<or> ws
        then snd (pm_update_pk (su_serde su) (in_now i) (in_db_up i) (in_guid i) pid p' addr u k ?ip (pm_write pid p' ?pm))
        else pm_write pid p' ?pm)"
    using register_pk_ok [OF assms] by blast
  have p': "p' = ?p\<lparr>reg_pk := reg_pk p'\<rparr>" using tick by (auto simp: reg_pk_tick_def split: prod.splits)
  show ?thesis
  proof (cases "changed \<or> ws")
    case True
    obtain res pm' where up: "pm_update_pk (su_serde su) (in_now i) (in_db_up i) (in_guid i) pid p' addr u k ?ip
        (pm_write pid p' ?pm) = (res, pm')" by fastforce
    with pm True have "sv_pm sv' = pm'" by simp
    with pm_update_pk_memory [OF up] compare_registration_uuid [OF c] show ?thesis
      by (auto simp: pm_write_def loaded_map_other)
  next
    case False
    with compare_registration_same [OF c] have "uuid p' = u" "pk p' = k" "info_ip p' = ?ip"
      using p' by (metis peer.select_convs(4-6) peer.surjective peer.update_convs(7))+
    with False pm p' compare_registration_uuid [OF c] show ?thesis
      by (auto simp: pm_write_def loaded_map_other)
  qed
qed

lemma example_register:
  "fst (handle_register_pk example_su example_in ''654321'' [1] [2] addr_a False example_sv) = Some OK"
  unfolding register_pk_unfold
  by (simp add: example_show known_peer_def pm_get_or_def pm_get_def db_get_peer_def compare_registration_def
      reg_pk_tick_def window_tick_def check_ip_blocker_def example_defs hget_def elapsed_secs_def MAX_PEER_ID_LEN_def)

theorem registration_takes_effect_witness:
  "\<exists>p. hget (pm_map (sv_pm (snd (handle_register_pk example_su example_in ''654321'' [1] [2] addr_a False example_sv))))
     ''654321'' = Some p \<and> uuid p = [1] \<and> pk p = [2] \<and> info_ip p = ''5.5.5.5''"
proof -
  have "handle_register_pk example_su example_in ''654321'' [1] [2] addr_a False example_sv =
      (Some OK, snd (handle_register_pk example_su example_in ''654321'' [1] [2] addr_a False example_sv))"
    using example_register by (metis prod.collapse)
  from registration_takes_effect [OF this] show ?thesis by (auto simp: example_show)
qed

text \<open>
  A lost registration is confirmed: when the table cannot be written, the first
  registration of a peer is answered as accepted although nothing was stored, so that after a
  restart the id is unknown and free for anyone.
\<close>

theorem failed_save_answered_ok:
  assumes "handle_register_pk su i pid u k addr ws sv = (Some OK, sv')" "pm_wf (sv_pm sv)"
    and "uuid (known_peer su i pid sv) = []" "\<not> in_db_up i"
    and "\<forall>r \<in> set (pm_db (sv_pm sv)). row_id r \<noteq> pid"
  shows "pm_db (sv_pm sv') = pm_db (sv_pm sv) \<and>
    fst (pm_get (su_serde su) later True pid (restart (sv_pm sv'))) = None"
proof -
  obtain changed ipc p' where c: "compare_registration (known_peer su i pid sv) u k (show_ip (sa_ip addr)) = Some (changed, ipc)"
    and pm: "sv_pm sv' = (if changed \<or> ws
        then snd (pm_update_pk (su_serde su) (in_now i) (in_db_up i) (in_guid i) pid p' addr u k (show_ip (sa_ip addr))
               (pm_write pid p' (loaded_map su i pid sv)))
        else pm_write pid p' (loaded_map su i pid sv))"
    using register_pk_ok [OF assms(1)] by blast
  have "pm_db (snd (pm_update_pk sd now False g pid q a b d e m)) = pm_db m" for sd now g q a b d e m
    by (simp add: pm_update_pk_def db_insert_peer_def db_update_pk_def pm_write_def Let_def)
  then have "pm_db (sv_pm sv') = pm_db (sv_pm sv)" using pm assms(4) by (simp add: pm_write_def)
  moreover from this assms(5) have "List.find (\<lambda>r. row_id r = pid) (pm_db (sv_pm sv')) = None"
    by (simp add: find_None_iff_set)
  ultimately show ?thesis by (simp add: pm_get_result restart_def)
qed

theorem failed_save_answered_ok_witness:
  "fst (pm_get example_serde 20 True ''654321'' (restart (sv_pm (snd
     (handle_register_pk example_su (example_in\<lparr>in_db_up := False\<rparr>) ''654321'' [1] [2] addr_a False example_sv))))) = None"
proof -
  let ?h = "handle_register_pk example_su (example_in\<lparr>in_db_up := False\<rparr>) ''654321'' [1] [2] addr_a False example_sv"
  have "fst ?h = Some OK"
    unfolding register_pk_unfold
    by (simp add: example_show known_peer_def pm_get_or_def pm_get_def db_get_peer_def compare_registration_def
        reg_pk_tick_def window_tick_def check_ip_blocker_def example_defs hget_def elapsed_secs_def MAX_PEER_ID_LEN_def)
  then have "?h = (Some OK, snd ?h)" by (metis prod.collapse)
  from failed_save_answered_ok [OF this, of 20] example_sv_wf show ?thesis
    by (simp add: server_wf_def known_peer_def pm_get_or_def pm_get_def db_get_peer_def example_defs hget_def)
qed

text \<open>
  A heartbeat cannot move a peer: a peer that registered its key is only refreshed by a
  heartbeat from the address it is known under (or from the machine itself); any other is
  answered with a request for the key and changes nothing.
\<close>

theorem heartbeat_cannot_move_peer:
  assumes "get_in_memory (sv_pm sv) pid = Some p" "\<not> is_loopback (sa_ip addr)"
    and "if sa_port (socket_addr p) \<noteq> 0 then sa_ip addr \<noteq> sa_ip (socket_addr p) else show_ip (sa_ip addr) \<noteq> info_ip p"
  shows "update_addr su i pid addr sv = (True, sv)"
  using assms by (auto simp: update_addr_def Let_def)

theorem heartbeat_cannot_move_peer_witness:
  "update_addr example_su example_in ''123456'' addr_a example_sv = (True, example_sv)"
  by (rule heartbeat_cannot_move_peer [of example_sv "''123456''" example_peer])
     (simp_all add: get_in_memory_def example_defs hget_def v4_of_def)

text \<open>
  C9. Who may have a peer told to open a connection: a \<^verbatim>\<open>PunchHoleRequest\<close>
  without the server's key, when it has one, reaches no one, nor, when a login is required, does one
  without a token, or with a token that is not valid when the server has a secret to check it with.
  The only thing sent is one refusal, to the requester: on its websocket, else on its connection, if
  that is still there to be answered on. No relay is chosen, nothing is logged, and no peer is
  looked up.
\<close>

theorem punch_access_control:
  assumes "server_wf su sv" "own_conn su addr wc sv"
    and "key \<noteq> [] \<and> ph_licence_key ph \<noteq> key \<or>
      sv_must_login sv \<and> (ph_token ph = [] \<or>
        jw_secret (su_jwt su) \<noteq> [] \<and> isl (verify_token (su_jwt su) (in_utc i) (ph_token ph)))"
    and "su_parse su data = Some (PunchHoleRequest ph)"
    and "handle_tcp su i cf data s addr key ws wc sv = (stay, outs, s', sv')"
  shows "(\<exists>m. is_refusal m \<and>
      outs = (case (if wc \<noteq> None then wc else hget (ws_peers (sv_ws sv)) (su_into_v4 su addr)) of
          Some c \<Rightarrow> [PushWs c m]
        | None \<Rightarrow> send_to_sink (if s \<noteq> None then s else hget (sv_tcp_punch sv) (su_into_v4 su addr)) m)) \<and>
    sv_relays sv' = sv_relays sv \<and> sv_pm sv' = sv_pm sv \<and> sv_punch_reqs sv' = sv_punch_reqs sv"
proof -
  let ?sv1 = "snd (keep_route su addr wc s sv)"
  have frame: "sv_must_login ?sv1 = sv_must_login sv" "sv_relays ?sv1 = sv_relays sv" "sv_pm ?sv1 = sv_pm sv"
    "sv_punch_reqs ?sv1 = sv_punch_reqs sv"
    by (auto simp: keep_route_def split: option.split)
  have "refuse_punch su i key (sv_must_login sv) ph \<noteq> None"
    using assms(3) by (auto simp: refuse_punch_def)
  then obtain r where r: "refuse_punch su i key (sv_must_login sv) ph = Some r" by blast
  note wf = keep_route_wf [OF assms(1,2), of s]
  have h: "handle_tcp_punch_hole_request su i cf addr ph key ws ?sv1 = send_to_tcp su (PunchHoleResponse r) addr ?sv1"
    by (simp add: handle_tcp_punch_hole_request_def handle_punch_hole_request_def frame r)
  have outs: "outs = fst (send_to_tcp su (PunchHoleResponse r) addr ?sv1)"
    and sv': "sv' = snd (send_to_tcp su (PunchHoleResponse r) addr ?sv1)"
    using assms(4,5) h by (auto simp: handle_tcp_def Let_def case_prod_beta)
  have routes: "hget (ws_peers (sv_ws ?sv1)) (su_into_v4 su addr) =
      (if wc \<noteq> None then wc else hget (ws_peers (sv_ws sv)) (su_into_v4 su addr))"
    "wc = None \<Longrightarrow> hget (sv_tcp_punch ?sv1) (su_into_v4 su addr) =
      (if s \<noteq> None then s else hget (sv_tcp_punch sv) (su_into_v4 su addr))"
    by (auto simp: keep_route_def register_ws_peer_def split: option.split)
  have "outs = (case (if wc \<noteq> None then wc else hget (ws_peers (sv_ws sv)) (su_into_v4 su addr)) of
          Some c \<Rightarrow> [PushWs c (PunchHoleResponse r)]
        | None \<Rightarrow> send_to_sink (if s \<noteq> None then s else hget (sv_tcp_punch sv) (su_into_v4 su addr)) (PunchHoleResponse r))"
    unfolding outs send_to_tcp_wf [OF wf] routes(1) using routes(2) by (cases wc) (auto split: option.split)
  moreover have "sv_relays sv' = sv_relays sv \<and> sv_pm sv' = sv_pm sv \<and> sv_punch_reqs sv' = sv_punch_reqs sv"
    unfolding sv' send_to_tcp_wf [OF wf] using frame by (simp split: option.split)
  ultimately show ?thesis using refuse_punch_refusal [OF r] by blast
qed

theorem punch_access_control_witness:
  "\<exists>m. fst (snd (handle_tcp example_su example_in example_cf [2] (Some (TcpSink 3)) addr_a ''server'' False None example_sv)) =
     [ToSink (TcpSink 3) m] \<and> is_refusal m"
proof -
  obtain stay outs s' sv' where h: "handle_tcp example_su example_in example_cf [2] (Some (TcpSink 3)) addr_a ''server'' False None
      example_sv = (stay, outs, s', sv')" by (metis prod.collapse)
  have "su_parse example_su [2] = Some (PunchHoleRequest example_request)" "ph_licence_key example_request \<noteq> ''server''"
    "own_conn example_su addr_a None example_sv" "hget (ws_peers (sv_ws example_sv)) (su_into_v4 example_su addr_a) = None"
    by (simp_all add: own_conn_def example_defs ws_empty_def hget_def)
  with punch_access_control [OF example_sv_wf _ _ _ h] h show ?thesis by (auto simp: send_to_sink_def)
qed

text \<open>
  C8. What a request that is let through leads to: an id that the look-up does not find and a
  peer not seen for 30 seconds are answered as such; otherwise one message goes to the peer's address. It asks for the local
  addresses of the peer exactly when the requester is not on a websocket and both ends are inside
  the local network or have the same IP address; else it is a request to punch a hole, which says
  that relaying is needed when that is configured or one end only is inside. It names the local
  relay when the peer is inside and either the requester is not or relaying is configured, else a
  healthy relay, or none when there is none.
\<close>

theorem punch_hole_outcome:
  assumes "server_wf su sv" "refuse_punch su i key (sv_must_login sv) ph = None"
    and "handle_punch_hole_request su i cf addr ph key ws sv = ((m, to), sv')"
  shows "case fst (pm_get (su_serde su) (in_now i) (in_db_up i) (ph_id ph) (sv_pm sv)) of
      None \<Rightarrow> to = None \<and> m = PunchHoleResponse (empty_response\<lparr>phr_failure := Some ID_NOT_EXIST\<rparr>)
    | Some p \<Rightarrow>
        if REG_TIMEOUT \<le> elapsed_millis (in_now i) (last_reg_time p)
        then to = None \<and> m = PunchHoleResponse (empty_response\<lparr>phr_failure := Some OFFLINE\<rparr>)
        else
          (let peer_lan = is_lan cf (socket_addr p); lan = is_lan cf addr;
               force = sv_always_use_relay sv \<or> peer_lan \<noteq> lan
           in to = Some (socket_addr p) \<and>
              (\<exists>relay. m = (if \<not> ws \<and> (peer_lan \<and> lan \<or> sa_ip (socket_addr p) = sa_ip addr)
                         then FetchLocalAddr (su_mangle su addr) relay
                         else PunchHole (su_mangle su addr) (if force then SYMMETRIC else ph_nat_type ph) relay) \<and>
                 (if force \<and> peer_lan then relay = cf_local_ip cf
                  else if s_live (sv_relays sv) = [] then relay = []
                  else relay \<in> set (s_live (sv_relays sv)))))"
proof -
  obtain r pm where g: "pm_get (su_serde su) (in_now i) (in_db_up i) (ph_id ph) (sv_pm sv) = (r, pm)" by fastforce
  have relay: "if s_live (sv_relays sv) = [] then fst (get_relay_server su i a b s) = []
      else fst (get_relay_server su i a b s) \<in> set (s_live (sv_relays sv))"
    if "sv_relays s = sv_relays sv" for a b s
    using that assms(1) pick_live [of "su_sel su" "sv_relays sv" "in_now i" a b True]
      pick_none [of "sv_relays sv" "su_sel su" "in_now i" a b True]
    by (auto simp: get_relay_server_def server_wf_def split: prod.split)
  show ?thesis
  proof (cases r)
    case None
    with g assms(2,3) show ?thesis by (simp add: handle_punch_hole_request_def)
  next
    case (Some p)
    show ?thesis
    proof (cases "REG_TIMEOUT \<le> elapsed_millis (in_now i) (last_reg_time p)")
      case True
      with Some g assms(2,3) show ?thesis by (simp add: handle_punch_hole_request_def)
    next
      case False
      define s where "s = sv\<lparr>sv_pm := pm, sv_punch_reqs := record_punch_req (su_punch_max su) (in_now i)
        (show_ip (sa_ip (su_into_v4 su addr))) (show_ip (sa_ip (su_into_v4 su (socket_addr p))))
        (ph_id ph) (sv_punch_reqs sv)\<rparr>"
      define relay where "relay = fst (get_relay_server su i (sa_ip addr) (sa_ip (socket_addr p)) s)"
      have rel: "if s_live (sv_relays sv) = [] then relay = [] else relay \<in> set (s_live (sv_relays sv))"
        unfolding relay_def by (rule relay) (simp add: s_def)
      define force where "force \<longleftrightarrow> sv_always_use_relay sv \<or> is_lan cf (socket_addr p) \<noteq> is_lan cf addr"
      define named where "named = (if force \<and> is_lan cf (socket_addr p) then cf_local_ip cf else relay)"
      have eq: "(if \<not> ws \<and> (is_lan cf (socket_addr p) \<and> is_lan cf addr \<or> sa_ip (socket_addr p) = sa_ip addr)
          then FetchLocalAddr (su_mangle su addr) named
          else PunchHole (su_mangle su addr) (if force then SYMMETRIC else ph_nat_type ph) named) = m"
        "Some (socket_addr p) = to"
        unfolding named_def force_def relay_def s_def
        using assms(2,3) Some g False
        by (simp_all add: handle_punch_hole_request_def Let_def case_prod_beta same_kind_and_ip_def cong: if_cong split del: if_split)
      have "if force \<and> is_lan cf (socket_addr p) then named = cf_local_ip cf
          else if s_live (sv_relays sv) = [] then named = [] else named \<in> set (s_live (sv_relays sv))"
        using rel by (simp add: named_def)
      with eq [symmetric] have "to = Some (socket_addr p) \<and> (\<exists>relay.
          m = (if \<not> ws \<and> (is_lan cf (socket_addr p) \<and> is_lan cf addr \<or> sa_ip (socket_addr p) = sa_ip addr)
            then FetchLocalAddr (su_mangle su addr) relay
            else PunchHole (su_mangle su addr) (if force then SYMMETRIC else ph_nat_type ph) relay) \<and>
          (if force \<and> is_lan cf (socket_addr p) then relay = cf_local_ip cf
           else if s_live (sv_relays sv) = [] then relay = [] else relay \<in> set (s_live (sv_relays sv))))"
        by blast
      then show ?thesis
        unfolding g Some by (simp only: fst_conv option.case False if_False Let_def force_def)
    qed
  qed
qed


theorem punch_hole_outcome_witness:
  "snd (fst (handle_punch_hole_request example_su example_in example_cf addr_a example_request [] False example_sv)) = Some addr_b"
proof -
  obtain m to sv' where h: "handle_punch_hole_request example_su example_in example_cf addr_a example_request [] False example_sv
      = ((m, to), sv')" by (metis prod.collapse)
  have "refuse_punch example_su example_in [] (sv_must_login example_sv) example_request = None"
    by (simp add: refuse_punch_def example_defs)
  from punch_hole_outcome [OF example_sv_wf this h] h show ?thesis
    by (simp add: pm_get_def get_in_memory_def example_defs hget_def REG_TIMEOUT_def elapsed_millis_def Let_def)
qed

text \<open>
  The answer to a question about peers: one bit per peer, the first peer in the most
  significant bit of the first byte, set exactly when the peer registered in the last 30
  seconds; the bits left over in the last byte are zero.
\<close>

theorem online_state_bits:
  "length (peers_online_state i pm peers) = (length peers + 7) div 8 \<and>
   (\<forall>j < 8 * length (peers_online_state i pm peers).
      bit (peers_online_state i pm peers ! (j div 8)) (7 - j mod 8) \<longleftrightarrow>
      j < length peers \<and> (\<exists>p. get_in_memory pm (peers ! j) = Some p \<and> elapsed_millis (in_now i) (last_reg_time p) < 30000))"
proof -
  let ?n = "(length peers + 7) div 8"
  have "length peers \<le> 8 * ?n" by linarith
  then have "bit (peers_online_state i pm peers ! (j div 8)) (7 - j mod 8) \<longleftrightarrow>
      j < length peers \<and> peers_online_bits i pm peers ! j" if "j < 8 * ?n" for j
    using set_states_bit [of 0 "peers_online_bits i pm peers" "replicate ?n 0" j] that
    by (simp add: peers_online_state_def peers_online_bits_def)
  then show ?thesis
    by (auto simp: peers_online_state_def peers_online_bits_def REG_TIMEOUT_def split: option.splits)
qed

theorem online_state_bits_witness:
  "bit (peers_online_state example_in (sv_pm example_sv) [''1'', ''123456''] ! 0) 6 \<and>
   \<not> bit (peers_online_state example_in (sv_pm example_sv) [''1'', ''123456''] ! 0) 7"
  using online_state_bits [of example_in "sv_pm example_sv" "[''1'', ''123456'']", THEN conjunct2, rule_format, of 0]
    online_state_bits [of example_in "sv_pm example_sv" "[''1'', ''123456'']", THEN conjunct2, rule_format, of 1]
  by (simp add: peers_online_state_def get_in_memory_def example_defs hget_def elapsed_millis_def)

text \<open>
  The UDP port cannot be made to send to others: whatever a datagram contains, at most two
  datagrams are sent, both to the address it came from, and the messages that would be passed on
  to a peer are ignored there.
\<close>

theorem udp_answers_sender_only:
  assumes "handle_udp su i data addr cf sv = (outs, cf', sv')"
  shows "length outs \<le> 2 \<and> (\<forall>out \<in> set outs. \<exists>m. out = ToUdp m addr) \<and>
    (case su_parse su data of
       Some (PunchHoleRequest _) \<Rightarrow> outs = [] \<and> sv' = sv
     | Some (PunchHoleSent _) \<Rightarrow> outs = [] \<and> sv' = sv
     | Some (LocalAddr _) \<Rightarrow> outs = [] \<and> sv' = sv
     | _ \<Rightarrow> True)"
  using assms unfolding handle_udp_def
  by (auto simp: config_update_def split: option.splits rmsg.splits if_splits prod.splits)

theorem udp_answers_sender_only_witness:
  "\<exists>m. fst (handle_udp example_su example_in [4] addr_a example_cf example_sv) = [ToUdp m addr_a]"
proof -
  obtain outs cf' sv' where h: "handle_udp example_su example_in [4] addr_a example_cf example_sv = (outs, cf', sv')"
    by (metis prod.collapse)
  have "length (fst (handle_udp example_su example_in [4] addr_a example_cf example_sv)) = 1"
    by (simp add: handle_udp_def example_su_def valid_peer_id_def MAX_PEER_ID_LEN_def config_update_def example_cf_def
        case_prod_beta Let_def)
  with udp_answers_sender_only [OF h] h show ?thesis by (auto simp: length_Suc_conv)
qed

text \<open>
  C10. The way back: a request over TCP that is passed on parks the connection under the
  requester's address, which the message to the peer carries; when the peer's answer names that
  address, it goes to exactly that connection, with the peer's address and its signed key, and a
  second answer goes nowhere.
\<close>

theorem answer_returns_to_requester:
  assumes "server_wf su sv" "su_parse su data = Some (PunchHoleRequest ph)"
    and "handle_tcp su i cf data (Some k) addr key False None sv = (stay, [QueueUdp m to], s', sv1)"
    and "server_wf su sv2" "hget (sv_tcp_punch sv2) (su_into_v4 su addr) = hget (sv_tcp_punch sv1) (su_into_v4 su addr)"
    and "hget (ws_peers (sv_ws sv2)) (su_into_v4 su addr) = None"
    and "su_into_v4 su (su_unmangle su (su_mangle su addr)) = su_into_v4 su addr"
    and "phs_socket_addr phs = su_mangle su addr"
    and "handle_hole_sent su j cf2 phs addr_p sv2 = (outs, sv3)"
  shows "((\<exists>n relay. m = PunchHole (su_mangle su addr) n relay) \<or> (\<exists>relay. m = FetchLocalAddr (su_mangle su addr) relay)) \<and>
    stay \<and> s' = None \<and>
    outs = [ToSink k (PunchHoleResponse (empty_response\<lparr>phr_socket_addr := su_mangle su addr_p,
       phr_pk := fst (get_pk su j cf2 (phs_version phs) (phs_id phs) sv2),
       phr_relay_server := phs_relay_server phs, phr_nat_type := enum_value (phs_nat_type phs)\<rparr>))] \<and>
    fst (handle_hole_sent su j' cf3 phs addr_q sv3) = []"
proof -
  let ?sv0 = "sv\<lparr>sv_tcp_punch := hput (su_into_v4 su addr) k (sv_tcp_punch sv)\<rparr>"
  have wf0: "server_wf su ?sv0" using assms(1) by (simp add: server_wf_def)
  obtain m' to' sv' where p: "handle_punch_hole_request su i cf addr ph key False ?sv0 = ((m', to'), sv')"
    by (metis prod.collapse)
  have wf': "server_wf su sv'" using handle_punch_wf [OF wf0, of i cf addr ph key False] p by simp
  have tcp: "handle_tcp_punch_hole_request su i cf addr ph key False ?sv0 = ([QueueUdp m to], sv1)"
    and fin: "stay" "s' = None"
    using assms(2,3) by (auto simp: handle_tcp_def keep_route_def Let_def split: prod.splits)
  have to': "to' \<noteq> None"
    using tcp p by (auto simp: handle_tcp_punch_hole_request_def send_to_tcp_wf [OF wf'] send_to_sink_def split: option.splits)
  then have m: "m' = m" and sv1: "sv1 = sv'"
    using tcp p by (auto simp: handle_tcp_punch_hole_request_def push_ws_wf [OF wf'] split: option.splits)
  have route: "hget (sv_tcp_punch sv2) (su_into_v4 su addr) = Some k"
    using assms(5) sv1 handle_punch_frame(1) [of su i cf addr ph key False ?sv0] p by simp
  have first: "outs = send_to_sink (hget (sv_tcp_punch sv2) (su_into_v4 su addr))
      (PunchHoleResponse (empty_response\<lparr>phr_socket_addr := su_mangle su addr_p,
         phr_pk := fst (get_pk su j cf2 (phs_version phs) (phs_id phs) sv2),
         phr_relay_server := phs_relay_server phs, phr_nat_type := enum_value (phs_nat_type phs)\<rparr>))"
    and used: "hget (sv_tcp_punch sv3) (su_into_v4 su addr) = None" "sv_ws sv3 = sv_ws sv2" "server_wf su sv3"
    using hole_sent_to_route [OF assms(4) _ assms(9)] assms(6-8) by auto
  have "fst (handle_hole_sent su j' cf3 phs addr_q sv3) = []"
    using hole_sent_to_route [OF used(3) _ surjective_pairing, of phs j' cf3 addr_q] used assms(6-8)
    by (simp add: send_to_sink_def)
  moreover have "(\<exists>n relay. m = PunchHole (su_mangle su addr) n relay) \<or> (\<exists>relay. m = FetchLocalAddr (su_mangle su addr) relay)"
    using handle_punch_passed_on [of su i cf addr ph key False ?sv0 m] p m to' by auto
  ultimately show ?thesis using first route fin by (simp add: send_to_sink_def)
qed

lemma example_passed_on:
  "handle_tcp example_su example_in example_cf [2] (Some (TcpSink 3)) addr_a [] False None example_sv =
   (True, [QueueUdp (PunchHole (example_mangle addr_a) ASYMMETRIC ''a:1'') addr_b], None,
    snd (snd (snd (handle_tcp example_su example_in example_cf [2] (Some (TcpSink 3)) addr_a [] False None example_sv))))"
  by (simp add: handle_tcp_def keep_route_def handle_tcp_punch_hole_request_def handle_punch_hole_request_def
      refuse_punch_def pm_get_def get_in_memory_def REG_TIMEOUT_def elapsed_millis_def get_relay_server_def
      is_lan_def same_kind_and_ip_def push_ws_def push_to_ws_peer_def example_defs ws_empty_def
      selector_eval case_prod_beta Let_def)

theorem answer_returns_to_requester_witness:
  "\<exists>r. fst (handle_hole_sent example_su example_in example_cf example_sent addr_b
     (snd (snd (snd (handle_tcp example_su example_in example_cf [2] (Some (TcpSink 3)) addr_a [] False None example_sv))))) =
   [ToSink (TcpSink 3) (PunchHoleResponse r)]"
proof -
  let ?sv1 = "snd (snd (snd (handle_tcp example_su example_in example_cf [2] (Some (TcpSink 3)) addr_a [] False None example_sv)))"
  have wf1: "server_wf example_su ?sv1"
    by (rule handle_tcp_wf [OF example_sv_wf]) (simp_all add: own_conn_def example_in_def)
  have ws: "hget (ws_peers (sv_ws ?sv1)) (su_into_v4 example_su addr_a) = None"
    by (simp add: handle_tcp_def keep_route_def handle_tcp_punch_hole_request_def push_ws_def push_to_ws_peer_def
        handle_punch_frame send_to_tcp_def example_defs ws_empty_def hget_def case_prod_beta Let_def split: option.split)
  obtain outs sv3 where h: "handle_hole_sent example_su example_in example_cf example_sent addr_b ?sv1 = (outs, sv3)"
    by (metis prod.collapse)
  have parse: "su_parse example_su [2] = Some (PunchHoleRequest example_request)" by (simp add: example_su_def)
  have mangle: "su_into_v4 example_su (su_unmangle example_su (su_mangle example_su addr_a)) = su_into_v4 example_su addr_a"
    "phs_socket_addr example_sent = su_mangle example_su addr_a"
    by (simp_all add: example_su_def example_sent_def example_mangle_a example_unmangle_a)
  from answer_returns_to_requester [OF example_sv_wf parse example_passed_on wf1 refl ws mangle h] h show ?thesis
    by auto
qed


end
