(* ===== verification/Registry.thy ===== *)
theory Registry
  imports Rendezvous_Spec
begin

text \<open>
  What the registration of keys amounts to: a registry that binds an id to a device (its uuid),
  a key and an address. The peers in memory over the table of \<^verbatim>\<open>src/src/peer.rs\<close> and
  \<^verbatim>\<open>src/src/database.rs\<close>, with the caching and the limits of the handler, refine it.
\<close>

section \<open>The registry\<close>

type_synonym binding = "bytes \<times> bytes \<times> string"

text \<open>A device may claim an id that is free, or its own from the same address or with the same key.\<close>

definition claim_allowed :: "(string \<Rightarrow> binding option) \<Rightarrow> string \<Rightarrow> binding \<Rightarrow> bool" where
  "claim_allowed r pid b =
     (case r pid of None \<Rightarrow> True | Some (u, k, ip) \<Rightarrow> fst b = u \<and> (fst (snd b) = k \<or> snd (snd b) = ip))"

text \<open>The registry a map of peers stands for: a peer in memory that has registered, else its row.\<close>

definition binding_of :: "peer \<Rightarrow> binding" where
  "binding_of p = (uuid p, pk p, info_ip p)"

definition registry :: "serde \<Rightarrow> peer_map \<Rightarrow> string \<Rightarrow> binding option" where
  "registry sd pm pid =
     (case hget (pm_map pm) pid of
        Some p \<Rightarrow> if uuid p = [] then None else Some (binding_of p)
      | None \<Rightarrow> map_option (binding_of \<circ> peer_of_row sd 0) (List.find (\<lambda>r. row_id r = pid) (pm_db pm)))"

section \<open>Lemmas\<close>

lemma find_map_same:
  "(\<And>x. x \<in> set xs \<Longrightarrow> P (f x) = P x \<and> (P x \<longrightarrow> f x = x)) \<Longrightarrow> List.find P (map f xs) = List.find P xs"
  by (induction xs) auto

lemma find_append_other: "\<not> P x \<Longrightarrow> List.find P (xs @ [x]) = List.find P xs"
  by (induction xs) auto

lemma update_pk_other_rows:
  assumes "pm_wf pm" "hget (pm_map pm) pid = Some p" "pid' \<noteq> pid"
    and run: "pm_update_pk sd now up g pid p addr u k ip pm = (res, pm')"
  shows "List.find (\<lambda>r. row_id r = pid') (pm_db pm') = List.find (\<lambda>r. row_id r = pid') (pm_db pm)"
proof (cases "res = OK")
  case False
  with pm_update_pk_failed [OF run] show ?thesis by simp
next
  case ok: True
  show ?thesis
  proof (cases "guid p = []")
    case True
    with pm_update_pk_new(3) [OF run [unfolded ok]] assms(3) show ?thesis by (simp add: find_append_other)
  next
    case False
    let ?new = "\<lambda>r. r\<lparr>row_id := pid, row_pk := k, row_info := sd_print sd ip\<rparr>"
    have db': "pm_db pm' = map (\<lambda>r. if row_guid r = guid p then ?new r else r) (pm_db pm)"
      using pm_update_pk_old(2,3) [OF run [unfolded ok] False] by (auto simp: db_update_pk_def split: if_splits)
    obtain r0 where r0: "r0 \<in> set (pm_db pm)" "row_guid r0 = guid p" "row_id r0 = pid"
      using pm_wf_row [OF assms(1,2) False] by blast
    show ?thesis
      unfolding db'
    proof (rule find_map_same)
      fix r assume r: "r \<in> set (pm_db pm)"
      have "row_guid r = guid p \<Longrightarrow> row_id r = pid"
        using db_row_unique [of "pm_db pm" r r0] r r0 pm_wf_parts [OF assms(1)] by metis
      with assms(3) show "(row_id (if row_guid r = guid p then ?new r else r) = pid') = (row_id r = pid') \<and>
          (row_id r = pid' \<longrightarrow> (if row_guid r = guid p then ?new r else r) = r)" by auto
    qed
  qed
qed

lemma registry_write:
  assumes "pm_wf pm" "hget (pm_map pm) pid = Some p" "u \<noteq> []"
    and run: "pm_update_pk sd now up g pid p addr u k ip pm = (res, pm')"
  shows "registry sd' pm' = (registry sd' pm)(pid \<mapsto> (u, k, ip))"
proof
  fix pid'
  show "registry sd' pm' pid' = ((registry sd' pm)(pid \<mapsto> (u, k, ip))) pid'"
    using pm_update_pk_memory(1) [OF run] pm_update_pk_memory(2) [OF run, of pid'] assms(3)
      update_pk_other_rows [OF assms(1,2) _ run, of pid']
    by (cases "pid' = pid") (auto simp: registry_def binding_of_def split: option.split)
qed

lemma registry_touch:
  assumes "hget (pm_map pm) pid = Some p" "uuid p' = uuid p" "pk p' = pk p" "info_ip p' = info_ip p"
  shows "registry sd (pm_write pid p' pm) = registry sd pm"
  using assms by (auto simp: registry_def pm_write_def binding_of_def fun_eq_iff split: option.split)

lemma registry_known:
  assumes "pm_wf (sv_pm sv)" "in_db_up i"
  shows "registry (su_serde su) (sv_pm sv) pid =
    (if uuid (known_peer su i pid sv) = [] then None else Some (binding_of (known_peer su i pid sv)))"
proof (cases "hget (pm_map (sv_pm sv)) pid")
  case None
  show ?thesis
  proof (cases "List.find (\<lambda>r. row_id r = pid) (pm_db (sv_pm sv))")
    case None
    with \<open>hget _ _ = None\<close> assms(2) show ?thesis
      by (simp add: registry_def known_peer_def pm_get_or_def pm_get_def db_get_peer_def peer_default_def)
  next
    case (Some r)
    then have "row_uuid r \<noteq> []" using find_SomeD [OF Some] pm_wf_parts [OF assms(1)] by force
    with Some None assms(2) show ?thesis
      by (simp add: registry_def known_peer_def pm_get_or_def pm_get_def db_get_peer_def peer_of_row_def binding_of_def Let_def)
  qed
next
  case (Some p)
  then show ?thesis by (simp add: registry_def known_peer_def pm_get_or_def pm_get_def)
qed

lemma registry_loaded:
  assumes "pm_wf (sv_pm sv)" "in_db_up i"
  shows "registry (su_serde su) (loaded_map su i pid sv) = registry (su_serde su) (sv_pm sv)"
proof
  fix pid'
  show "registry (su_serde su) (loaded_map su i pid sv) pid' = registry (su_serde su) (sv_pm sv) pid'"
  proof (cases "pid' = pid")
    case True
    with registry_known [OF assms] loaded_map_known [of su i pid sv] show ?thesis by (simp add: registry_def)
  next
    case False
    with loaded_map_other [OF False, of su i sv] show ?thesis by (simp add: registry_def split: option.split)
  qed
qed

lemma compare_claim:
  "(compare_registration p u k ip = None) \<longleftrightarrow>
   \<not> claim_allowed (\<lambda>_. if uuid p = [] then None else Some (binding_of p)) pid (u, k, ip)"
  by (auto simp: compare_registration_def claim_allowed_def binding_of_def)

lemma register_pk_refines:
  assumes "handle_register_pk su i pid u k addr ws sv = (res, sv')"
    and "pm_wf (sv_pm sv)" "in_db_up i"
  shows "if res = Some OK
    then claim_allowed (registry (su_serde su) (sv_pm sv)) pid (u, k, show_ip (sa_ip addr)) \<and>
      registry (su_serde su) (sv_pm sv') = (registry (su_serde su) (sv_pm sv))(pid \<mapsto> (u, k, show_ip (sa_ip addr)))
    else registry (su_serde su) (sv_pm sv') = registry (su_serde su) (sv_pm sv) \<and>
      (u \<noteq> [] \<and> k \<noteq> [] \<and> 6 \<le> length pid \<and> length pid \<le> 253 \<and>
       claim_allowed (registry (su_serde su) (sv_pm sv)) pid (u, k, show_ip (sa_ip addr)) \<longrightarrow> res = Some TOO_FREQUENT)"
proof -
  let ?r = "registry (su_serde su)" and ?p = "known_peer su i pid sv" and ?ip = "show_ip (sa_ip addr)"
    and ?pm = "loaded_map su i pid sv"
  have claim: "claim_allowed (?r (sv_pm sv)) pid (u, k, ?ip) \<longleftrightarrow> compare_registration ?p u k ?ip \<noteq> None"
    using compare_claim [of ?p u k ?ip pid] registry_known [OF assms(2,3), of su pid] by (simp add: claim_allowed_def)
  show ?thesis
  proof (cases "res = Some OK")
    case True
    obtain changed ipc p' where c: "compare_registration ?p u k ?ip = Some (changed, ipc)"
      and tick: "reg_pk_tick (in_now i) ?p = (True, p')"
      and pm: "sv_pm sv' = (if changed \<or> ws
        then snd (pm_update_pk (su_serde su) (in_now i) (in_db_up i) (in_guid i) pid p' addr u k ?ip (pm_write pid p' ?pm))
        else pm_write pid p' ?pm)"
      using register_pk_ok [of su i pid u k addr ws sv sv'] assms(1) True by blast
    note same = reg_pk_tick_same [OF tick]
    have touch: "?r (pm_write pid p' ?pm) = ?r (sv_pm sv)"
      using registry_touch [OF loaded_map_known, of p' su i pid sv] same registry_loaded [OF assms(2,3)] by simp
    have wf: "pm_wf (pm_write pid p' ?pm)"
      using loaded_map_wf [OF assms(2)] loaded_map_known same by (intro pm_write_same_wf [of _ _ ?p]) auto
    have u: "u \<noteq> []" using assms(1) True by (auto simp: handle_register_pk_def)
    have "?r (sv_pm sv') = (?r (sv_pm sv))(pid \<mapsto> (u, k, ?ip))"
    proof (cases "changed \<or> ws")
      case True
      have "hget (pm_map (pm_write pid p' ?pm)) pid = Some p'" by (simp add: pm_write_def)
      from registry_write [OF wf this u surjective_pairing] touch True pm show ?thesis by simp
    next
      case False
      with compare_registration_same [OF c] have "?r (sv_pm sv) pid = Some (u, k, ?ip)"
        using registry_known [OF assms(2,3), of su pid] u by (simp add: binding_of_def)
      with False pm touch show ?thesis by (simp add: fun_upd_idem)
    qed
    with True claim c show ?thesis by simp
  next
    case False
    have "?r (sv_pm sv') = ?r (sv_pm sv)"
      using register_pk_refused [OF assms(1) False] registry_loaded [OF assms(2,3)] by auto
    moreover have "res = Some TOO_FREQUENT"
      if "u \<noteq> []" "k \<noteq> []" "6 \<le> length pid" "length pid \<le> 253" "compare_registration ?p u k ?ip \<noteq> None"
      using assms(1) False that unfolding register_pk_unfold
      by (auto simp: MAX_PEER_ID_LEN_def Let_def split: if_splits option.splits prod.splits)
    ultimately show ?thesis using False claim by simp
  qed
qed

section \<open>Properties\<close>

text \<open>
  C5. Registering a key refines a claim in the registry, as long as the table can be reached and
  nothing else is handled in between: an accepted registration was an allowed claim and binds the
  id to the device, the key and the address; any other answer leaves the registry alone, and an
  allowed claim of a well formed request is refused only for coming too often.
\<close>

theorem registration_refines_registry:
  assumes "handle_register_pk su i pid u k addr ws sv = (res, sv')"
    and "pm_wf (sv_pm sv)" "in_db_up i"
  shows "if res = Some OK
    then claim_allowed (registry (su_serde su) (sv_pm sv)) pid (u, k, show_ip (sa_ip addr)) \<and>
      registry (su_serde su) (sv_pm sv') = (registry (su_serde su) (sv_pm sv))(pid \<mapsto> (u, k, show_ip (sa_ip addr)))
    else registry (su_serde su) (sv_pm sv') = registry (su_serde su) (sv_pm sv) \<and>
      (u \<noteq> [] \<and> k \<noteq> [] \<and> 6 \<le> length pid \<and> length pid \<le> 253 \<and>
       claim_allowed (registry (su_serde su) (sv_pm sv)) pid (u, k, show_ip (sa_ip addr)) \<longrightarrow> res = Some TOO_FREQUENT)"
  by (rule register_pk_refines [OF assms])

theorem registration_refines_registry_witness:
  "registry example_serde (sv_pm (snd (handle_register_pk example_su example_in ''654321'' [1] [2] addr_a False example_sv)))
     ''654321'' = Some ([1], [2], ''5.5.5.5'')"
proof -
  have h: "handle_register_pk example_su example_in ''654321'' [1] [2] addr_a False example_sv =
      (Some OK, snd (handle_register_pk example_su example_in ''654321'' [1] [2] addr_a False example_sv))"
    using example_register by (metis prod.collapse)
  have "pm_wf (sv_pm example_sv)" using example_sv_wf by (simp add: server_wf_def)
  from registration_refines_registry [OF h this] show ?thesis
    by (simp add: example_in_def example_show example_su_def)
qed

end
