(* ===== verification/Registration_Race.thy ===== *)
theory Registration_Race
  imports Registry
begin

text \<open>
  Registrations that overlap. Every connection is a task of its own on a runtime with several
  threads, and \<^verbatim>\<open>handle_register_pk\<close> holds no lock from the comparison with the known peer to the
  write: it compares under one lock of the peer, lets go of it, writes the peer under another
  and then waits for the table. Here the handler is cut at these two points, the three parts
  in a row are shown to be the handler, and a step relation interleaves the parts of any number
  of registrations; other handlers never write the uuid, the key or the guid of a peer.
  Everything up to the counters is one part, so a peer is taken from the map or loaded from the
  table in one go, and the lock a registration then holds is the one the map has under its id. (Two
  first look-ups of a stored peer that overlap can each load it, the second replacing the first
  in the map; this is not part of the interleavings here.)
\<close>

section \<open>The parts of a registration\<close>

text \<open>Up to the comparison and its counters: an answer, or whether anything changed.\<close>

definition register_check ::
  "'n surroundings \<Rightarrow> inputs \<Rightarrow> string \<Rightarrow> bytes \<Rightarrow> bytes \<Rightarrow> sockaddr \<Rightarrow> 'n server
   \<Rightarrow> (reg_result option + bool) \<times> 'n server" where
  "register_check su i pid new_uuid new_pk addr sv =
     (if new_uuid = [] \<or> new_pk = [] then (Inl None, sv)
      else
        (let ip = show_ip (sa_ip addr)
         in if length pid < 6 \<or> MAX_PEER_ID_LEN < length pid then (Inl (Some UUID_MISMATCH), sv)
            else
              (case check_ip_blocker (in_now i) ip pid (sv_blocker sv) of
                 (False, blk) \<Rightarrow> (Inl (Some TOO_FREQUENT), sv\<lparr>sv_blocker := blk\<rparr>)
               | (True, blk) \<Rightarrow>
                   (let (p, pm1) = pm_get_or (su_serde su) (in_now i) (in_db_up i) pid (sv_pm sv);
                        sv1 = sv\<lparr>sv_blocker := blk, sv_pm := pm1\<rparr>
                    in case compare_registration p new_uuid new_pk ip of
                         None \<Rightarrow> (Inl (Some UUID_MISMATCH), sv1)
                       | Some (changed, ip_changed) \<Rightarrow>
                           (case reg_pk_tick (in_now i) p of
                              (False, _) \<Rightarrow> (Inl (Some TOO_FREQUENT), sv1)
                            | (True, p') \<Rightarrow>
                                (Inr changed, sv1\<lparr>sv_pm := pm_write pid p' pm1,
                                   sv_ip_changes := (if ip_changed
                                     then record_ip_change (in_now i) pid ip (sv_ip_changes sv)
                                     else sv_ip_changes sv)\<rparr>))))))"

text \<open>The first half of \<^verbatim>\<open>PeerMap::update_pk\<close>: the peer is written under its lock, its guid kept.\<close>

definition register_write ::
  "instant \<Rightarrow> string \<Rightarrow> bytes \<Rightarrow> bytes \<Rightarrow> sockaddr \<Rightarrow> peer_map \<Rightarrow> bytes \<times> peer_map" where
  "register_write now pid new_uuid new_pk addr pm =
     (case hget (pm_map pm) pid of
        None \<Rightarrow> ([], pm)
      | Some p \<Rightarrow>
          (guid p, pm_write pid (p\<lparr>socket_addr := addr, uuid := new_uuid, pk := new_pk, last_reg_time := now,
             info_ip := show_ip (sa_ip addr)\<rparr>) pm))"

text \<open>The second half: the row is inserted, its guid then written to the peer, or changed.\<close>

definition register_store ::
  "serde \<Rightarrow> bool \<Rightarrow> bytes \<Rightarrow> string \<Rightarrow> bytes \<Rightarrow> bytes \<Rightarrow> sockaddr \<Rightarrow> bytes \<Rightarrow> peer_map \<Rightarrow> reg_result \<times> peer_map" where
  "register_store sd up new_guid pid new_uuid new_pk addr old_guid pm =
     (let info_str = sd_print sd (show_ip (sa_ip addr))
      in if old_guid = [] then
           (case db_insert_peer up new_guid pid new_uuid new_pk info_str (pm_db pm) of
              (Inl _, _) \<Rightarrow> (SERVER_ERROR, pm)
            | (Inr g, db) \<Rightarrow>
                (OK, (case hget (pm_map pm) pid of
                        None \<Rightarrow> pm\<lparr>pm_db := db\<rparr>
                      | Some w \<Rightarrow> pm_write pid (w\<lparr>guid := g\<rparr>) (pm\<lparr>pm_db := db\<rparr>))))
         else
           (case db_update_pk up old_guid pid new_pk info_str (pm_db pm) of
              (Inl _, _) \<Rightarrow> (SERVER_ERROR, pm)
            | (Inr _, db) \<Rightarrow> (OK, pm\<lparr>pm_db := db\<rparr>)))"

section \<open>Interleavings\<close>

record registration =
  rg_in :: inputs
  rg_id :: string
  rg_uuid :: bytes
  rg_pk :: bytes
  rg_addr :: sockaddr
  rg_ws :: bool

datatype stage = Checked bool | Written bytes

record 'n race =
  rc_sv :: "'n server"
  rc_tasks :: "(registration \<times> stage) list"
  rc_confirmed :: "registration list"

definition race_start :: "'n server \<Rightarrow> 'n race" where
  "race_start sv = \<lparr>rc_sv = sv, rc_tasks = [], rc_confirmed = []\<rparr>"

inductive race_step :: "'n surroundings \<Rightarrow> 'n race \<Rightarrow> 'n race \<Rightarrow> bool" for su where
  race_refuse:
    "register_check su (rg_in (q :: registration)) (rg_id q) (rg_uuid q) (rg_pk q) (rg_addr q) (rc_sv st) = (Inl res, sv') \<Longrightarrow>
     race_step su st (st\<lparr>rc_sv := sv'\<rparr>)"
| race_check:
    "register_check su (rg_in q) (rg_id q) (rg_uuid q) (rg_pk q) (rg_addr q) (rc_sv st) = (Inr changed, sv') \<Longrightarrow>
     race_step su st (st\<lparr>rc_sv := sv', rc_tasks := rc_tasks st @ [(q, Checked changed)]\<rparr>)"
| race_skip:
    "rc_tasks st = ps @ (q, Checked changed) # qs \<Longrightarrow> \<not> (changed \<or> rg_ws q) \<Longrightarrow>
     race_step su st (st\<lparr>rc_tasks := ps @ qs, rc_confirmed := rc_confirmed st @ [q]\<rparr>)"
| race_write:
    "rc_tasks st = ps @ (q, Checked changed) # qs \<Longrightarrow> changed \<or> rg_ws q \<Longrightarrow>
     register_write (in_now (rg_in q)) (rg_id q) (rg_uuid q) (rg_pk q) (rg_addr q) (sv_pm (rc_sv st)) = (g, pm') \<Longrightarrow>
     race_step su st (st\<lparr>rc_sv := (rc_sv st)\<lparr>sv_pm := pm'\<rparr>, rc_tasks := ps @ (q, Written g) # qs\<rparr>)"
| race_store:
    "rc_tasks st = ps @ (q, Written g) # qs \<Longrightarrow>
     register_store (su_serde su) (in_db_up (rg_in q)) (in_guid (rg_in q)) (rg_id q) (rg_uuid q) (rg_pk q)
       (rg_addr q) g (sv_pm (rc_sv st)) = (res, pm') \<Longrightarrow>
     race_step su st (st\<lparr>rc_sv := (rc_sv st)\<lparr>sv_pm := pm'\<rparr>, rc_tasks := ps @ qs,
       rc_confirmed := rc_confirmed st @ [q]\<rparr>)"

section \<open>Lemmas on the parts\<close>

lemma register_check_pm:
  assumes "register_check su i pid u k addr sv = (res, sv')"
  shows "sv_pm sv' \<in> {sv_pm sv, loaded_map su i pid sv} \<or>
    (\<exists>changed ipc p'. res = Inr changed \<and>
       compare_registration (known_peer su i pid sv) u k (show_ip (sa_ip addr)) = Some (changed, ipc) \<and>
       reg_pk_tick (in_now i) (known_peer su i pid sv) = (True, p') \<and>
       sv_pm sv' = pm_write pid p' (loaded_map su i pid sv))"
  using assms unfolding register_check_def known_peer_def loaded_map_def Let_def
  by (auto split: if_splits prod.splits bool.splits option.splits)

lemma register_check_passed:
  assumes "register_check su i pid u k addr sv = (Inr changed, sv')"
  shows "\<exists>ipc p'. compare_registration (known_peer su i pid sv) u k (show_ip (sa_ip addr)) = Some (changed, ipc) \<and>
       reg_pk_tick (in_now i) (known_peer su i pid sv) = (True, p') \<and>
       sv_pm sv' = pm_write pid p' (loaded_map su i pid sv)"
  using assms unfolding register_check_def known_peer_def loaded_map_def Let_def
  by (auto split: if_splits prod.splits bool.splits option.splits)

lemma update_pk_split:
  assumes "hget (pm_map pm) pid = Some p"
  shows "pm_update_pk sd now up g pid p addr u k (show_ip (sa_ip addr)) pm =
    (case register_write now pid u k addr pm of (og, pm') \<Rightarrow> register_store sd up g pid u k addr og pm')"
  using assms
  by (auto simp: pm_update_pk_def register_write_def register_store_def pm_write_def Let_def
      split: prod.split sum.split)

lemma known_in_memory: "hget (pm_map (sv_pm sv)) pid = Some p \<Longrightarrow> known_peer su i pid sv = p"
  by (simp add: known_peer_def pm_get_or_def pm_get_def)

text \<open>What a peer may be after the comparison: as it was, loaded, or with its counter moved on.\<close>

lemma register_check_memory:
  assumes "register_check su i pid u k addr sv = (res, sv')"
  shows "pid' \<noteq> pid \<Longrightarrow> hget (pm_map (sv_pm sv')) pid' = hget (pm_map (sv_pm sv)) pid'"
    and "hget (pm_map (sv_pm sv')) pid = Some q \<Longrightarrow>
      guid q = guid (known_peer su i pid sv) \<and> uuid q = uuid (known_peer su i pid sv)"
    and "hget (pm_map (sv_pm sv)) pid = Some q \<Longrightarrow>
      \<exists>q'. hget (pm_map (sv_pm sv')) pid = Some q' \<and> guid q' = guid q \<and> uuid q' = uuid q"
    and "pm_db (sv_pm sv') = pm_db (sv_pm sv)"
  using register_check_pm [OF assms] reg_pk_tick_same known_in_memory [of sv pid _ su i]
    loaded_map_known [of su i pid sv] loaded_map_other [of pid' pid su i sv]
  by (fastforce simp: pm_write_def)+

lemma register_write_result:
  assumes "register_write now pid u k addr pm = (g, pm')" "hget (pm_map pm) pid = Some p"
  shows "g = guid p" "pm_db pm' = pm_db pm"
    "hget (pm_map pm') pid' = (if pid' = pid then Some (p\<lparr>socket_addr := addr, uuid := u, pk := k, last_reg_time := now,
      info_ip := show_ip (sa_ip addr)\<rparr>) else hget (pm_map pm) pid')"
  using assms by (auto simp: register_write_def pm_write_def)

lemma register_write_none:
  "register_write now pid u k addr pm = (g, pm') \<Longrightarrow> hget (pm_map pm) pid = None \<Longrightarrow> g = [] \<and> pm' = pm"
  by (simp add: register_write_def)

section \<open>Rows under interleaving\<close>

text \<open>What identifies a row. The statement that changes a row leaves its uuid alone, and a peer and a
  registration under way know the guid of a row of their own id only.\<close>

definition row_keys :: "database \<Rightarrow> (bytes \<times> string \<times> bytes) set" where
  "row_keys db = (\<lambda>r. (row_guid r, row_id r, row_uuid r)) ` set db"

definition row_at :: "database \<Rightarrow> bytes \<Rightarrow> string \<Rightarrow> bool" where
  "row_at db g pid \<longleftrightarrow> (\<exists>r \<in> set db. row_guid r = g \<and> row_id r = pid)"

lemma row_at_keys: "row_at db g pid \<longleftrightarrow> (\<exists>u. (g, pid, u) \<in> row_keys db)"
  by (auto simp: row_at_def row_keys_def)

lemma row_at_mono: "row_at db g pid \<Longrightarrow> row_keys db \<subseteq> row_keys db' \<Longrightarrow> row_at db' g pid"
  by (auto simp: row_at_keys)

lemma insert_row_keys: "row_keys db \<subseteq> row_keys (snd (db_insert_peer up g pid u k info db))"
  by (auto simp: db_insert_peer_def row_keys_def)

lemma update_row_keys:
  assumes "db_wf db" "row_at db g pid"
  shows "row_keys (snd (db_update_pk up g pid k info db)) = row_keys db"
proof -
  let ?key = "\<lambda>r. (row_guid r, row_id r, row_uuid r)"
    and ?set = "\<lambda>r. if row_guid r = g then r\<lparr>row_id := pid, row_pk := k, row_info := info\<rparr> else r"
  have "row_id r = pid" if "r \<in> set db" "row_guid r = g" for r
    using assms db_row_unique that unfolding row_at_def by blast
  then have key: "?key (?set r) = ?key r" if "r \<in> set db" for r using that by (cases "row_guid r = g") simp_all
  have "?key ` ?set ` set db = ?key ` set db" unfolding image_image by (rule image_cong [OF refl key])
  moreover have either: "snd (if b then (x, d) else (y, m)) = d \<or> snd (if b then (x, d) else (y, m)) = m"
    for b and x y :: "unit + unit" and d m :: database by simp
  have "snd (db_update_pk up g pid k info db) = db \<or> snd (db_update_pk up g pid k info db) = map ?set db"
    unfolding db_update_pk_def by (rule either)
  ultimately show ?thesis unfolding row_keys_def by (elim disjE) (simp_all only: list.set_map)
qed

lemma register_store_memory:
  assumes "register_store sd up g pid u k addr og pm = (res, pm')"
  shows "pid' \<noteq> pid \<Longrightarrow> hget (pm_map pm') pid' = hget (pm_map pm) pid'"
    and "map_option uuid (hget (pm_map pm') pid) = map_option uuid (hget (pm_map pm) pid)"
    and "hget (pm_map pm') pid = Some p' \<Longrightarrow>
      row_at (pm_db pm') (guid p') pid \<or> (\<exists>p. hget (pm_map pm) pid = Some p \<and> guid p' = guid p)"
  using assms
  by (auto simp: register_store_def pm_write_def db_insert_peer_def row_at_def Let_def
      split: if_splits prod.splits sum.splits option.splits)

lemma register_store_rows:
  assumes "register_store sd up g pid u k addr og pm = (res, pm')" "db_wf (pm_db pm)"
    and "og = [] \<or> row_at (pm_db pm) og pid"
  shows "db_wf (pm_db pm')" "row_keys (pm_db pm) \<subseteq> row_keys (pm_db pm')"
proof -
  have "pm_db pm' \<in> {pm_db pm, snd (db_insert_peer up g pid u k (sd_print sd (show_ip (sa_ip addr))) (pm_db pm))} \<or>
      og \<noteq> [] \<and> pm_db pm' = snd (db_update_pk up og pid k (sd_print sd (show_ip (sa_ip addr))) (pm_db pm))"
    using assms(1) by (auto simp: register_store_def pm_write_def Let_def
      split: if_splits prod.splits sum.splits option.splits)
  with assms(2,3) show "db_wf (pm_db pm')" "row_keys (pm_db pm) \<subseteq> row_keys (pm_db pm')"
    using db_insert_wf db_update_wf insert_row_keys update_row_keys by fastforce+
qed

text \<open>Reading a peer back finds its own row.\<close>

lemma known_peer_row:
  assumes "\<forall>p. hget (pm_map (sv_pm sv)) pid = Some p \<longrightarrow> guid p = [] \<or> row_at (pm_db (sv_pm sv)) (guid p) pid"
  shows "guid (known_peer su i pid sv) = [] \<or> row_at (pm_db (sv_pm sv)) (guid (known_peer su i pid sv)) pid"
  using assms unfolding known_peer_def pm_get_or_def pm_get_def db_get_peer_def
  by (auto simp: peer_of_row_def peer_default_def row_at_def Let_def dest: find_SomeD split: option.split)

section \<open>Invariant\<close>

definition task_wf :: "database \<Rightarrow> registration \<times> stage \<Rightarrow> bool" where
  "task_wf db t = (case t of (q, Checked _) \<Rightarrow> True | (q, Written g) \<Rightarrow> g = [] \<or> row_at db g (rg_id q))"

definition peers_own_rows :: "peer_map \<Rightarrow> bool" where
  "peers_own_rows pm \<longleftrightarrow>
     (\<forall>pid p. hget (pm_map pm) pid = Some p \<longrightarrow> guid p = [] \<or> row_at (pm_db pm) (guid p) pid)"

definition race_wf :: "'n race \<Rightarrow> bool" where
  "race_wf st \<longleftrightarrow> db_wf (pm_db (sv_pm (rc_sv st))) \<and> peers_own_rows (sv_pm (rc_sv st)) \<and>
     (\<forall>t \<in> set (rc_tasks st). task_wf (pm_db (sv_pm (rc_sv st))) t)"

definition bound_to :: "string \<Rightarrow> bytes \<Rightarrow> 'n race \<Rightarrow> bool" where
  "bound_to pid u st \<longleftrightarrow>
     map_option uuid (hget (pm_map (sv_pm (rc_sv st))) pid) = Some u \<and>
     (\<forall>q \<in> fst ` set (rc_tasks st) \<union> set (rc_confirmed st). rg_id q = pid \<longrightarrow> rg_uuid q = u)"

lemma task_wf_mono: "task_wf db t \<Longrightarrow> row_keys db \<subseteq> row_keys db' \<Longrightarrow> task_wf db' t"
  unfolding task_wf_def by (auto intro: row_at_mono split: prod.splits stage.splits)

lemma check_own_rows:
  assumes "register_check su i pid u k addr sv = (res, sv')" "peers_own_rows (sv_pm sv)"
  shows "peers_own_rows (sv_pm sv')"
  unfolding peers_own_rows_def
proof (intro allI impI)
  fix pid' p
  assume p: "hget (pm_map (sv_pm sv')) pid' = Some p"
  show "guid p = [] \<or> row_at (pm_db (sv_pm sv')) (guid p) pid'"
  proof (cases "pid' = pid")
    case True
    with p register_check_memory(2,4) [OF assms(1)] known_peer_row [of sv pid su i] assms(2) show ?thesis
      by (auto simp: peers_own_rows_def)
  next
    case False
    with p register_check_memory(1,4) [OF assms(1)] assms(2) show ?thesis by (auto simp: peers_own_rows_def)
  qed
qed

lemma write_own_rows:
  assumes "register_write now pid u k addr pm = (g, pm')" "peers_own_rows pm"
  shows "peers_own_rows pm'" "g = [] \<or> row_at (pm_db pm) g pid" "pm_db pm' = pm_db pm"
proof -
  have "\<exists>p'. hget (pm_map pm) pid' = Some p' \<and> guid p = guid p'" if "hget (pm_map pm') pid' = Some p" for pid' p
    using assms(1) that by (cases "pid' = pid") (auto simp: register_write_def pm_write_def split: option.splits)
  moreover show db: "pm_db pm' = pm_db pm"
    using assms(1) by (auto simp: register_write_def pm_write_def split: option.splits)
  ultimately show "peers_own_rows pm'" using assms(2) unfolding peers_own_rows_def db by metis
  show "g = [] \<or> row_at (pm_db pm) g pid"
    using assms unfolding register_write_def peers_own_rows_def by (cases "hget (pm_map pm) pid") auto
qed

lemma store_own_rows:
  assumes "register_store sd up g pid u k addr og pm = (res, pm')" "peers_own_rows pm" "db_wf (pm_db pm)"
    and "og = [] \<or> row_at (pm_db pm) og pid"
  shows "peers_own_rows pm'"
  unfolding peers_own_rows_def
proof (intro allI impI)
  fix pid' p
  assume p: "hget (pm_map pm') pid' = Some p"
  note keys = register_store_rows(2) [OF assms(1,3,4)]
  show "guid p = [] \<or> row_at (pm_db pm') (guid p) pid'"
  proof (cases "pid' = pid")
    case True
    with p register_store_memory(3) [OF assms(1), of p] assms(2) row_at_mono [OF _ keys] show ?thesis
      unfolding peers_own_rows_def by metis
  next
    case False
    with p register_store_memory(1) [OF assms(1) False] assms(2) row_at_mono [OF _ keys] show ?thesis
      unfolding peers_own_rows_def by metis
  qed
qed

lemma race_step_wf:
  "race_step su st st' \<Longrightarrow> race_wf st \<Longrightarrow>
   race_wf st' \<and> row_keys (pm_db (sv_pm (rc_sv st))) \<subseteq> row_keys (pm_db (sv_pm (rc_sv st')))"
proof (induction rule: race_step.induct)
  case (race_refuse q st res sv')
  with check_own_rows register_check_memory(4) [OF race_refuse(1)] show ?case by (auto simp: race_wf_def)
next
  case (race_check q st changed sv')
  with check_own_rows register_check_memory(4) [OF race_check(1)] show ?case
    by (auto simp: race_wf_def task_wf_def)
next
  case (race_skip st ps q changed qs)
  then show ?case by (auto simp: race_wf_def)
next
  case (race_write st ps q changed qs g pm')
  with write_own_rows [OF race_write(3)] show ?case by (auto simp: race_wf_def task_wf_def)
next
  case (race_store st ps q g qs res pm')
  have g: "g = [] \<or> row_at (pm_db (sv_pm (rc_sv st))) g (rg_id q)"
    using race_store(1,3) by (simp add: race_wf_def task_wf_def)
  have wf: "peers_own_rows (sv_pm (rc_sv st))" "db_wf (pm_db (sv_pm (rc_sv st)))"
    using race_store(3) by (simp_all add: race_wf_def)
  note rows = register_store_rows [OF race_store(2) wf(2) g]
  have "\<forall>t \<in> set (ps @ qs). task_wf (pm_db pm') t"
    using race_store(1,3) task_wf_mono [OF _ rows(2)] by (auto simp: race_wf_def)
  with rows store_own_rows [OF race_store(2) wf g] show ?case by (simp add: race_wf_def)
qed

text \<open>Once an id is bound, every registration of it that passes the comparison carries its uuid.\<close>

lemma race_step_bound:
  "race_step su st st' \<Longrightarrow> u \<noteq> [] \<Longrightarrow> bound_to pid u st \<Longrightarrow> bound_to pid u st'"
proof (induction rule: race_step.induct)
  case (race_refuse q st res sv')
  with register_check_memory(1,3) [OF race_refuse(1)] show ?case
    by (cases "pid = rg_id q") (fastforce simp: bound_to_def)+
next
  case (race_check q st changed sv')
  have "rg_uuid q = u" if "pid = rg_id q"
    using race_check(2,3) that register_check_passed [OF race_check(1)] compare_registration_uuid known_in_memory
    by (fastforce simp: bound_to_def)
  with race_check register_check_memory(1,3) [OF race_check(1)] show ?case
    by (cases "pid = rg_id q") (fastforce simp: bound_to_def)+
next
  case (race_skip st ps q changed qs)
  then show ?case by (auto simp: bound_to_def)
next
  case (race_write st ps q changed qs g pm')
  have "rg_uuid q = u" if "pid = rg_id q" using race_write(1,5) that by (auto simp: bound_to_def)
  then have "map_option uuid (hget (pm_map pm') pid) = Some u"
    using race_write(3,5) by (auto simp: bound_to_def register_write_def pm_write_def split: option.splits)
  with race_write(1,5) show ?case by (auto simp: bound_to_def)
next
  case (race_store st ps q g qs res pm')
  have "map_option uuid (hget (pm_map pm') pid) = map_option uuid (hget (pm_map (sv_pm (rc_sv st))) pid)"
    using register_store_memory(1,2) [OF race_store(2)] by metis
  with race_store(1,4) show ?case by (auto simp: bound_to_def)
qed

lemma race_start_wf: "pm_wf (sv_pm sv) \<Longrightarrow> race_wf (race_start sv)"
  unfolding race_start_def race_wf_def pm_wf_def peers_own_rows_def row_at_def by (simp, blast)

interpretation race: invariant_system "race_step su" "\<lambda>st. \<exists>sv. pm_wf (sv_pm sv) \<and> st = race_start sv" race_wf
    for su
  by unfold_locales (use race_start_wf race_step_wf in blast)+

lemma race_keeps_rows:
  assumes "(race_step su)\<^sup>*\<^sup>* st st'" "race_wf st"
  shows "row_keys (pm_db (sv_pm (rc_sv st))) \<subseteq> row_keys (pm_db (sv_pm (rc_sv st')))"
  using assms
proof (induction rule: rtranclp_induct)
  case (step y z)
  with race_step_wf [OF step(2)] race.steps_inv [OF step(1)] show ?case by blast
qed simp

lemma race_keeps_bound: "(race_step su)\<^sup>*\<^sup>* st st' \<Longrightarrow> u \<noteq> [] \<Longrightarrow> bound_to pid u st \<Longrightarrow> bound_to pid u st'"
  by (induction rule: rtranclp_induct) (auto intro: race_step_bound)

text \<open>Nothing between the parts: the three parts are the handler.\<close>

lemma register_parts:
  "handle_register_pk su i pid u k addr ws sv =
    (case register_check su i pid u k addr sv of
       (Inl res, sv') \<Rightarrow> (res, sv')
     | (Inr changed, sv') \<Rightarrow>
         (Some OK,
          if changed \<or> ws
          then sv'\<lparr>sv_pm := (case register_write (in_now i) pid u k addr (sv_pm sv') of
                 (og, pm') \<Rightarrow> snd (register_store (su_serde su) (in_db_up i) (in_guid i) pid u k addr og pm'))\<rparr>
          else sv'))"
proof -
  have "snd (pm_update_pk sd now up g pid p addr u k (show_ip (sa_ip addr)) (pm_write pid p pm)) =
      (case register_write now pid u k addr (pm_write pid p pm) of
         (og, pm') \<Rightarrow> snd (register_store sd up g pid u k addr og pm'))" for sd now up g p pm
    by (subst update_pk_split) (simp_all add: pm_write_def case_prod_beta)
  then show ?thesis
    unfolding handle_register_pk_def register_check_def Let_def
    by (auto split: prod.split bool.split option.split)
qed

text \<open>A registration of an id without a uuid passes as a change and leaves the peer without one.\<close>

lemma check_unbound:
  assumes "register_check su i pid u k addr sv = (Inr changed, sv')"
    and "guid (known_peer su i pid sv) = []" "uuid (known_peer su i pid sv) = []"
  shows "changed" "\<exists>p. hget (pm_map (sv_pm sv')) pid = Some p \<and> guid p = [] \<and> uuid p = []"
    "pm_db (sv_pm sv') = pm_db (sv_pm sv)"
  using register_check_passed [OF assms(1)] reg_pk_tick_same assms(2,3)
  by (fastforce simp: compare_registration_def pm_write_def)+

lemma fresh_known:
  assumes "hget (pm_map (sv_pm sv)) pid = None" "\<forall>r \<in> set (pm_db (sv_pm sv)). row_id r \<noteq> pid"
  shows "known_peer su i pid sv = peer_default (in_now i)"
proof -
  have "List.find (\<lambda>r. row_id r = pid) (pm_db (sv_pm sv)) = None" using assms(2) by (simp add: find_None_iff_set)
  with assms(1) show ?thesis by (simp add: known_peer_def pm_get_or_def pm_get_def db_get_peer_def)
qed

text \<open>After a restart the row decides.\<close>

lemma restart_refuses:
  assumes "db_wf (pm_db pm)" "r \<in> set (pm_db pm)" "row_id r = pid" "row_uuid r \<noteq> []" "u \<noteq> row_uuid r" "in_db_up i"
  shows "fst (handle_register_pk su i pid u k addr ws (sv\<lparr>sv_pm := restart pm\<rparr>)) \<noteq> Some OK"
proof
  let ?sv = "sv\<lparr>sv_pm := restart pm\<rparr>"
  assume "fst (handle_register_pk su i pid u k addr ws ?sv) = Some OK"
  then have "compare_registration (known_peer su i pid ?sv) u k (show_ip (sa_ip addr)) \<noteq> None"
    using register_pk_ok [of su i pid u k addr ws ?sv] by (metis option.distinct(1) prod.collapse)
  moreover have "known_peer su i pid ?sv = peer_of_row (su_serde su) (in_now i) r"
    using db_find_row [OF assms(1,2)] assms(3,6)
    by (simp add: known_peer_def pm_get_or_def pm_get_def db_get_peer_def restart_def Let_def)
  ultimately show False using assms(4,5) by (simp add: compare_registration_def peer_of_row_def)
qed

text \<open>The writes of two registrations that found the id unbound, one after the other.\<close>

lemma mixed_writes:
  assumes "hget (pm_map pm) pid = Some p" "guid p = []" "ga \<noteq> []"
    and "\<forall>r \<in> set (pm_db pm). row_id r \<noteq> pid \<and> row_guid r \<noteq> ga"
    and "register_write na pid ua ka aa pm = (g1, pm1)" "register_store sd True ga pid ua ka aa g1 pm1 = (r1, pm2)"
    and "register_write nb pid ub kb ab pm2 = (g2, pm3)" "register_store sd True gb pid ub kb ab g2 pm3 = (r2, pm4)"
  shows "\<exists>p. hget (pm_map pm4) pid = Some p \<and> uuid p = ub \<and> pk p = kb"
    and "\<exists>r \<in> set (pm_db pm4). row_id r = pid \<and> row_uuid r = ua \<and> row_pk r = kb"
    and "db_wf (pm_db pm) \<Longrightarrow> db_wf (pm_db pm4)"
proof -
  let ?row = "\<lparr>row_guid = ga, row_id = pid, row_uuid = ua, row_pk = ka, row_info = sd_print sd (show_ip (sa_ip aa))\<rparr>"
  have 1: "g1 = []" "pm_db pm1 = pm_db pm" "\<exists>p1. hget (pm_map pm1) pid = Some p1"
    using register_write_result [OF assms(5,1)] assms(2) by auto
  have 2: "pm_db pm2 = pm_db pm @ [?row]" "\<exists>p2. hget (pm_map pm2) pid = Some p2 \<and> guid p2 = ga"
    using assms(4,6) 1 by (auto simp: register_store_def db_insert_peer_def pm_write_def Let_def split: if_splits)
  then have 3: "g2 = ga" "pm_db pm3 = pm_db pm2" "\<exists>p3. hget (pm_map pm3) pid = Some p3 \<and> uuid p3 = ub \<and> pk p3 = kb"
    using register_write_result [OF assms(7)] by auto
  let ?upd = "db_update_pk True ga pid kb (sd_print sd (show_ip (sa_ip ab))) (pm_db pm3)"
  have none: "\<not> (\<exists>r \<in> set (pm_db pm3). row_id r = pid \<and> row_guid r \<noteq> ga)" using assms(4) 2 3 by auto
  have upd: "?upd = (Inr (), snd ?upd)" unfolding db_update_pk_def using none by (subst if_not_P; simp)
  have "pm4 = pm3\<lparr>pm_db := snd ?upd\<rparr>"
    using assms(3,8) unfolding 3(1) register_store_def Let_def by (subst (asm) upd) simp
  moreover have "?row\<lparr>row_pk := kb, row_info := sd_print sd (show_ip (sa_ip ab))\<rparr> \<in> set (snd ?upd)"
    using none 2(1) 3(2) by (simp add: db_update_pk_def) blast
  ultimately show "\<exists>p. hget (pm_map pm4) pid = Some p \<and> uuid p = ub \<and> pk p = kb"
    "\<exists>r \<in> set (pm_db pm4). row_id r = pid \<and> row_uuid r = ua \<and> row_pk r = kb"
    using 3(3) by (simp, force)
  assume "db_wf (pm_db pm)"
  with assms(4) have "db_wf (pm_db pm3)" unfolding 3(2) 2(1) by (auto simp: db_wf_def)
  with \<open>pm4 = _\<close> show "db_wf (pm_db pm4)" using db_update_wf by simp
qed

section \<open>Properties\<close>

text \<open>
  C6. A bound id is safe from overlapping registrations: when the peer of an id is bound to a
  uuid, then however the parts of any number of registrations interleave, the peer stays bound
  to this uuid, only registrations with this uuid are confirmed for the id, and every row of
  the table keeps its guid, its id and its uuid.
\<close>

theorem bound_id_survives_races:
  assumes "pm_wf (sv_pm sv)" "hget (pm_map (sv_pm sv)) pid = Some p" "uuid p \<noteq> []"
    and "(race_step su)\<^sup>*\<^sup>* (race_start sv) st"
  shows "(\<exists>p'. hget (pm_map (sv_pm (rc_sv st))) pid = Some p' \<and> uuid p' = uuid p) \<and>
    (\<forall>q \<in> set (rc_confirmed st). rg_id q = pid \<longrightarrow> rg_uuid q = uuid p) \<and>
    (\<forall>r \<in> set (pm_db (sv_pm sv)). \<exists>r' \<in> set (pm_db (sv_pm (rc_sv st))).
       row_guid r' = row_guid r \<and> row_id r' = row_id r \<and> row_uuid r' = row_uuid r)"
proof -
  have "bound_to pid (uuid p) (race_start sv)" using assms(2) by (simp add: bound_to_def race_start_def)
  from race_keeps_bound [OF assms(4,3) this] have "bound_to pid (uuid p) st" .
  moreover have "row_keys (pm_db (sv_pm sv)) \<subseteq> row_keys (pm_db (sv_pm (rc_sv st)))"
    using race_keeps_rows [OF assms(4) race_start_wf [OF assms(1)]] by (simp add: race_start_def)
  then have "\<exists>r' \<in> set (pm_db (sv_pm (rc_sv st))). row_guid r' = row_guid r \<and> row_id r' = row_id r \<and> row_uuid r' = row_uuid r"
    if "r \<in> set (pm_db (sv_pm sv))" for r using that by (fastforce simp: row_keys_def)
  ultimately show ?thesis by (auto simp: bound_to_def)
qed

text \<open>The device an id is bound to registers once more.\<close>

definition example_owner :: registration where
  "example_owner = \<lparr>rg_in = example_in, rg_id = ''123456'', rg_uuid = [3], rg_pk = [4], rg_addr = addr_b, rg_ws = False\<rparr>"

lemma example_ips: "show_ip (v4_of 5 5 5 5) = ''5.5.5.5''" "show_ip (v4_of 7 7 7 7) = ''7.7.7.7''"
  using example_show by (simp_all add: addr_a_def addr_b_def)

lemmas example_check_simps = register_check_def example_ips pm_get_or_def pm_get_def db_get_peer_def
  compare_registration_def reg_pk_tick_def window_tick_def check_ip_blocker_def example_defs
  hget_def hput_def pm_write_def elapsed_secs_def MAX_PEER_ID_LEN_def Let_def

lemma example_owner_check:
  "\<exists>sv'. register_check example_su example_in ''123456'' [3] [4] addr_b example_sv = (Inr False, sv')"
  by (simp add: example_check_simps)

lemma example_owner_run:
  "\<exists>st. (race_step example_su)\<^sup>*\<^sup>* (race_start example_sv) st \<and> rc_confirmed st = [example_owner]"
proof -
  obtain sv' where c: "register_check example_su example_in ''123456'' [3] [4] addr_b example_sv = (Inr False, sv')"
    using example_owner_check by blast
  let ?st = "\<lparr>rc_sv = sv', rc_tasks = [(example_owner, Checked False)], rc_confirmed = []\<rparr>"
  have "(race_step example_su)\<^sup>*\<^sup>* (race_start example_sv) ?st"
    using race_check [of example_su example_owner "race_start example_sv"] c
    by (force simp: race_start_def example_owner_def)
  also have "race_step example_su ?st (?st\<lparr>rc_tasks := [], rc_confirmed := [example_owner]\<rparr>)"
    using race_skip [of ?st "[]" example_owner False "[]"] by (simp add: example_owner_def)
  finally show ?thesis by force
qed

theorem bound_id_survives_races_witness:
  "\<exists>st p'. (race_step example_su)\<^sup>*\<^sup>* (race_start example_sv) st \<and> rc_confirmed st = [example_owner] \<and>
     hget (pm_map (sv_pm (rc_sv st))) ''123456'' = Some p' \<and> uuid p' = [3]"
proof -
  obtain st where run: "(race_step example_su)\<^sup>*\<^sup>* (race_start example_sv) st" "rc_confirmed st = [example_owner]"
    using example_owner_run by blast
  have "pm_wf (sv_pm example_sv)" using example_sv_wf by (simp add: server_wf_def)
  moreover have "hget (pm_map (sv_pm example_sv)) ''123456'' = Some example_peer" by (simp add: example_defs hget_def)
  moreover have "uuid example_peer = [3]" by (simp add: example_defs)
  ultimately show ?thesis
    using bound_id_survives_races [of example_sv "''123456''" example_peer example_su st] run by auto
qed

text \<open>
  C40. A new id is not safe: when two devices register an id nobody has yet and both pass the
  comparison before either writes, both are confirmed. The peer in memory is then bound to the
  second device, while the row has the uuid of the first with the key of the second, because
  changing a row leaves its uuid: after a restart the second device, which was confirmed and
  reached last, is refused its id.
\<close>

theorem concurrent_registrations_mix:
  assumes "register_check su (rg_in a) (rg_id a) (rg_uuid a) (rg_pk a) (rg_addr a) sv = (Inr ca, sv1)"
    and "register_check su (rg_in b) (rg_id b) (rg_uuid b) (rg_pk b) (rg_addr b) sv1 = (Inr cb, sv2)"
    and "db_wf (pm_db (sv_pm sv))" "rg_id a = pid" "rg_id b = pid" "rg_uuid b \<noteq> rg_uuid a" "rg_uuid a \<noteq> []"
    and "hget (pm_map (sv_pm sv)) pid = None"
    and "\<forall>r \<in> set (pm_db (sv_pm sv)). row_id r \<noteq> pid \<and> row_guid r \<noteq> in_guid (rg_in a)"
    and "in_db_up (rg_in a)" "in_db_up (rg_in b)" "in_guid (rg_in a) \<noteq> []"
  shows "\<exists>st. (race_step su)\<^sup>*\<^sup>* (race_start sv) st \<and> rc_tasks st = [] \<and> rc_confirmed st = [a, b] \<and>
    (\<exists>p. hget (pm_map (sv_pm (rc_sv st))) pid = Some p \<and> uuid p = rg_uuid b \<and> pk p = rg_pk b) \<and>
    (\<exists>r \<in> set (pm_db (sv_pm (rc_sv st))). row_id r = pid \<and> row_uuid r = rg_uuid a \<and> row_pk r = rg_pk b) \<and>
    (\<forall>i. in_db_up i \<longrightarrow> fst (handle_register_pk su i pid (rg_uuid b) (rg_pk b) (rg_addr b) (rg_ws b)
       ((rc_sv st)\<lparr>sv_pm := restart (sv_pm (rc_sv st))\<rparr>)) \<noteq> Some OK)"
proof -
  have fresh: "guid (known_peer su (rg_in a) pid sv) = []" "uuid (known_peer su (rg_in a) pid sv) = []"
    using fresh_known [OF assms(8)] assms(9) by (simp_all add: peer_default_def)
  note ca = check_unbound [OF assms(1) [unfolded assms(4)] fresh]
  then obtain p1 where p1: "hget (pm_map (sv_pm sv1)) pid = Some p1" "guid p1 = []" "uuid p1 = []" by blast
  note kb = known_in_memory [OF p1(1), of su "rg_in b"]
  note cb = check_unbound [OF assms(2) [unfolded assms(5)], unfolded kb, OF p1(2,3)]
  then obtain p2 where p2: "hget (pm_map (sv_pm sv2)) pid = Some p2" "guid p2 = []" by blast
  obtain g1 pm1 where wa: "register_write (in_now (rg_in a)) pid (rg_uuid a) (rg_pk a) (rg_addr a) (sv_pm sv2) = (g1, pm1)"
    by fastforce
  obtain r1 pm2 where sa: "register_store (su_serde su) True (in_guid (rg_in a)) pid (rg_uuid a) (rg_pk a) (rg_addr a) g1 pm1
      = (r1, pm2)" by fastforce
  obtain g2 pm3 where wb: "register_write (in_now (rg_in b)) pid (rg_uuid b) (rg_pk b) (rg_addr b) pm2 = (g2, pm3)"
    by fastforce
  obtain r2 pm4 where sb: "register_store (su_serde su) True (in_guid (rg_in b)) pid (rg_uuid b) (rg_pk b) (rg_addr b) g2 pm3
      = (r2, pm4)" by fastforce
  let ?st = "\<lambda>pm ts cs. \<lparr>rc_sv = sv2\<lparr>sv_pm := pm\<rparr>, rc_tasks = ts, rc_confirmed = cs\<rparr>"
  have "(race_step su)\<^sup>*\<^sup>* (race_start sv) \<lparr>rc_sv = sv1, rc_tasks = [(a, Checked ca)], rc_confirmed = []\<rparr>"
    using race_check [of su a "race_start sv"] assms(1) by (force simp: race_start_def)
  also have "race_step su \<dots> (?st (sv_pm sv2) [(a, Checked ca), (b, Checked cb)] [])"
    using race_check [of su b "\<lparr>rc_sv = sv1, rc_tasks = [(a, Checked ca)], rc_confirmed = []\<rparr>"] assms(2) by force
  also have "race_step su \<dots> (?st pm1 [(a, Written g1), (b, Checked cb)] [])"
    using race_write [of "?st (sv_pm sv2) [(a, Checked ca), (b, Checked cb)] []" "[]" a ca "[(b, Checked cb)]" g1 pm1 su]
      wa ca(1) assms(4) by simp
  also have "race_step su \<dots> (?st pm2 [(b, Checked cb)] [a])"
    using race_store [of "?st pm1 [(a, Written g1), (b, Checked cb)] []" "[]" a g1 "[(b, Checked cb)]" su r1 pm2]
      sa assms(4,10) by simp
  also have "race_step su \<dots> (?st pm3 [(b, Written g2)] [a])"
    using race_write [of "?st pm2 [(b, Checked cb)] [a]" "[]" b cb "[]" g2 pm3 su] wb cb(1) assms(5) by simp
  also have "race_step su \<dots> (?st pm4 [] [a, b])"
    using race_store [of "?st pm3 [(b, Written g2)] [a]" "[]" b g2 "[]" su r2 pm4] sb assms(5,11) by simp
  finally have run: "(race_step su)\<^sup>*\<^sup>* (race_start sv) (?st pm4 [] [a, b])" .
  have db: "pm_db (sv_pm sv2) = pm_db (sv_pm sv)" using ca(3) cb(3) by simp
  note mix = mixed_writes [OF p2 assms(12) _ wa sa wb sb, unfolded db, OF assms(9)]
  obtain r where r: "r \<in> set (pm_db pm4)" "row_id r = pid" "row_uuid r = rg_uuid a" "row_pk r = rg_pk b"
    using mix(2) by blast
  have "fst (handle_register_pk su i pid (rg_uuid b) (rg_pk b) (rg_addr b) (rg_ws b) ((sv2\<lparr>sv_pm := pm4\<rparr>)\<lparr>sv_pm := restart pm4\<rparr>))
      \<noteq> Some OK" if "in_db_up i" for i
    using restart_refuses [OF mix(3) [OF assms(3)] r(1,2)] r(3) assms(6,7) that by simp
  with run mix(1) r show ?thesis by (intro exI [of _ "?st pm4 [] [a, b]"]) auto
qed

text \<open>Two devices register the id \<^verbatim>\<open>654321\<close> at the same time.\<close>

definition example_first :: registration where
  "example_first = \<lparr>rg_in = example_in, rg_id = ''654321'', rg_uuid = [1], rg_pk = [2], rg_addr = addr_a, rg_ws = True\<rparr>"

definition example_second :: registration where
  "example_second = \<lparr>rg_in = example_in, rg_id = ''654321'', rg_uuid = [5], rg_pk = [6], rg_addr = addr_b, rg_ws = True\<rparr>"

lemma example_checks:
  "\<exists>sv1 sv2 ca cb. register_check example_su example_in ''654321'' [1] [2] addr_a example_sv = (Inr ca, sv1) \<and>
     register_check example_su example_in ''654321'' [5] [6] addr_b sv1 = (Inr cb, sv2)"
  by (simp add: example_check_simps) blast

theorem concurrent_registrations_mix_witness:
  "\<exists>st. (race_step example_su)\<^sup>*\<^sup>* (race_start example_sv) st \<and> rc_confirmed st = [example_first, example_second] \<and>
     (\<exists>r \<in> set (pm_db (sv_pm (rc_sv st))). row_id r = ''654321'' \<and> row_uuid r = [1] \<and> row_pk r = [6])"
proof -
  obtain sv1 sv2 ca cb
    where c: "register_check example_su example_in ''654321'' [1] [2] addr_a example_sv = (Inr ca, sv1)"
      "register_check example_su example_in ''654321'' [5] [6] addr_b sv1 = (Inr cb, sv2)"
    using example_checks by blast
  have "db_wf (pm_db (sv_pm example_sv))" using example_sv_wf by (simp add: server_wf_def pm_wf_def)
  moreover have "hget (pm_map (sv_pm example_sv)) ''654321'' = None" by (simp add: example_defs hget_def)
  moreover have "\<forall>r \<in> set (pm_db (sv_pm example_sv)). row_id r \<noteq> ''654321'' \<and> row_guid r \<noteq> in_guid example_in"
    by (simp add: example_defs)
  ultimately show ?thesis
    using concurrent_registrations_mix [of example_su example_first example_sv ca sv1 example_second cb sv2 "''654321''"] c
    by (auto simp: example_first_def example_second_def example_in_def)
qed

end
