(* ===== verification/Rendezvous_Console.thy ===== *)
theory Rendezvous_Console
  imports Rendezvous_Spec "HOL-Library.Multiset"
begin

text \<open>
  The main task of the rendezvous server, \<^verbatim>\<open>src/src/rendezvous_server.rs\<close>: its start settings, the
  messages of its queue, the periodic check of the relays, and the commands of the console
  (\<^verbatim>\<open>check_cmd\<close>). Answers of the console are structured lines. A hash map is listed in the order of
  the association list that stands for it.
\<close>

section \<open>Start\<close>

text \<open>The two switches as \<^verbatim>\<open>start_with_bind\<close> sets them, and the configuration every clone begins
  with. The network given by \<^verbatim>\<open>mask\<close>, the address of the machine and the version in a URL come
  from other crates.\<close>

definition start_always_use_relay :: "environ \<Rightarrow> bool" where
  "start_always_use_relay env \<longleftrightarrow> to_uppercase (get_arg env ''ALWAYS_USE_RELAY'') = ''Y''"

definition start_must_login :: "environ \<Rightarrow> bool" where
  "start_must_login env \<longleftrightarrow>
     (let v = get_arg env ''must-login''
      in to_uppercase v = ''Y'' \<or>
         v = [] \<and> to_uppercase (case env_var env ''MUST_LOGIN'' of Some x \<Rightarrow> x | None \<Rightarrow> []) = ''Y'')"

definition start_conf ::
  "(string \<Rightarrow> (32 word \<Rightarrow> bool) option) \<Rightarrow> string option \<Rightarrow> (string \<Rightarrow> string) \<Rightarrow> (string \<Rightarrow> sockaddr list option) \<Rightarrow> environ
   \<Rightarrow> int \<Rightarrow> bytes option \<Rightarrow> conf" where
  "start_conf parse_mask machine_ip version_of resolve env serial sk =
     (let mask = parse_mask (get_arg env ''mask''); url = get_arg env ''software-url''
      in \<lparr>cf_serial = serial, cf_version = version_of url, cf_software_url = url, cf_mask = mask,
          cf_local_ip = (if mask = None then [] else get_arg_or env ''local-ip'' (case machine_ip of Some ip \<Rightarrow> ip | None \<Rightarrow> [])),
          cf_sk = sk, cf_rendezvous_servers = get_servers resolve (get_arg env ''rendezvous-servers''),
          cf_relay_servers0 = []\<rparr>)"

definition start_server ::
  "'n surroundings \<Rightarrow> environ \<Rightarrow> fsys \<Rightarrow> database \<Rightarrow> conf \<Rightarrow> conf \<times> 'n server" where
  "start_server su env fs db cf =
     (let (cf1, sv1) = parse_relay_servers su (get_arg env ''relay-servers'') cf (srv_init db)
      in (cf1, sv1\<lparr>sv_relays := configure (su_sel su) fs (sv_relays sv1),
                 sv_always_use_relay := start_always_use_relay env, sv_must_login := start_must_login env\<rparr>))"

section \<open>The queue and the check of the relays\<close>

datatype queued = Msg rmsg sockaddr | RelayServers0 string | RelayServers "string list"

definition io_queue :: "'n surroundings \<Rightarrow> queued \<Rightarrow> conf \<Rightarrow> 'n server \<Rightarrow> outcome list \<times> conf \<times> 'n server" where
  "io_queue su d cf sv =
     (case d of
        Msg m addr \<Rightarrow> ([ToUdp m addr], cf, sv)
      | RelayServers0 rs \<Rightarrow> (let (cf', sv') = parse_relay_servers su rs cf sv in ([], cf', sv'))
      | RelayServers rs \<Rightarrow> ([], cf, sv\<lparr>sv_relays := set_live rs (sv_relays sv)\<rparr>))"

text \<open>The timer: the files are read again, and the relays are probed when there are several.\<close>

definition io_timer :: "'n surroundings \<Rightarrow> fsys \<Rightarrow> conf \<Rightarrow> 'n server \<Rightarrow> bool \<times> 'n server" where
  "io_timer su fs cf sv =
     (1 < length (cf_relay_servers0 cf), sv\<lparr>sv_relays := reload (su_sel su) fs (sv_relays sv)\<rparr>)"

definition probe_host :: "int \<Rightarrow> string \<Rightarrow> string" where
  "probe_host relay_port x = (if CHR '':'' \<in> set x then x else x @ '':'' @ show_int relay_port)"

text \<open>The probes end in some order, a list of the positions of the relays.\<close>

definition check_relay_servers :: "int \<Rightarrow> (string \<Rightarrow> bool) \<Rightarrow> nat list \<Rightarrow> string list \<Rightarrow> queued option" where
  "check_relay_servers relay_port answers order rs0 =
     (let done = filter (\<lambda>(i, x). answers (probe_host relay_port x)) (map (\<lambda>i. (i, rs0 ! i)) order);
          rs = map snd (sort_key fst done)
      in if rs = [] then None else Some (RelayServers rs))"

section \<open>Commands\<close>

type_synonym block_line = "nat \<times> nat \<times> nat \<times> nat"

datatype answer =
    Nothing
  | SelectorLines "console_line list"
  | HelpText
  | Relays "string list"
  | Blocked nat "block_line option" "(string \<times> block_line) list"
  | Changes nat "(nat \<times> (string, int) hmap) option" "(string \<times> nat \<times> (string, int) hmap) list"
  | Requests "punch_req list"
  | Flag bool
  | WsPeers nat
  | Relay string

text \<open>Ten entries of a map from a position on, with the arithmetic of 32 bits of the loop.\<close>

definition page :: "int \<Rightarrow> 'a list \<Rightarrow> 'a list" where
  "page start xs = drop (nat start) (take (nat (i32_wrap (start + 10))) xs)"

definition start_of :: "string option \<Rightarrow> int" where
  "start_of arg = (case arg of None \<Rightarrow> -1 | Some x \<Rightarrow> (case parse_i32 x of Some n \<Rightarrow> n | None \<Rightarrow> -1))"

definition block_line_of :: "instant \<Rightarrow> block_entry \<Rightarrow> block_line" where
  "block_line_of now e =
     (case e of ((n, t), (ids, t')) \<Rightarrow> (n, elapsed_secs now t, length ids, elapsed_secs now t'))"

definition cmd_ip_blocker :: "instant \<Rightarrow> string list \<Rightarrow> ip_blocker \<Rightarrow> answer \<times> ip_blocker" where
  "cmd_ip_blocker now args blk0 =
     (let blk = hretain (\<lambda>_ e. elapsed_secs now (snd (fst e)) \<le> IP_BLOCK_DUR \<or> elapsed_secs now (snd (snd e)) \<le> DAY_SECONDS) blk0;
          arg = (case args of [] \<Rightarrow> None | a # _ \<Rightarrow> Some a);
          remove = (case args of _ # b # _ \<Rightarrow> b = ''-'' | _ \<Rightarrow> False);
          start = start_of arg
      in case arg of
           Some ip \<Rightarrow>
             if start < 0 then
               (Blocked (hlen blk) (map_option (block_line_of now) (hget blk ip)) [], if remove then hdel ip blk else blk)
             else (Blocked (hlen blk) None (map (\<lambda>(k, e). (k, block_line_of now e)) (page start blk)), blk)
         | None \<Rightarrow> (Blocked (hlen blk) None (map (\<lambda>(k, e). (k, block_line_of now e)) (page 0 blk)), blk))"

definition cmd_ip_changes :: "instant \<Rightarrow> string list \<Rightarrow> ip_changes \<Rightarrow> answer \<times> ip_changes" where
  "cmd_ip_changes now args m0 =
     (let m = hretain (\<lambda>_ v. elapsed_secs now (fst v) < IP_CHANGE_DUR_X2 \<and> 1 < length (snd v)) m0;
          arg = (case args of [] \<Rightarrow> None | a # _ \<Rightarrow> Some a);
          remove = (case args of _ # b # _ \<Rightarrow> b = ''-'' | _ \<Rightarrow> False);
          start = start_of arg;
          line = (\<lambda>(tm, ips). (elapsed_secs now tm, ips));
          listed = (\<lambda>s m. map (\<lambda>(k, v). (k, line v)) (page s m))
      in case arg of
           Some pid \<Rightarrow>
             if start < 0 \<or> 10000000 < start then
               (let m' = (if remove then hdel pid m else m)
                in (Changes (hlen m) (map_option line (hget m pid)) (if 0 \<le> start then listed start m' else []), m'))
             else (Changes (hlen m) None (listed start m), m)
         | None \<Rightarrow> (Changes (hlen m) None (listed 0 m), m))"

definition cmd_punch_requests :: "string list \<Rightarrow> punch_req list \<Rightarrow> answer \<times> punch_req list" where
  "cmd_punch_requests args reqs =
     (case args of
        a # rest \<Rightarrow>
          if a = ''-'' then (Nothing, [])
          else
            (let start = (case parse_u64 a of Some n \<Rightarrow> n | None \<Rightarrow> 0);
                 given = (case rest of b # _ \<Rightarrow> (case parse_u64 b of Some n \<Rightarrow> n | None \<Rightarrow> 10) | [] \<Rightarrow> 10);
                 page_size = (if given = 0 then 10 else given)
             in (Requests (take page_size (drop start reqs)), reqs))
      | [] \<Rightarrow> (Requests (take 10 reqs), reqs))"

definition cmd_test_geo :: "'n surroundings \<Rightarrow> instant \<Rightarrow> string list \<Rightarrow> 'n selector \<Rightarrow> answer \<times> 'n selector" where
  "cmd_test_geo su now args sel =
     (case args of
        [] \<Rightarrow> (Nothing, sel)
      | x # rest \<Rightarrow>
          (case parse_ip x of
             None \<Rightarrow> (Nothing, sel)
           | Some a \<Rightarrow>
               (case (case rest of [] \<Rightarrow> Some a | y # _ \<Rightarrow> parse_ip y) of
                  None \<Rightarrow> (Nothing, sel)
                | Some b \<Rightarrow> (let (p, sel') = pick (su_sel su) now a b False sel in (Relay (pick_relay p), sel')))))"

text \<open>\<^verbatim>\<open>check_cmd\<close>: the answer, what goes into the queue, and the new state.\<close>

definition check_cmd ::
  "'n surroundings \<Rightarrow> instant \<Rightarrow> string \<Rightarrow> fsys \<Rightarrow> 'n server \<Rightarrow> answer \<times> queued list \<times> fsys \<times> 'n server" where
  "check_cmd su now cmd fs sv =
     (case console (su_sel su) now cmd fs (sv_relays sv) of
        (Some ls, fs', sel) \<Rightarrow> (SelectorLines ls, [], fs', sv\<lparr>sv_relays := sel\<rparr>)
      | (None, _, _) \<Rightarrow>
          (let fds = split_char (CHR '' '') (trim cmd); name = hd fds; args = tl fds
           in if name = ''h'' then (HelpText, [], fs, sv)
              else if name \<in> {''relay-servers'', ''rs''} then
                (case args of
                   rs # _ \<Rightarrow> (Nothing, [RelayServers0 rs], fs, sv)
                 | [] \<Rightarrow> (Relays (s_live (sv_relays sv)), [], fs, sv))
              else if name \<in> {''ip-blocker'', ''ib''} then
                (let (a, blk) = cmd_ip_blocker now args (sv_blocker sv) in (a, [], fs, sv\<lparr>sv_blocker := blk\<rparr>))
              else if name \<in> {''ip-changes'', ''ic''} then
                (let (a, m) = cmd_ip_changes now args (sv_ip_changes sv) in (a, [], fs, sv\<lparr>sv_ip_changes := m\<rparr>))
              else if name \<in> {''punch-requests'', ''pr''} then
                (let (a, reqs) = cmd_punch_requests args (sv_punch_reqs sv) in (a, [], fs, sv\<lparr>sv_punch_reqs := reqs\<rparr>))
              else if name \<in> {''always-use-relay'', ''aur''} then
                (case args of
                   rs # _ \<Rightarrow> (Nothing, [RelayServers0 rs], fs, sv\<lparr>sv_always_use_relay := (to_uppercase rs = ''Y'')\<rparr>)
                 | [] \<Rightarrow> (Flag (sv_always_use_relay sv), [], fs, sv))
              else if name \<in> {''ws-peers'', ''wp''} then (WsPeers (ws_peer_count (sv_ws sv)), [], fs, sv)
              else if name \<in> {''must-login'', ''ml''} then
                (case args of
                   v # _ \<Rightarrow> (Nothing, [], fs, sv\<lparr>sv_must_login := (to_uppercase v = ''Y'')\<rparr>)
                 | [] \<Rightarrow> (Flag (sv_must_login sv), [], fs, sv))
              else if name \<in> {''test-geo'', ''tg''} then
                (let (a, sel) = cmd_test_geo su now args (sv_relays sv) in (a, [], fs, sv\<lparr>sv_relays := sel\<rparr>))
              else (Nothing, [], fs, sv)))"

section \<open>The configured order of relays\<close>

text \<open>Whatever order the probes end in, sorting by position gives the relays that answered in their
  configured order.\<close>

lemma positions_mset:
  assumes "distinct order" "set order = {..<n}"
  shows "mset order = mset [0..<n]"
proof -
  have "set order = set [0..<n]" using assms(2) by (simp only: atLeast_upt)
  then show ?thesis using set_eq_iff_mset_eq_distinct [OF assms(1) distinct_upt [of 0 n]] by (rule iffD1 [rotated])
qed

lemma sort_positions:
  assumes "distinct order" "set order = {..<n}"
  shows "sort (filter Q order) = filter Q [0..<n]"
proof (rule properties_for_sort)
  show "mset (filter Q [0..<n]) = mset (filter Q order)"
    using positions_mset [OF assms] by (simp only: mset_filter)
  show "sorted (filter Q [0..<n])" by (rule sorted_wrt_filter) (rule sorted_upt)
qed

lemma sort_key_of_positions: "sort_key fst (map (\<lambda>i. (i, f i)) order) = map (\<lambda>i. (i, f i)) (sort (order :: nat list))"
proof -
  have ins: "insort_key fst (i, f i) (map (\<lambda>i. (i, f i)) xs) = map (\<lambda>i. (i, f i)) (insort i xs)" for i xs
    by (induction xs) auto
  show ?thesis by (induction order) (simp_all add: ins)
qed

lemma filter_nth_positions: "map ((!) xs) (filter (\<lambda>i. P (xs ! i)) [0..<length xs]) = filter P xs"
proof -
  have "filter P (map ((!) xs) [0..<length xs]) = map ((!) xs) (filter (P \<circ> (!) xs) [0..<length xs])"
    by (rule filter_map)
  then show ?thesis by (simp add: map_nth comp_def)
qed

lemma check_relay_order:
  assumes "distinct order" "set order = {..<length rs0}"
  shows "check_relay_servers relay_port answers order rs0 =
    (let alive = filter (\<lambda>x. answers (probe_host relay_port x)) rs0
     in if alive = [] then None else Some (RelayServers alive))"
proof -
  let ?Q = "\<lambda>i. answers (probe_host relay_port (rs0 ! i))"
  have "filter (\<lambda>(i, x). answers (probe_host relay_port x)) (map (\<lambda>i. (i, rs0 ! i)) order) =
      map (\<lambda>i. (i, rs0 ! i)) (filter ?Q order)"
    by (simp add: filter_map comp_def)
  then have "map snd (sort_key fst (filter (\<lambda>(i, x). answers (probe_host relay_port x)) (map (\<lambda>i. (i, rs0 ! i)) order))) =
      map ((!) rs0) (filter ?Q [0..<length rs0])"
    by (simp add: sort_key_of_positions sort_positions [OF assms] comp_def)
  then show ?thesis
    unfolding check_relay_servers_def Let_def filter_nth_positions [of rs0 "\<lambda>x. answers (probe_host relay_port x)"]
    by simp
qed

text \<open>
  C26. The probes of the relays end in whatever order the network allows (any arrangement of all
  positions), but the list \<^verbatim>\<open>check_relay_servers\<close> puts into the queue is the configured list less
  the relays that did not answer, in configured order; when none answered nothing is queued and
  the last list of live relays stays.
\<close>
theorem relay_check_keeps_order:
  assumes "distinct order" "set order = {..<length rs0}"
  shows "check_relay_servers relay_port answers order rs0 =
    (let alive = filter (\<lambda>x. answers (probe_host relay_port x)) rs0
     in if alive = [] then None else Some (RelayServers alive))"
  by (rule check_relay_order [OF assms])

theorem relay_check_keeps_order_witness:
  "distinct [2::nat, 0, 1] \<and> set [2::nat, 0, 1] = {..<length [''b'', ''a:1'', ''c'']} \<and>
   check_relay_servers 21117 (\<lambda>h. h \<noteq> ''a:1'') [2, 0, 1] [''b'', ''a:1'', ''c''] =
     Some (RelayServers [''b'', ''c''])"
proof -
  have s: "set [2::nat, 0, 1] = {..<length [''b'', ''a:1'', ''c'']}" by auto
  show ?thesis
    using s relay_check_keeps_order [of "[2, 0, 1]" "[''b'', ''a:1'', ''c'']" 21117 "\<lambda>h. h \<noteq> ''a:1''"]
    by (simp add: probe_host_def Let_def)
qed

section \<open>What the console changes\<close>

text \<open>The command that turns the forced relay on queues its argument as a list of relays as well:
  once the queue is read, the relays are those of the list \<^verbatim>\<open>Y\<close>.\<close>

theorem always_use_relay_replaces_relays:
  assumes "console (su_sel su) now cmd fs (sv_relays sv) = (None, fs', sel)"
    and "split_char (CHR '' '') (trim cmd) = [''always-use-relay'', ''Y'']"
  shows "check_cmd su now cmd fs sv = (Nothing, [RelayServers0 ''Y''], fs, sv\<lparr>sv_always_use_relay := True\<rparr>)"
  using assms by (simp add: check_cmd_def to_uppercase_def upper_char_def)

end
