(* ===== verification/Key_Files.thy ===== *)
theory Key_Files
  imports Rust_Str
begin

text \<open>
  The server's key pair on disk, \<^verbatim>\<open>src/src/common.rs\<close> (\<^verbatim>\<open>resolve_key_path\<close> to \<^verbatim>\<open>gen_sk\<close>), as built
  for Unix. A file system has a node per path, and says which operation on which path is
  refused, so that every error path of the code is reachable. A path is known under the one
  spelling the code uses for it. \<^verbatim>\<open>base64\<close> and \<^verbatim>\<open>sodiumoxide\<close> are parameters.
\<close>

unbundle bit_operations_syntax

section \<open>Paths and files\<close>

datatype path = Path (path_absolute: bool) (path_comps: "string list")

definition path_pop :: "path \<Rightarrow> path" where
  "path_pop p = Path (path_absolute p) (butlast (path_comps p))"

definition path_push :: "path \<Rightarrow> path \<Rightarrow> path" where
  "path_push p t = (if path_absolute t then t else Path (path_absolute p) (path_comps p @ path_comps t))"

definition with_file_name :: "path \<Rightarrow> string \<Rightarrow> path" where
  "with_file_name p name = path_push (path_pop p) (Path False [name])"

type_synonym mode = "32 word"

datatype node = Symlink path | Regular string mode | Folder mode

datatype fs_op = Lstat | ReadLink | OpenRead | CreateNew | Stat | Chmod | WriteAll | ReadAll | SyncAll | LinkNew | Unlink

record key_fs =
  kf_nodes :: "(path, node) hmap"
  kf_ok :: "fs_op \<Rightarrow> path \<Rightarrow> bool"
  kf_create_mode :: "path \<Rightarrow> mode \<Rightarrow> mode"
  kf_chmod_mode :: "path \<Rightarrow> mode \<Rightarrow> mode"
  kf_written :: nat

text \<open>How the mode given at creation and by a change of mode end up is the file system's
  choice (\<^verbatim>\<open>umask\<close>, file systems without permissions); \<open>kf_written\<close> is how much of a write that
  fails has reached the file.\<close>

datatype key_error =
    IoError fs_op | AlreadyExists | TooManySymlinks | UnsafeInitialMode mode | ModeNotSet mode
  | RemoveAfter key_error | PublicKeyMismatch | PublicKeyDisappeared | MalformedPrivateKey

definition node_at :: "key_fs \<Rightarrow> path \<Rightarrow> node option" where
  "node_at fs p = hget (kf_nodes fs) p"

definition put_node :: "path \<Rightarrow> node \<Rightarrow> key_fs \<Rightarrow> key_fs" where
  "put_node p n fs = fs\<lparr>kf_nodes := hput p n (kf_nodes fs)\<rparr>"

definition del_node :: "path \<Rightarrow> key_fs \<Rightarrow> key_fs" where
  "del_node p fs = fs\<lparr>kf_nodes := hdel p (kf_nodes fs)\<rparr>"

definition mode_of :: "key_fs \<Rightarrow> path \<Rightarrow> mode" where
  "mode_of fs p = (case node_at fs p of Some (Regular _ m) \<Rightarrow> m | Some (Folder m) \<Rightarrow> m | _ \<Rightarrow> 0)"

definition set_mode :: "path \<Rightarrow> mode \<Rightarrow> key_fs \<Rightarrow> key_fs" where
  "set_mode p m fs =
     (case node_at fs p of
        Some (Regular c _) \<Rightarrow> put_node p (Regular c (kf_chmod_mode fs p m)) fs
      | Some (Folder _) \<Rightarrow> put_node p (Folder (kf_chmod_mode fs p m)) fs
      | _ \<Rightarrow> fs)"

definition write_node :: "path \<Rightarrow> string \<Rightarrow> key_fs \<Rightarrow> bool \<times> key_fs" where
  "write_node p c fs =
     (if kf_ok fs WriteAll p then (True, put_node p (Regular c (mode_of fs p)) fs)
      else (False, put_node p (Regular (take (kf_written fs) c) (mode_of fs p)) fs))"

section \<open>Following links\<close>

definition PRIVATE_KEY_FILE_MODE :: mode where
  "PRIVATE_KEY_FILE_MODE = 0x180"

definition MAX_KEY_SYMLINKS :: nat where
  "MAX_KEY_SYMLINKS = 40"

fun follow :: "nat \<Rightarrow> key_fs \<Rightarrow> path \<Rightarrow> key_error + path" where
  "follow 0 fs p = Inl TooManySymlinks"
| "follow (Suc n) fs p =
     (if \<not> kf_ok fs Lstat p then Inl (IoError Lstat)
      else (case node_at fs p of
              Some (Symlink t) \<Rightarrow>
                if kf_ok fs ReadLink p then follow n fs (path_push (path_pop p) t) else Inl (IoError ReadLink)
            | _ \<Rightarrow> Inr p))"

definition resolve_key_path :: "key_fs \<Rightarrow> path \<Rightarrow> key_error + path" where
  "resolve_key_path fs p = follow MAX_KEY_SYMLINKS fs p"

text \<open>Opening for reading follows links in the kernel, which allows 40 of them: the path of what
  was opened and its contents (a folder can be opened but has none), or nothing when there is no
  such file.\<close>

definition open_read :: "key_fs \<Rightarrow> path \<Rightarrow> key_error + (path \<times> string option) option" where
  "open_read fs p =
     (case follow 41 fs p of
        Inl e \<Rightarrow> Inl e
      | Inr q \<Rightarrow>
          (case node_at fs q of
             None \<Rightarrow> Inr None
           | Some n \<Rightarrow>
               if kf_ok fs OpenRead q
               then Inr (Some (q, (case n of Regular c _ \<Rightarrow> if kf_ok fs ReadAll q then Some c else None | _ \<Rightarrow> None)))
               else Inl (IoError OpenRead)))"

definition read_file :: "key_fs \<Rightarrow> path \<Rightarrow> key_error + string option" where
  "read_file fs p =
     (case open_read fs p of
        Inl e \<Rightarrow> Inl e
      | Inr None \<Rightarrow> Inr None
      | Inr (Some (q, None)) \<Rightarrow> Inl (IoError ReadAll)
      | Inr (Some (q, Some c)) \<Rightarrow> Inr (Some c))"

section \<open>The private key\<close>

definition set_private_key_permissions :: "path \<Rightarrow> bool \<Rightarrow> key_fs \<Rightarrow> key_error option \<times> key_fs" where
  "set_private_key_permissions p newly_created fs =
     (if \<not> kf_ok fs Stat p then (Some (IoError Stat), fs)
      else
        (let m = mode_of fs p AND 0xFFF
         in if \<not> newly_created \<and> m AND NOT PRIVATE_KEY_FILE_MODE = 0 then (None, fs)
            else if newly_created \<and> m AND NOT PRIVATE_KEY_FILE_MODE \<noteq> 0 then (Some (UnsafeInitialMode m), fs)
            else if m \<noteq> PRIVATE_KEY_FILE_MODE then
              (if \<not> kf_ok fs Chmod p then (Some (IoError Chmod), fs)
               else
                 (let fs' = set_mode p PRIVATE_KEY_FILE_MODE fs; m' = mode_of fs' p AND 0xFFF
                  in (if m' = PRIVATE_KEY_FILE_MODE then None else Some (ModeNotSet m'), fs')))
            else (None, fs)))"

definition fill_private_key :: "path \<Rightarrow> string \<Rightarrow> key_fs \<Rightarrow> key_error option \<times> key_fs" where
  "fill_private_key p contents fs =
     (case set_private_key_permissions p True fs of
        (Some e, fs1) \<Rightarrow> (Some e, fs1)
      | (None, fs1) \<Rightarrow>
          (case write_node p contents fs1 of
             (True, fs2) \<Rightarrow> (None, fs2)
           | (False, fs2) \<Rightarrow> (Some (IoError WriteAll), fs2)))"

definition create_private_key_file :: "path \<Rightarrow> string \<Rightarrow> key_fs \<Rightarrow> key_error option \<times> key_fs" where
  "create_private_key_file p0 contents fs =
     (case resolve_key_path fs p0 of
        Inl e \<Rightarrow> (Some e, fs)
      | Inr p \<Rightarrow>
          if node_at fs p \<noteq> None then (Some AlreadyExists, fs)
          else if \<not> kf_ok fs CreateNew p then (Some (IoError CreateNew), fs)
          else
            (case fill_private_key p contents
                    (put_node p (Regular [] (kf_create_mode fs p PRIVATE_KEY_FILE_MODE)) fs) of
               (None, fs1) \<Rightarrow> (None, fs1)
             | (Some e, fs1) \<Rightarrow>
                 if kf_ok fs1 Unlink p then (Some e, del_node p fs1) else (Some (RemoveAfter e), fs1)))"

section \<open>The public key\<close>

definition missing_public_key_path :: "path \<Rightarrow> string \<Rightarrow> key_fs \<Rightarrow> key_error + path option" where
  "missing_public_key_path p0 pk fs =
     (case resolve_key_path fs p0 of
        Inl e \<Rightarrow> Inl e
      | Inr p \<Rightarrow>
          (case read_file fs p of
             Inl e \<Rightarrow> Inl e
           | Inr (Some c) \<Rightarrow> if trim c = pk then Inr None else Inl PublicKeyMismatch
           | Inr None \<Rightarrow> Inr (Some p)))"

text \<open>Giving the finished temporary file its name unless the name is taken; in every case the
  temporary name is gone afterwards, if it can be removed.\<close>

definition drop_temp :: "path \<Rightarrow> key_fs \<Rightarrow> key_fs" where
  "drop_temp tmp fs = (if kf_ok fs Unlink tmp then del_node tmp fs else fs)"

definition publish_public_key :: "path \<Rightarrow> path \<Rightarrow> string \<Rightarrow> key_fs \<Rightarrow> key_error option \<times> key_fs" where
  "publish_public_key tmp p pk fs =
     (if \<not> kf_ok fs LinkNew p then (Some (IoError LinkNew), drop_temp tmp fs)
      else if node_at fs p = None then
        (case node_at fs tmp of
           Some n \<Rightarrow> (None, put_node p n (del_node tmp fs))
         | None \<Rightarrow> (Some (IoError LinkNew), fs))
      else
        (case missing_public_key_path p pk fs of
           Inl e \<Rightarrow> (Some e, drop_temp tmp fs)
         | Inr None \<Rightarrow> (None, drop_temp tmp fs)
         | Inr (Some _) \<Rightarrow> (Some PublicKeyDisappeared, drop_temp tmp fs)))"

definition OWNER_READ_WRITE :: mode where
  "OWNER_READ_WRITE = 0x180"

definition fill_public_key :: "path \<Rightarrow> string \<Rightarrow> key_fs \<Rightarrow> key_error option \<times> key_fs" where
  "fill_public_key tmp pk fs =
     (let m = mode_of fs tmp
      in if \<not> kf_ok fs Stat tmp then (Some (IoError Stat), fs)
         else if m AND OWNER_READ_WRITE \<noteq> OWNER_READ_WRITE \<and> \<not> kf_ok fs Chmod tmp then (Some (IoError Chmod), fs)
         else
           (let fs1 = (if m AND OWNER_READ_WRITE \<noteq> OWNER_READ_WRITE then set_mode tmp (m OR OWNER_READ_WRITE) fs else fs)
            in case write_node tmp pk fs1 of
                 (False, fs2) \<Rightarrow> (Some (IoError WriteAll), fs2)
               | (True, fs2) \<Rightarrow> if kf_ok fs2 SyncAll tmp then (None, fs2) else (Some (IoError SyncAll), fs2)))"

definition temp_name :: "string \<Rightarrow> string" where
  "temp_name uid = ''.id_ed25519.pub.'' @ uid"

definition write_public_key ::
  "string \<Rightarrow> path \<Rightarrow> string \<Rightarrow> bool \<Rightarrow> key_fs \<Rightarrow> key_error option \<times> key_fs" where
  "write_public_key uid p0 pk required fs =
     (case missing_public_key_path p0 pk fs of
        Inl e \<Rightarrow> (Some e, fs)
      | Inr None \<Rightarrow> (None, fs)
      | Inr (Some p) \<Rightarrow>
          (let tmp = with_file_name p (temp_name uid)
           in if node_at fs tmp \<noteq> None \<or> \<not> kf_ok fs CreateNew tmp then
                (if required then Some (IoError CreateNew) else None, fs)
              else
                (case fill_public_key tmp pk (put_node tmp (Regular [] (kf_create_mode fs tmp 0x1B6)) fs) of
                   (Some e, fs1) \<Rightarrow> (Some e, drop_temp tmp fs1)
                 | (None, fs1) \<Rightarrow> publish_public_key tmp p pk fs1)))"

section \<open>The key pair\<close>

record key_ops =
  ko_encode :: "bytes \<Rightarrow> string"
  ko_decode :: "string \<Rightarrow> bytes option"
  ko_valid :: "bytes \<Rightarrow> bool"
  ko_public :: "bytes \<Rightarrow> bytes"

text \<open>The first of at most 301 key pairs whose public key has no slash and no colon in its
  text, else the last one.\<close>

fun pick_pair :: "nat \<Rightarrow> key_ops \<Rightarrow> (nat \<Rightarrow> bytes \<times> bytes) \<Rightarrow> nat \<Rightarrow> bytes \<times> bytes" where
  "pick_pair 0 ko gen i = gen i"
| "pick_pair (Suc n) ko gen i =
     (let pk = ko_encode ko (fst (gen i))
      in if CHR ''/'' \<notin> set pk \<and> CHR '':'' \<notin> set pk then gen i else pick_pair n ko gen (Suc i))"

definition sk_file :: path where
  "sk_file = Path False [''id_ed25519'']"

definition pub_file :: path where
  "pub_file = Path False [''id_ed25519.pub'']"

definition load_sk :: "key_ops \<Rightarrow> string \<Rightarrow> path \<Rightarrow> string option \<Rightarrow> key_fs \<Rightarrow> (key_error + string \<times> bytes) \<times> key_fs" where
  "load_sk ko uid p contents fs =
     (case set_private_key_permissions p False fs of
        (Some e, fs1) \<Rightarrow> (Inl e, fs1)
      | (None, fs1) \<Rightarrow>
          (case contents of
             None \<Rightarrow> (Inl (IoError ReadAll), fs1)
           | Some text \<Rightarrow>
               (case ko_decode ko (trim text) of
                  None \<Rightarrow> (Inl MalformedPrivateKey, fs1)
                | Some sk \<Rightarrow>
                    if \<not> ko_valid ko sk then (Inl MalformedPrivateKey, fs1)
                    else
                      (let pk = ko_encode ko (ko_public ko sk)
                       in case write_public_key uid pub_file pk False fs1 of
                            (Some e, fs2) \<Rightarrow> (Inl e, fs2)
                          | (None, fs2) \<Rightarrow> (Inr (pk, sk), fs2)))))"

definition make_sk ::
  "key_ops \<Rightarrow> string \<Rightarrow> (nat \<Rightarrow> bytes \<times> bytes) \<Rightarrow> key_fs \<Rightarrow> (key_error + string \<times> bytes) \<times> key_fs" where
  "make_sk ko uid gen fs =
     (let (pk0, sk) = pick_pair 300 ko gen 0; pk = ko_encode ko pk0
      in case missing_public_key_path pub_file pk fs of
           Inl e \<Rightarrow> (Inl e, fs)
         | Inr _ \<Rightarrow>
             (case create_private_key_file sk_file (ko_encode ko sk) fs of
                (Some e, fs1) \<Rightarrow> (Inl e, fs1)
              | (None, fs1) \<Rightarrow>
                  (case write_public_key uid pub_file pk True fs1 of
                     (Some e, fs2) \<Rightarrow> (Inl e, fs2)
                   | (None, fs2) \<Rightarrow> (Inr (pk, sk), fs2))))"

text \<open>\<^verbatim>\<open>gen_sk\<close>; \<open>waited\<close> is the file system after the pause it makes when the key is not there yet.\<close>

definition gen_sk ::
  "key_ops \<Rightarrow> string \<Rightarrow> (nat \<Rightarrow> bytes \<times> bytes) \<Rightarrow> nat \<Rightarrow> (key_fs \<Rightarrow> key_fs) \<Rightarrow> key_fs
   \<Rightarrow> (key_error + string \<times> bytes) \<times> key_fs" where
  "gen_sk ko uid gen wait waited fs0 =
     (let exists = (case follow 41 fs0 sk_file of Inr q \<Rightarrow> node_at fs0 q \<noteq> None | Inl _ \<Rightarrow> False);
          fs = (if 0 < wait \<and> \<not> exists then waited fs0 else fs0)
      in case open_read fs sk_file of
           Inl e \<Rightarrow> (Inl e, fs)
         | Inr (Some (p, contents)) \<Rightarrow> load_sk ko uid p contents fs
         | Inr None \<Rightarrow> make_sk ko uid gen fs)"

section \<open>Links\<close>

definition hop :: "key_fs \<Rightarrow> path \<Rightarrow> path option" where
  "hop fs p = (case node_at fs p of Some (Symlink t) \<Rightarrow> Some (path_push (path_pop p) t) | _ \<Rightarrow> None)"

fun hops :: "nat \<Rightarrow> key_fs \<Rightarrow> path \<Rightarrow> path option" where
  "hops 0 fs p = Some p"
| "hops (Suc n) fs p = Option.bind (hop fs p) (hops n fs)"

lemma follow_hop:
  "follow (Suc n) fs p =
     (if \<not> kf_ok fs Lstat p then Inl (IoError Lstat)
      else (case hop fs p of
              Some q \<Rightarrow> if kf_ok fs ReadLink p then follow n fs q else Inl (IoError ReadLink)
            | None \<Rightarrow> Inr p))"
  by (simp add: hop_def split: option.split node.split)

declare follow.simps(2) [simp del]

lemma follow_here: "kf_ok fs Lstat p \<Longrightarrow> hop fs p = None \<Longrightarrow> 0 < n \<Longrightarrow> follow n fs p = Inr p"
  by (cases n) (simp_all add: follow_hop)

lemma follow_sound: "follow n fs p = Inr q \<Longrightarrow> hop fs q = None \<and> (\<exists>k<n. hops k fs p = Some q)"
proof (induction n arbitrary: p)
  case (Suc n)
  show ?case
  proof (cases "hop fs p")
    case None
    with Suc.prems show ?thesis by (auto simp: follow_hop intro!: exI [of _ 0] split: if_splits)
  next
    case (Some r)
    with Suc.prems have "follow n fs r = Inr q" by (auto simp: follow_hop split: if_splits)
    from Suc.IH [OF this] obtain k where "hop fs q = None" "k < n" "hops k fs r = Some q" by blast
    with Some show ?thesis by (auto intro!: exI [of _ "Suc k"])
  qed
qed simp

lemma follow_complete:
  assumes "\<forall>q. kf_ok fs Lstat q \<and> kf_ok fs ReadLink q" "hops k fs p = Some q" "hop fs q = None" "k < n"
  shows "follow n fs p = Inr q"
  using assms(2-4)
proof (induction k arbitrary: n p)
  case 0
  then obtain m where "n = Suc m" by (cases n) auto
  with 0 assms(1) show ?case by (simp add: follow_hop)
next
  case (Suc k)
  then obtain m r where "n = Suc m" "hop fs p = Some r" "hops k fs r = Some q"
    by (cases n) (auto simp: bind_eq_Some_conv)
  with Suc.IH [of r m] Suc.prems assms(1) show ?case by (simp add: follow_hop)
qed

lemma follow_too_many:
  assumes "\<forall>q. kf_ok fs Lstat q \<and> kf_ok fs ReadLink q"
  shows "follow n fs p = Inl e \<Longrightarrow> e = TooManySymlinks \<and> hops n fs p \<noteq> None"
proof (induction n arbitrary: p)
  case (Suc n)
  then show ?case using assms by (cases "hop fs p") (auto simp: follow_hop)
qed simp

lemma hops_end: "hops n fs p = Some r \<Longrightarrow> hops k fs p = Some q \<Longrightarrow> k < n \<Longrightarrow> hop fs q \<noteq> None"
proof (induction k arbitrary: n p)
  case 0
  then show ?case by (cases n) (auto simp: bind_eq_Some_conv)
next
  case (Suc k)
  then show ?case by (cases n) (auto simp: bind_eq_Some_conv)
qed

lemma follow_more: "follow n fs p = Inr q \<Longrightarrow> n \<le> m \<Longrightarrow> follow m fs p = Inr q"
proof (induction n arbitrary: m p)
  case (Suc n)
  then obtain l where "m = Suc l" "n \<le> l" by (cases m) auto
  with Suc show ?case by (auto simp: follow_hop split: if_splits option.splits)
qed simp

section \<open>Files\<close>

lemma node_put [simp]: "node_at (put_node p n fs) q = (if q = p then Some n else node_at fs q)"
  by (simp add: node_at_def put_node_def)

lemma node_del [simp]: "node_at (del_node p fs) q = (if q = p then None else node_at fs q)"
  by (simp add: node_at_def del_node_def)

lemma ok_put [simp]: "kf_ok (put_node p n fs) = kf_ok fs" "kf_ok (del_node p fs) = kf_ok fs"
  by (simp_all add: put_node_def del_node_def)

lemma node_set_mode:
  "node_at fs p = Some (Regular c m0) \<Longrightarrow>
   node_at (set_mode p m fs) q = (if q = p then Some (Regular c (kf_chmod_mode fs p m)) else node_at fs q)"
  by (simp add: set_mode_def)

lemma ok_set_mode [simp]: "kf_ok (set_mode p m fs) = kf_ok fs"
  by (simp add: set_mode_def split: option.split node.split)

lemma set_permissions_new:
  assumes "node_at fs p = Some (Regular c m0)" "set_private_key_permissions p True fs = (res, fs')"
  shows "kf_ok fs' = kf_ok fs \<and> (\<forall>q. q \<noteq> p \<longrightarrow> node_at fs' q = node_at fs q) \<and>
    (\<exists>m. node_at fs' p = Some (Regular c m) \<and> (res = None \<longrightarrow> m AND 0xFFF = PRIVATE_KEY_FILE_MODE))"
  using assms
  by (auto simp: set_private_key_permissions_def Let_def mode_of_def node_set_mode split: if_splits)

lemma set_permissions_old:
  assumes "mode_of fs p AND 0xFFF = PRIVATE_KEY_FILE_MODE" "kf_ok fs Stat p"
  shows "set_private_key_permissions p False fs = (None, fs)"
  using assms by (simp add: set_private_key_permissions_def)

lemma fill_private_key_result:
  assumes "node_at fs p = Some (Regular [] m0)" "fill_private_key p contents fs = (res, fs')"
  shows "kf_ok fs' = kf_ok fs \<and> (\<forall>q. q \<noteq> p \<longrightarrow> node_at fs' q = node_at fs q) \<and>
    (\<exists>c m. node_at fs' p = Some (Regular c m) \<and> (c = [] \<or> m AND 0xFFF = PRIVATE_KEY_FILE_MODE) \<and>
       (res = None \<longrightarrow> c = contents \<and> m AND 0xFFF = PRIVATE_KEY_FILE_MODE))"
proof -
  obtain r1 fs1 where perm: "set_private_key_permissions p True fs = (r1, fs1)" by fastforce
  obtain m where m: "node_at fs1 p = Some (Regular [] m)" "r1 = None \<longrightarrow> m AND 0xFFF = PRIVATE_KEY_FILE_MODE"
    and same: "kf_ok fs1 = kf_ok fs" "\<forall>q. q \<noteq> p \<longrightarrow> node_at fs1 q = node_at fs q"
    using set_permissions_new [OF assms(1) perm] by blast
  show ?thesis
  proof (cases r1)
    case None
    with perm assms(2) m same show ?thesis
      by (auto simp: fill_private_key_def write_node_def mode_of_def split: if_splits)
  next
    case (Some e)
    with perm assms(2) m same show ?thesis by (auto simp: fill_private_key_def)
  qed
qed

lemma create_private_key_new:
  assumes "create_private_key_file p0 contents fs = (res, fs')" "resolve_key_path fs p0 = Inr p"
    and "node_at fs p = None" "kf_ok fs CreateNew p"
  shows "kf_ok fs' = kf_ok fs \<and> (\<forall>q. q \<noteq> p \<longrightarrow> node_at fs' q = node_at fs q) \<and>
    (case res of
       None \<Rightarrow> \<exists>m. node_at fs' p = Some (Regular contents m) \<and> m AND 0xFFF = PRIVATE_KEY_FILE_MODE
     | Some e \<Rightarrow> node_at fs' p = None \<or>
         (\<exists>e' c m. e = RemoveAfter e' \<and> node_at fs' p = Some (Regular c m) \<and> (c = [] \<or> m AND 0xFFF = PRIVATE_KEY_FILE_MODE)))"
proof -
  let ?fs0 = "put_node p (Regular [] (kf_create_mode fs p PRIVATE_KEY_FILE_MODE)) fs"
  obtain r1 fs1 where fill: "fill_private_key p contents ?fs0 = (r1, fs1)" by fastforce
  have "node_at ?fs0 p = Some (Regular [] (kf_create_mode fs p PRIVATE_KEY_FILE_MODE))" by simp
  note r = fill_private_key_result [OF this fill]
  show ?thesis
  proof (cases r1)
    case None
    with assms fill r show ?thesis by (auto simp: create_private_key_file_def)
  next
    case (Some e)
    with assms fill r show ?thesis by (auto simp: create_private_key_file_def split: if_splits)
  qed
qed

section \<open>Writing the keys and reading them back\<close>

definition same_links :: "key_fs \<Rightarrow> key_fs \<Rightarrow> bool" where
  "same_links fs fs' \<longleftrightarrow> kf_ok fs' = kf_ok fs \<and> (\<forall>x. hop fs' x = hop fs x)"

lemma same_links_follow: "same_links fs fs' \<Longrightarrow> follow n fs' p = follow n fs p"
  by (induction n arbitrary: p) (auto simp: follow_hop same_links_def split: option.split)

lemma same_links_resolve: "same_links fs fs' \<Longrightarrow> resolve_key_path fs' p = resolve_key_path fs p"
  by (simp add: resolve_key_path_def same_links_follow)

text \<open>Files appear where there was none; nothing else changes.\<close>

definition grows :: "key_fs \<Rightarrow> key_fs \<Rightarrow> bool" where
  "grows fs fs' \<longleftrightarrow> kf_ok fs' = kf_ok fs \<and>
     (\<forall>x. node_at fs' x = node_at fs x \<or> node_at fs x = None \<and> (\<exists>c m. node_at fs' x = Some (Regular c m)))"

lemma grows_refl [simp]: "grows fs fs"
  by (simp add: grows_def)

lemma grows_links: "grows fs fs' \<Longrightarrow> same_links fs fs'"
  unfolding grows_def same_links_def hop_def by (metis node.simps(11) option.simps(4,5))

lemma grows_node: "grows fs fs' \<Longrightarrow> node_at fs x = Some n \<Longrightarrow> node_at fs' x = Some n"
  unfolding grows_def by (metis option.distinct(1))

lemma follow_self: "follow (Suc n) fs p = Inr q \<Longrightarrow> hop fs p = None \<Longrightarrow> q = p"
  by (simp add: follow_hop split: if_splits)

lemma resolved_no_link: "resolve_key_path fs p0 = Inr p \<Longrightarrow> hop fs p = None"
  using follow_sound by (auto simp: resolve_key_path_def)

lemma read_file_resolved:
  assumes "hop fs p = None" "read_file fs p = Inr r"
  shows "case r of None \<Rightarrow> node_at fs p = None | Some c \<Rightarrow> \<exists>m. node_at fs p = Some (Regular c m)"
proof -
  obtain q where q: "follow (Suc 40) fs p = Inr q"
    using assms(2) by (auto simp: read_file_def open_read_def numeral_eq_Suc split: sum.splits)
  moreover from follow_self [OF q assms(1)] have "q = p" .
  ultimately show ?thesis
    using assms(2) by (auto simp: read_file_def open_read_def split: option.splits if_splits node.splits)
qed

lemma missing_public_key_cases:
  assumes "missing_public_key_path p0 pk fs = Inr r"
  shows "\<exists>p. resolve_key_path fs p0 = Inr p \<and>
    (case r of None \<Rightarrow> \<exists>c m. node_at fs p = Some (Regular c m) \<and> trim c = pk | Some p' \<Rightarrow> p' = p \<and> node_at fs p = None)"
proof -
  obtain p where p: "resolve_key_path fs p0 = Inr p"
    using assms by (auto simp: missing_public_key_path_def split: sum.splits)
  then obtain c where "read_file fs p = Inr c"
    using assms by (auto simp: missing_public_key_path_def split: sum.splits)
  with p assms read_file_resolved [OF resolved_no_link [OF p] this] show ?thesis
    by (auto simp: missing_public_key_path_def split: option.splits if_splits)
qed

lemma missing_public_key_there:
  assumes "resolve_key_path fs p0 = Inr p" "node_at fs p = Some (Regular c m)" "trim c = pk"
    and "kf_ok fs Lstat p" "kf_ok fs OpenRead p" "kf_ok fs ReadAll p"
  shows "missing_public_key_path p0 pk fs = Inr None"
proof -
  have "follow (Suc 40) fs p = Inr p" using assms(4) resolved_no_link [OF assms(1)] by (subst follow_hop) simp
  with assms show ?thesis by (simp add: missing_public_key_path_def read_file_def open_read_def)
qed

lemma fill_public_key_result:
  assumes "node_at fs tmp = Some (Regular [] m0)" "fill_public_key tmp pk fs = (None, fs')"
  shows "kf_ok fs' = kf_ok fs \<and> (\<forall>q. q \<noteq> tmp \<longrightarrow> node_at fs' q = node_at fs q) \<and> (\<exists>m. node_at fs' tmp = Some (Regular pk m))"
  using assms by (auto simp: fill_public_key_def write_node_def Let_def node_set_mode split: if_splits)

lemma with_file_name_comps: "path_comps (with_file_name p name) = butlast (path_comps p) @ [name]"
  by (simp add: with_file_name_def path_push_def path_pop_def)

lemma with_file_name_other:
  "path_comps p = [] \<or> last (path_comps p) \<noteq> name \<Longrightarrow> with_file_name p name \<noteq> p"
  using with_file_name_comps [of p name] by (metis append_is_Nil_conv last_snoc list.distinct(1))

lemma write_public_key_done:
  assumes "write_public_key uid p0 pk True fs = (None, fs')" "trim pk = pk"
    and "\<forall>p. resolve_key_path fs p0 = Inr p \<longrightarrow> path_comps p = [] \<or> last (path_comps p) \<noteq> temp_name uid"
  shows "grows fs fs' \<and> (\<exists>p c m. resolve_key_path fs p0 = Inr p \<and> node_at fs' p = Some (Regular c m) \<and> trim c = pk)"
proof -
  obtain r where missing: "missing_public_key_path p0 pk fs = Inr r"
    using assms(1) by (auto simp: write_public_key_def split: sum.splits)
  then obtain p where p: "resolve_key_path fs p0 = Inr p" and
    r: "case r of None \<Rightarrow> \<exists>c m. node_at fs p = Some (Regular c m) \<and> trim c = pk | Some p' \<Rightarrow> p' = p \<and> node_at fs p = None"
    using missing_public_key_cases by blast
  show ?thesis
  proof (cases r)
    case None
    with missing assms(1) r p show ?thesis by (auto simp: write_public_key_def)
  next
    case (Some p')
    with r have p': "p' = p" and absent: "node_at fs p = None" by auto
    define tmp where "tmp = with_file_name p (temp_name uid)"
    have other: "tmp \<noteq> p" unfolding tmp_def using assms(3) p by (intro with_file_name_other) blast
    let ?fs0 = "put_node tmp (Regular [] (kf_create_mode fs tmp 0x1B6)) fs"
    obtain r1 fs1 where fill: "fill_public_key tmp pk ?fs0 = (r1, fs1)" by fastforce
    have r1: "r1 = None" and fresh: "node_at fs tmp = None" and pub: "publish_public_key tmp p pk fs1 = (None, fs')"
      using assms(1) missing Some p' fill
      by (auto simp: write_public_key_def tmp_def [symmetric] Let_def split: if_splits option.splits)
    have created: "node_at ?fs0 tmp = Some (Regular [] (kf_create_mode fs tmp 0x1B6))" by simp
    obtain m where fs1: "kf_ok fs1 = kf_ok fs" "\<forall>q. q \<noteq> tmp \<longrightarrow> node_at fs1 q = node_at fs q"
      "node_at fs1 tmp = Some (Regular pk m)"
      using fill_public_key_result [OF created fill [unfolded r1]] by auto
    with pub absent other have "fs' = put_node p (Regular pk m) (del_node tmp fs1)"
      by (auto simp: publish_public_key_def split: if_splits)
    with fs1 fresh absent p assms(2) show ?thesis by (auto simp: grows_def)
  qed
qed

section \<open>Properties\<close>

text \<open>
  C31. Following the links of a key path always ends: if the paths on the way can be looked at and
  their links read, the result is the file the links lead to
  when they lead to one in fewer than 40 steps, and an error exactly when they go on for 40
  steps, as in a cycle.
\<close>

theorem resolve_key_path_ends:
  assumes "\<forall>q. kf_ok fs Lstat q \<and> kf_ok fs ReadLink q"
  shows "(resolve_key_path fs p = Inr q \<longleftrightarrow> hop fs q = None \<and> (\<exists>k<40. hops k fs p = Some q)) \<and>
    (resolve_key_path fs p = Inl e \<longleftrightarrow> e = TooManySymlinks \<and> hops 40 fs p \<noteq> None)"
proof -
  have "resolve_key_path fs p = Inl e" if "e = TooManySymlinks" "hops 40 fs p \<noteq> None"
  proof (cases "resolve_key_path fs p")
    case (Inl e')
    with follow_too_many [OF assms] that show ?thesis by (auto simp: resolve_key_path_def MAX_KEY_SYMLINKS_def)
  next
    case (Inr q)
    then obtain k where "hop fs q = None" "k < 40" "hops k fs p = Some q"
      using follow_sound [of 40 fs p q] by (auto simp: resolve_key_path_def MAX_KEY_SYMLINKS_def)
    with that(2) hops_end show ?thesis by blast
  qed
  then show ?thesis
    using follow_sound [of 40 fs p q] follow_complete [OF assms, of _ p q 40] follow_too_many [OF assms, of 40 p e]
    by (auto simp: resolve_key_path_def MAX_KEY_SYMLINKS_def)
qed

definition example_disk :: key_fs where
  "example_disk = \<lparr>kf_nodes = [(Path False [''a''], Symlink (Path False [''b''])), (Path False [''b''], Symlink (Path False [''a'']))],
     kf_ok = (\<lambda>_ _. True), kf_create_mode = (\<lambda>_ m. m), kf_chmod_mode = (\<lambda>_ m. m), kf_written = 0\<rparr>"

lemma example_cycle: "hop example_disk (Path False [''a'']) = Some (Path False [''b''])"
  "hop example_disk (Path False [''b'']) = Some (Path False [''a''])"
  by (simp_all add: hop_def example_disk_def node_at_def hget_def path_push_def path_pop_def)

theorem resolve_key_path_ends_witness:
  "resolve_key_path example_disk (Path False [''a'']) = Inl TooManySymlinks"
proof -
  have "hops (2 * n) example_disk (Path False [''a'']) = Some (Path False [''a''])" for n
    by (induction n) (simp_all add: example_cycle)
  from this [of 20] resolve_key_path_ends [of example_disk "Path False [''a'']" _ TooManySymlinks] show ?thesis
    by (simp add: example_disk_def del: hops.simps)
qed

text \<open>
  C30. The private key is never exposed and never overwritten: creating it either changes
  nothing, or leaves exactly the new key in a file that no one but its owner may access; when it
  fails half way, what may remain is an empty file or one of that mode. No other file changes,
  and a file that exists is left alone.
\<close>

theorem private_key_protected:
  assumes "create_private_key_file p0 contents fs = (res, fs')"
  shows "(res \<noteq> None \<and> fs' = fs) \<or>
    (\<exists>p. resolve_key_path fs p0 = Inr p \<and> node_at fs p = None \<and> (\<forall>q. q \<noteq> p \<longrightarrow> node_at fs' q = node_at fs q) \<and>
       (case res of
          None \<Rightarrow> \<exists>m. node_at fs' p = Some (Regular contents m) \<and> m AND 0xFFF = 0x180
        | Some e \<Rightarrow> node_at fs' p = None \<or>
            (\<exists>e' c m. e = RemoveAfter e' \<and> node_at fs' p = Some (Regular c m) \<and> (c = [] \<or> m AND 0xFFF = 0x180))))"
proof (cases "resolve_key_path fs p0")
  case (Inl e)
  with assms show ?thesis by (auto simp: create_private_key_file_def)
next
  case (Inr p)
  show ?thesis
  proof (cases "node_at fs p = None \<and> kf_ok fs CreateNew p")
    case True
    with create_private_key_new [OF assms Inr, unfolded PRIVATE_KEY_FILE_MODE_def] Inr show ?thesis by auto
  next
    case False
    with assms Inr show ?thesis by (auto simp: create_private_key_file_def split: if_splits)
  qed
qed

definition empty_disk :: key_fs where
  "empty_disk = example_disk\<lparr>kf_nodes := []\<rparr>"

theorem private_key_protected_witness:
  "node_at (snd (create_private_key_file sk_file ''secret'' empty_disk)) sk_file = Some (Regular ''secret'' 0x180)"
proof -
  have res: "create_private_key_file sk_file ''secret'' empty_disk =
      (None, empty_disk\<lparr>kf_nodes := [(sk_file, Regular ''secret'' 0x180)]\<rparr>)"
    by (simp add: create_private_key_file_def resolve_key_path_def MAX_KEY_SYMLINKS_def numeral_eq_Suc follow_hop hop_def
        empty_disk_def example_disk_def node_at_def put_node_def fill_private_key_def set_private_key_permissions_def
        mode_of_def write_node_def PRIVATE_KEY_FILE_MODE_def hput_def hget_def)
  from private_key_protected [OF this] res show ?thesis by (auto simp: node_at_def hget_def)
qed

lemma pick_pair_gen: "\<exists>j. pick_pair n ko gen i = gen j"
  by (induction n arbitrary: i) (auto simp: Let_def)

lemma create_private_key_done:
  assumes "create_private_key_file p0 contents fs = (None, fs')"
  shows "grows fs fs' \<and> (\<exists>p m. resolve_key_path fs p0 = Inr p \<and> node_at fs' p = Some (Regular contents m) \<and>
    m AND 0xFFF = PRIVATE_KEY_FILE_MODE)"
proof -
  obtain p where p: "resolve_key_path fs p0 = Inr p" "node_at fs p = None" "kf_ok fs CreateNew p"
    using assms by (auto simp: create_private_key_file_def split: sum.splits if_splits)
  from create_private_key_new [OF assms this] p obtain m where "kf_ok fs' = kf_ok fs"
    "\<forall>q. q \<noteq> p \<longrightarrow> node_at fs' q = node_at fs q" "node_at fs' p = Some (Regular contents m)"
    "m AND 0xFFF = PRIVATE_KEY_FILE_MODE" by auto
  moreover from this p(2) have "grows fs fs'" unfolding grows_def by metis
  ultimately show ?thesis using p(1) by blast
qed

lemma load_existing_key:
  assumes "resolve_key_path fs sk_file = Inr p" "node_at fs p = Some (Regular c m)" "m AND 0xFFF = PRIVATE_KEY_FILE_MODE"
    and "\<forall>op q. op \<in> {Lstat, OpenRead, ReadAll, Stat} \<longrightarrow> kf_ok fs op q"
    and "ko_decode ko (trim c) = Some sk" "ko_valid ko sk"
    and "missing_public_key_path pub_file (ko_encode ko (ko_public ko sk)) fs = Inr None"
  shows "gen_sk ko uid gen wait waited fs = (Inr (ko_encode ko (ko_public ko sk), sk), fs)"
proof -
  have there: "follow 41 fs sk_file = Inr p"
    using assms(1) follow_more [of 40 fs sk_file p 41] by (simp add: resolve_key_path_def MAX_KEY_SYMLINKS_def)
  have "set_private_key_permissions p False fs = (None, fs)"
    using assms(2-4) by (intro set_permissions_old) (simp_all add: mode_of_def)
  moreover have "open_read fs sk_file = Inr (Some (p, Some c))"
    using there assms(2,4) by (simp add: open_read_def)
  ultimately show ?thesis
    using there assms(2,5-7) by (simp add: gen_sk_def load_sk_def write_public_key_def)
qed

lemma gen_sk_again:
  assumes "gen_sk ko uid gen wait waited fs0 = (Inr (pk, sk), fs')"
    and "\<forall>fs \<in> {fs0, waited fs0}. open_read fs sk_file = Inr None"
    and "\<forall>fs \<in> {fs0, waited fs0}. \<forall>p. resolve_key_path fs pub_file = Inr p \<longrightarrow>
      path_comps p = [] \<or> last (path_comps p) \<noteq> temp_name uid"
    and "\<forall>b. ko_decode ko (ko_encode ko b) = Some b \<and> trim (ko_encode ko b) = ko_encode ko b"
    and "\<forall>i. ko_public ko (snd (gen i)) = fst (gen i) \<and> ko_valid ko (snd (gen i))"
    and "\<forall>op q. op \<in> {Lstat, OpenRead, ReadAll, Stat} \<longrightarrow> kf_ok fs' op q"
  shows "gen_sk ko uid' gen' wait' waited' fs' = (Inr (pk, sk), fs') \<and>
    (\<exists>p c m. resolve_key_path fs' pub_file = Inr p \<and> node_at fs' p = Some (Regular c m) \<and> trim c = pk)"
proof -
  obtain fs where fs: "fs \<in> {fs0, waited fs0}" and make: "make_sk ko uid gen fs = (Inr (pk, sk), fs')"
    using assms(1,2) by (auto simp: gen_sk_def Let_def split: if_splits)
  obtain j where j: "pick_pair 300 ko gen 0 = gen j" using pick_pair_gen by blast
  obtain fs1 where sk: "sk = snd (gen j)" and pk: "pk = ko_encode ko (fst (gen j))"
    and create: "create_private_key_file sk_file (ko_encode ko sk) fs = (None, fs1)"
    and publish: "write_public_key uid pub_file pk True fs1 = (None, fs')"
    using make j by (cases "gen j") (auto simp: make_sk_def Let_def split: sum.splits option.splits prod.splits)
  obtain p m where p: "resolve_key_path fs sk_file = Inr p" "node_at fs1 p = Some (Regular (ko_encode ko sk) m)"
    "m AND 0xFFF = PRIVATE_KEY_FILE_MODE" and g1: "grows fs fs1"
    using create_private_key_done [OF create] by blast
  have unnamed: "\<forall>p. resolve_key_path fs1 pub_file = Inr p \<longrightarrow> path_comps p = [] \<or> last (path_comps p) \<noteq> temp_name uid"
    using assms(3) fs same_links_resolve [OF grows_links [OF g1]] by auto
  obtain p' c m' where p': "resolve_key_path fs1 pub_file = Inr p'" "node_at fs' p' = Some (Regular c m')" "trim c = pk"
    and g2: "grows fs1 fs'"
    using write_public_key_done [OF publish _ unnamed] assms(4) pk by auto
  have pub: "resolve_key_path fs' pub_file = Inr p'" using p'(1) same_links_resolve [OF grows_links [OF g2]] by simp
  have priv: "resolve_key_path fs' sk_file = Inr p"
    using p(1) same_links_resolve [OF grows_links [OF g1]] same_links_resolve [OF grows_links [OF g2]] by simp
  have "missing_public_key_path pub_file pk fs' = Inr None"
    using missing_public_key_there [OF pub p'(2,3)] assms(6) by simp
  then have "gen_sk ko uid' gen' wait' waited' fs' = (Inr (ko_encode ko (ko_public ko sk), sk), fs')"
    using load_existing_key [OF priv grows_node [OF g2 p(2)] p(3) assms(6), of ko sk] assms(4,5) sk pk by simp
  then show ?thesis using pub p' assms(5) sk pk by auto
qed

text \<open>
  C13. The server keeps its identity: the key pair it makes when it has none is the one it reads
  back at every later start, its public half is in the public key file, and those later starts
  change no file.
\<close>

theorem gen_sk_stable:
  assumes "gen_sk ko uid gen wait waited fs0 = (Inr (pk, sk), fs')"
    and "\<forall>fs \<in> {fs0, waited fs0}. open_read fs sk_file = Inr None"
    and "\<forall>fs \<in> {fs0, waited fs0}. \<forall>p. resolve_key_path fs pub_file = Inr p \<longrightarrow>
      path_comps p = [] \<or> last (path_comps p) \<noteq> temp_name uid"
    and "\<forall>b. ko_decode ko (ko_encode ko b) = Some b \<and> trim (ko_encode ko b) = ko_encode ko b"
    and "\<forall>i. ko_public ko (snd (gen i)) = fst (gen i) \<and> ko_valid ko (snd (gen i))"
    and "\<forall>op q. op \<in> {Lstat, OpenRead, ReadAll, Stat} \<longrightarrow> kf_ok fs' op q"
  shows "gen_sk ko uid' gen' wait' waited' fs' = (Inr (pk, sk), fs') \<and>
    (\<exists>p c m. resolve_key_path fs' pub_file = Inr p \<and> node_at fs' p = Some (Regular c m) \<and> trim c = pk)"
  by (rule gen_sk_again [OF assms])

text \<open>An instance of the parameters for the witness: a byte is written as two letters from
  \<open>A\<close> on, and the public half of a secret key is all but its first byte.\<close>

definition letters_of :: "8 word \<Rightarrow> string" where
  "letters_of b = [char_of (65 + unat b div 16), char_of (65 + unat b mod 16)]"

fun read_letters :: "string \<Rightarrow> bytes option" where
  "read_letters [] = Some []"
| "read_letters [c] = None"
| "read_letters (c # d # r) =
     map_option ((#) (of_nat ((of_char c - 65) * 16 + (of_char d - 65)))) (read_letters r)"

definition example_keys :: key_ops where
  "example_keys = \<lparr>ko_encode = (\<lambda>bs. concat (map letters_of bs)), ko_decode = read_letters,
     ko_valid = (\<lambda>b. length b = 2), ko_public = drop 1\<rparr>"

lemma unat_byte: "unat (b :: 8 word) < 256"
  using unsigned_less [of b, where ?'a = nat] by simp

lemma read_letters_of: "read_letters (letters_of b @ r) = map_option ((#) b) (read_letters r)"
proof -
  have "(65 + unat b div 16) mod 256 = 65 + unat b div 16" "(65 + unat b mod 16) mod 256 = 65 + unat b mod 16"
    using unat_byte [of b] by auto
  then show ?thesis by (simp add: letters_of_def del: mod_mult_self1 mod_mult_self2)
qed

lemma example_keys_decode: "ko_decode example_keys (ko_encode example_keys bs) = Some bs"
  by (induction bs) (simp_all add: example_keys_def read_letters_of)

lemma example_keys_trim: "trim (ko_encode example_keys bs) = ko_encode example_keys bs"
proof (rule trim_nonws)
  have low: "of_char c \<le> (32 :: nat)" if "is_ws c" for c
    using that by (auto simp: is_ws_def)
  have "\<not> is_ws (char_of (65 + n))" if "n < 16" for n :: nat
    using that low [of "char_of (65 + n)"] by auto
  then show "\<forall>c \<in> set (ko_encode example_keys bs). \<not> is_ws c"
    using unat_byte by (auto simp: example_keys_def letters_of_def less_mult_imp_div_less)
qed

abbreviation example_pair :: "nat \<Rightarrow> bytes \<times> bytes" where
  "example_pair \<equiv> \<lambda>_. ([7], [3, 7])"

lemmas key_eval = gen_sk_def make_sk_def open_read_def read_file_def follow_here hop_def node_at_def hget_def hput_def hdel_def
  put_node_def del_node_def mode_of_def write_node_def missing_public_key_path_def resolve_key_path_def MAX_KEY_SYMLINKS_def
  create_private_key_file_def fill_private_key_def set_private_key_permissions_def write_public_key_def fill_public_key_def
  publish_public_key_def with_file_name_def path_push_def path_pop_def temp_name_def PRIVATE_KEY_FILE_MODE_def
  OWNER_READ_WRITE_def sk_file_def pub_file_def empty_disk_def example_disk_def

lemma example_gen_sk:
  "gen_sk example_keys ''u'' example_pair 0 (\<lambda>fs. fs) empty_disk =
   (Inr (ko_encode example_keys [7], [3, 7]),
    empty_disk\<lparr>kf_nodes := [(sk_file, Regular (ko_encode example_keys [3, 7]) 0x180), (pub_file, Regular (ko_encode example_keys [7]) 0x1B6)]\<rparr>)"
proof -
  have "pick_pair 300 example_keys example_pair 0 = ([7], [3, 7])"
    using pick_pair_gen [of 300 example_keys example_pair 0] by simp
  then show ?thesis by (simp add: key_eval Let_def)
qed

theorem gen_sk_stable_witness:
  "gen_sk example_keys ''v'' (\<lambda>_. ([9], [1, 9])) 0 (\<lambda>fs. fs)
     (empty_disk\<lparr>kf_nodes := [(sk_file, Regular (ko_encode example_keys [3, 7]) 0x180), (pub_file, Regular (ko_encode example_keys [7]) 0x1B6)]\<rparr>) =
   (Inr (ko_encode example_keys [7], [3, 7]),
    empty_disk\<lparr>kf_nodes := [(sk_file, Regular (ko_encode example_keys [3, 7]) 0x180), (pub_file, Regular (ko_encode example_keys [7]) 0x1B6)]\<rparr>)"
  by (rule gen_sk_stable [OF example_gen_sk, THEN conjunct1])
     (simp_all add: example_keys_decode example_keys_trim, simp_all add: example_keys_def key_eval)

end
