(* ===== verification/Rendezvous_Conn.thy ===== *)
theory Rendezvous_Conn
  imports Rendezvous_Spec Key_Files
begin

text \<open>
  The connections of the rendezvous server, \<^verbatim>\<open>src/src/rendezvous_server.rs\<close> (\<^verbatim>\<open>get_server_sk\<close>,
  \<^verbatim>\<open>key_exchange_phase1\<close>, \<^verbatim>\<open>handle_listener_inner\<close>, \<^verbatim>\<open>handle_listener2\<close>): the key of the server, the
  key exchange and the encryption of a plain connection, the life of a websocket with its idle
  timeout, and the port that tests a client's NAT. The cipher and the key exchange of
  \<^verbatim>\<open>hbb_common\<close> and \<^verbatim>\<open>sodiumoxide\<close> are parameters.
\<close>

section \<open>The key of the server\<close>

definition SECRETKEYBYTES :: nat where
  "SECRETKEYBYTES = 64"

text \<open>The result of making or reading the key pair is an argument.\<close>

definition get_server_sk ::
  "key_ops \<Rightarrow> (key_error + string \<times> bytes) \<Rightarrow> string \<Rightarrow> key_error + string \<times> bytes option" where
  "get_server_sk ko gen key0 =
     (let (key, out_sk) =
            (case ko_decode ko key0 of
               Some sk \<Rightarrow>
                 if length sk = SECRETKEYBYTES then (ko_encode ko (drop (SECRETKEYBYTES div 2) sk), Some sk) else (key0, None)
             | None \<Rightarrow> (key0, None))
      in if key = [] \<or> key = ''-'' \<or> key = ''_'' then
           (case gen of
              Inl e \<Rightarrow> Inl e
            | Inr (public, sk) \<Rightarrow> Inr (if key = [] then [] else public, Some sk))
         else Inr (key, out_sk))"

section \<open>Plain connections\<close>

text \<open>What the task of a plain connection keeps: the sink unless it was moved, the secret of the key
  exchange until the first frame, and the cipher for what comes in. The cipher of a sink stays
  with the sink, wherever it is: \<open>send_keys\<close> has the key of each sink that has one.\<close>

record crypto =
  cr_sign :: "bytes \<Rightarrow> bytes \<Rightarrow> bytes"
  cr_decode :: "bytes \<Rightarrow> bytes \<Rightarrow> bytes \<Rightarrow> bytes option"
  cr_dec :: "bytes \<Rightarrow> nat \<Rightarrow> bytes \<Rightarrow> bytes option"

record plain_conn =
  pc_sink :: "sink option"
  pc_handshake :: "bytes option"
  pc_recv :: "(bytes \<times> nat) option"

type_synonym send_keys = "(sink, bytes) hmap"

definition key_exchange_phase1 :: "crypto \<Rightarrow> conf \<Rightarrow> bytes \<times> bytes \<Rightarrow> sink option \<Rightarrow> outcome list \<times> bytes option" where
  "key_exchange_phase1 cr cf pair s =
     (case cf_sk cf of
        None \<Rightarrow> ([], None)
      | Some sk \<Rightarrow> (send_to_sink s (KeyExchange [cr_sign cr sk (fst pair)]), Some (snd pair)))"

definition plain_start :: "crypto \<Rightarrow> conf \<Rightarrow> bytes \<times> bytes \<Rightarrow> nat \<Rightarrow> string \<Rightarrow> outcome list \<times> plain_conn" where
  "plain_start cr cf pair n key =
     (let (outs, hs) = (if key \<noteq> [] then key_exchange_phase1 cr cf pair (Some (TcpSink n)) else ([], None))
      in (outs, \<lparr>pc_sink = Some (TcpSink n), pc_handshake = hs, pc_recv = None\<rparr>))"

text \<open>The second phase, on the first frame: nothing when it is not a key exchange, else the key or
  a failure.\<close>

definition phase2 :: "crypto \<Rightarrow> bytes \<Rightarrow> rmsg option \<Rightarrow> (bytes option) option" where
  "phase2 cr sk_b m =
     (case m of
        Some (KeyExchange keys) \<Rightarrow>
          if length keys \<noteq> 2 then Some None else Some (cr_decode cr (keys ! 1) (keys ! 0) sk_b)
      | _ \<Rightarrow> None)"

text \<open>A frame of a plain connection: the cipher first, then the second phase if its secret is still
  there, else the handler. Nothing when the connection is closed.\<close>

definition plain_frame ::
  "crypto \<Rightarrow> 'n surroundings \<Rightarrow> inputs \<Rightarrow> conf \<Rightarrow> bytes \<Rightarrow> sockaddr \<Rightarrow> string \<Rightarrow> plain_conn \<Rightarrow> send_keys \<Rightarrow> 'n server
   \<Rightarrow> outcome list \<times> plain_conn option \<times> sink option \<times> send_keys \<times> 'n server" where
  "plain_frame cr su i cf raw addr key pc ks sv =
     (case (case pc_recv pc of None \<Rightarrow> Some raw | Some (k, n) \<Rightarrow> cr_dec cr k n raw) of
        None \<Rightarrow> ([], None, pc_sink pc, ks, sv)
      | Some data \<Rightarrow>
          (let recv = map_option (\<lambda>(k, n). (k, Suc n)) (pc_recv pc)
           in case Option.bind (pc_handshake pc) (\<lambda>sk_b. phase2 cr sk_b (su_parse su data)) of
                Some None \<Rightarrow> ([], None, pc_sink pc, ks, sv)
              | Some (Some symk) \<Rightarrow>
                  ([], Some \<lparr>pc_sink = pc_sink pc, pc_handshake = None, pc_recv = Some (symk, 0)\<rparr>, pc_sink pc,
                   (case pc_sink pc of Some s \<Rightarrow> hput s symk ks | None \<Rightarrow> ks), sv)
              | None \<Rightarrow>
                  (let (stay, outs, s', sv') = handle_tcp su i cf data (pc_sink pc) addr key False None sv
                   in (outs, (if stay then Some \<lparr>pc_sink = s', pc_handshake = None, pc_recv = recv\<rparr> else None), s', ks, sv'))))"

text \<open>The end of a plain connection: an answer that was still expected finds no one.\<close>

definition plain_end :: "'n surroundings \<Rightarrow> sockaddr \<Rightarrow> sink option \<Rightarrow> 'n server \<Rightarrow> 'n server" where
  "plain_end su addr s sv =
     (if s = None then sv\<lparr>sv_tcp_punch := hdel (su_into_v4 su addr) (sv_tcp_punch sv)\<rparr> else sv)"

section \<open>Websockets\<close>

definition WS_IDLE_TIMEOUT_DEFAULT_SEC :: nat where
  "WS_IDLE_TIMEOUT_DEFAULT_SEC = 90"

definition WS_PING_INTERVAL_MS :: nat where
  "WS_PING_INTERVAL_MS = 30000"

definition ws_idle_timeout :: "environ \<Rightarrow> nat" where
  "ws_idle_timeout env =
     (let secs = (case parse_u64 (get_arg env ''ws-idle-timeout'') of
                    Some v \<Rightarrow> if 0 < v then v else WS_IDLE_TIMEOUT_DEFAULT_SEC
                  | None \<Rightarrow> WS_IDLE_TIMEOUT_DEFAULT_SEC)
      in secs * 1000 mod 2 ^ 64)"

definition poll_ms :: "nat \<Rightarrow> nat" where
  "poll_ms idle = min WS_PING_INTERVAL_MS idle"

datatype ws_event = Pushed rmsg | BinaryFrame bytes | OtherFrame | StreamEnd | PollTimeout

datatype ws_output = WsOut outcome | WsPing

text \<open>One event of the loop of a websocket: what is sent, and when the peer was last heard of, or
  nothing when the loop ends.\<close>

definition ws_round ::
  "'n surroundings \<Rightarrow> inputs \<Rightarrow> conf \<Rightarrow> nat \<Rightarrow> conn \<Rightarrow> sockaddr \<Rightarrow> string \<Rightarrow> ws_event \<Rightarrow> instant \<Rightarrow> 'n server
   \<Rightarrow> ws_output list \<times> instant option \<times> 'n server" where
  "ws_round su i cf idle c addr key ev last_seen sv =
     (case ev of
        Pushed m \<Rightarrow> ([WsOut (ToSink (WsSink c) m)], Some last_seen, sv)
      | BinaryFrame data \<Rightarrow>
          (let (stay, outs, _, sv') = handle_tcp su i cf data (Some (WsSink c)) addr key True (Some c) sv
           in (map WsOut outs, if stay then Some (in_now i) else None, sv'))
      | OtherFrame \<Rightarrow> ([], Some (in_now i), sv)
      | StreamEnd \<Rightarrow> ([], None, sv)
      | PollTimeout \<Rightarrow>
          if idle \<le> elapsed_millis (in_now i) last_seen then ([], None, sv) else ([WsPing], Some last_seen, sv))"

fun ws_loop ::
  "'n surroundings \<Rightarrow> conf \<Rightarrow> nat \<Rightarrow> conn \<Rightarrow> sockaddr \<Rightarrow> string \<Rightarrow> (ws_event \<times> inputs \<times> 'n server) list \<Rightarrow> instant
   \<Rightarrow> ws_output list \<times> instant option" where
  "ws_loop su cf idle c addr key [] last_seen = ([], Some last_seen)"
| "ws_loop su cf idle c addr key ((ev, i, sv) # rest) last_seen =
     (case ws_round su i cf idle c addr key ev last_seen sv of
        (outs, None, _) \<Rightarrow> (outs, None)
      | (outs, Some seen, _) \<Rightarrow>
          (let (outs', r) = ws_loop su cf idle c addr key rest seen in (outs @ outs', r)))"

section \<open>The port for NAT tests\<close>

datatype listener2_result = RunCommand | Reply rmsg | Silent

definition handle_online_request :: "inputs \<Rightarrow> string list \<Rightarrow> 'n server \<Rightarrow> rmsg" where
  [simp]: "handle_online_request i peers sv = OnlineResponse (peers_online_state i (sv_pm sv) peers)"

text \<open>\<^verbatim>\<open>handle_listener2\<close>: from the machine itself it is the console, from elsewhere it answers two
  questions.\<close>

definition handle_listener2 ::
  "'n surroundings \<Rightarrow> inputs \<Rightarrow> sockaddr \<Rightarrow> bytes option \<Rightarrow> 'n server \<Rightarrow> listener2_result" where
  "handle_listener2 su i addr frame sv =
     (if is_loopback (sa_ip (su_into_v4 su addr)) then RunCommand
      else (case Option.bind frame (su_parse su) of
              Some (TestNatRequest _) \<Rightarrow> Reply (TestNatResponse (unat (sa_port addr)) None)
            | Some (OnlineRequest peers) \<Rightarrow> Reply (handle_online_request i peers sv)
            | _ \<Rightarrow> Silent))"

text \<open>A plain connection over a sequence of frames; the shared state is given with each frame,
  since other tasks change it in between.\<close>

fun plain_run ::
  "crypto \<Rightarrow> 'n surroundings \<Rightarrow> conf \<Rightarrow> sockaddr \<Rightarrow> string \<Rightarrow> (bytes \<times> inputs \<times> 'n server) list \<Rightarrow> plain_conn \<Rightarrow> send_keys
   \<Rightarrow> plain_conn option \<times> send_keys" where
  "plain_run cr su cf addr key [] pc ks = (Some pc, ks)"
| "plain_run cr su cf addr key ((raw, i, sv) # rest) pc ks =
     (case plain_frame cr su i cf raw addr key pc ks sv of
        (_, None, _, ks', _) \<Rightarrow> (None, ks')
      | (_, Some pc', _, ks', _) \<Rightarrow> plain_run cr su cf addr key rest pc' ks')"

section \<open>Lemmas\<close>

lemma plain_run_cons:
  assumes "plain_run cr su cf addr key ((raw, i, sv) # rest) pc ks = (Some pc2, ks2)"
  obtains outs pc1 s1 ks1 sv1 where "plain_frame cr su i cf raw addr key pc ks sv = (outs, Some pc1, s1, ks1, sv1)"
    "plain_run cr su cf addr key rest pc1 ks1 = (Some pc2, ks2)"
  using assms by (auto split: prod.splits option.splits)

text \<open>Without the secret of the key exchange, a frame leaves the keys as they are.\<close>

lemma plain_frame_keyed:
  assumes "plain_frame cr su i cf raw addr key pc ks sv = (outs, Some pc1, s1, ks1, sv1)" "pc_handshake pc = None"
  shows "ks1 = ks \<and> pc_handshake pc1 = None \<and> pc_recv pc1 = map_option (\<lambda>(k, n). (k, Suc n)) (pc_recv pc)"
  using assms by (auto simp: plain_frame_def Let_def split: option.splits prod.splits if_splits)

lemma plain_run_keyed:
  "plain_run cr su cf addr key frames pc ks = (Some pc2, ks2) \<Longrightarrow> pc_handshake pc = None \<Longrightarrow>
   ks2 = ks \<and> pc_handshake pc2 = None \<and> pc_recv pc2 = map_option (\<lambda>(k, n). (k, n + length frames)) (pc_recv pc)"
proof (induction frames arbitrary: pc ks)
  case Nil
  then show ?case by (cases "pc_recv pc") auto
next
  case (Cons f rest)
  obtain raw i sv where f: "f = (raw, i, sv)" by (metis prod.collapse)
  from Cons.prems(1) [unfolded f] show ?case
  proof (cases rule: plain_run_cons)
    case (1 outs pc1 s1 ks1 sv1)
    from plain_frame_keyed [OF 1(1) Cons.prems(2)] Cons.IH [OF 1(2)] show ?thesis
      by (cases "pc_recv pc") auto
  qed
qed

lemma plain_frame_first:
  assumes "plain_frame cr su i cf raw addr key pc ks sv = (outs, Some pc1, s1, ks1, sv1)" "pc_recv pc = None"
  shows "pc_handshake pc1 = None \<and>
    (pc_recv pc1 = None \<or>
     (\<exists>sk_b keys k. pc_handshake pc = Some sk_b \<and> su_parse su raw = Some (KeyExchange keys) \<and> length keys = 2 \<and>
        cr_decode cr (keys ! 1) (keys ! 0) sk_b = Some k \<and> pc_recv pc1 = Some (k, 0) \<and>
        (\<forall>s. pc_sink pc = Some s \<longrightarrow> ks1 = hput s k ks)))"
  using assms
  by (auto simp: plain_frame_def phase2_def Let_def bind_eq_Some_conv split: option.splits prod.splits if_splits rmsg.splits)

lemma ws_loop_cons:
  assumes "ws_loop su cf idle c addr key ((ev, i, sv) # rest) seen = (outs, r)"
  obtains (over) sv1 where "ws_round su i cf idle c addr key ev seen sv = (outs, None, sv1)" "r = None"
    | (go_on) o1 seen1 sv1 o2 where "ws_round su i cf idle c addr key ev seen sv = (o1, Some seen1, sv1)"
        "ws_loop su cf idle c addr key rest seen1 = (o2, r)"
  using assms by (auto split: prod.splits option.splits)

section \<open>Properties\<close>

text \<open>
  C14. The key of a connection: if a plain connection is encrypted at all, its first frame was the
  second phase of the key exchange, answering the offer made for this connection; every later
  frame has been decrypted under that key with its own counter, and the sink encrypts with the
  same key. Nothing that comes later can change the key.
\<close>

theorem connection_key_from_first_frame:
  assumes "plain_start cr cf pair n key = (offer, pc0)"
    and "plain_run cr su cf addr key frames pc0 ks = (Some pc, ks')" "pc_recv pc = Some (k, m)"
  shows "\<exists>raw i sv rest keys. frames = (raw, i, sv) # rest \<and> su_parse su raw = Some (KeyExchange keys) \<and> length keys = 2 \<and>
    cr_decode cr (keys ! 1) (keys ! 0) (snd pair) = Some k \<and> m = length rest \<and>
    hget ks' (TcpSink n) = Some k \<and> (\<exists>sk. cf_sk cf = Some sk \<and> offer = [ToSink (TcpSink n) (KeyExchange [cr_sign cr sk (fst pair)])])"
proof -
  have pc0: "pc_recv pc0 = None" "pc_sink pc0 = Some (TcpSink n)"
    "\<forall>sk_b. pc_handshake pc0 = Some sk_b \<longrightarrow> sk_b = snd pair \<and>
      (\<exists>sk. cf_sk cf = Some sk \<and> offer = [ToSink (TcpSink n) (KeyExchange [cr_sign cr sk (fst pair)])])"
    using assms(1)
    by (auto simp: plain_start_def key_exchange_phase1_def send_to_sink_def split: if_splits option.splits)
  show ?thesis
  proof (cases frames)
    case Nil
    with assms(2,3) pc0 show ?thesis by simp
  next
    case (Cons f rest)
    obtain raw i sv where f: "f = (raw, i, sv)" by (metis prod.collapse)
    from assms(2) [unfolded Cons f] show ?thesis
    proof (cases rule: plain_run_cons)
      case (1 outs pc1 s1 ks1 sv1)
      note first = plain_frame_first [OF 1(1) pc0(1)]
      then have later: "ks' = ks1" "pc_recv pc = map_option (\<lambda>(k, n). (k, n + length rest)) (pc_recv pc1)"
        using plain_run_keyed [OF 1(2)] by auto
      with assms(3) first obtain sk_b keys where "pc_handshake pc0 = Some sk_b" "su_parse su raw = Some (KeyExchange keys)"
        "length keys = 2" "cr_decode cr (keys ! 1) (keys ! 0) sk_b = Some k" "pc_recv pc1 = Some (k, 0)" "ks1 = hput (TcpSink n) k ks"
        using pc0(2) by auto
      with later assms(3) pc0(3) Cons f show ?thesis by auto
    qed
  qed
qed

definition example_crypto :: crypto where
  "example_crypto = \<lparr>cr_sign = (\<lambda>sk b. sk @ b), cr_decode = (\<lambda>a b sk. Some (sk @ a)), cr_dec = (\<lambda>k n b. Some b)\<rparr>"

definition example_su_kx :: "(ipaddr \<times> nat) surroundings" where
  "example_su_kx = example_su\<lparr>su_parse := (\<lambda>d. if d = [7] then Some (KeyExchange [[1], [2]]) else None)\<rparr>"

lemma example_keyed:
  "plain_run example_crypto example_su_kx example_cf addr_a ''k'' [([7], example_in, example_sv)]
     \<lparr>pc_sink = Some (TcpSink 3), pc_handshake = Some [9], pc_recv = None\<rparr> [] =
   (Some \<lparr>pc_sink = Some (TcpSink 3), pc_handshake = None, pc_recv = Some ([9, 2], 0)\<rparr>, [(TcpSink 3, [9, 2])])"
  by (simp add: plain_frame_def phase2_def example_su_kx_def example_crypto_def hput_def)

theorem connection_key_from_first_frame_witness:
  "\<exists>raw i sv rest keys. [([7], example_in, example_sv)] = (raw, i, sv) # rest \<and> su_parse example_su_kx raw = Some (KeyExchange keys) \<and>
     cr_decode example_crypto (keys ! 1) (keys ! 0) [9] = Some [9, 2]"
proof -
  have start: "plain_start example_crypto example_cf ([8], [9]) 3 ''k'' =
      ([ToSink (TcpSink 3) (KeyExchange [[6, 8]])], \<lparr>pc_sink = Some (TcpSink 3), pc_handshake = Some [9], pc_recv = None\<rparr>)"
    by (simp add: plain_start_def key_exchange_phase1_def example_cf_def example_crypto_def send_to_sink_def)
  from connection_key_from_first_frame [OF start example_keyed, of "[9, 2]" 0] show ?thesis by auto
qed

text \<open>
  A dead websocket is closed: when no frame comes from the peer, the loop ends at the first
  poll at which the idle timeout has passed, and not before; until then the peer is pinged at
  every poll.
\<close>

theorem websocket_idle_closed:
  assumes "\<forall>e \<in> set events. fst e = PollTimeout"
  shows "snd (ws_loop su cf idle c addr key events seen) =
      (if \<exists>e \<in> set events. idle \<le> elapsed_millis (in_now (fst (snd e))) seen then None else Some seen) \<and>
    fst (ws_loop su cf idle c addr key events seen) =
      replicate (length (takeWhile (\<lambda>e. elapsed_millis (in_now (fst (snd e))) seen < idle) events)) WsPing"
  using assms
proof (induction events)
  case (Cons e rest)
  obtain i sv where e: "e = (PollTimeout, i, sv)" using Cons.prems by (metis list.set_intros(1) prod.collapse fst_conv)
  obtain o1 r where rest: "ws_loop su cf idle c addr key rest seen = (o1, r)" by fastforce
  with Cons show ?case
    by (cases "idle \<le> elapsed_millis (in_now i) seen") (simp_all add: e ws_round_def)
qed simp

theorem websocket_idle_closed_witness:
  "snd (ws_loop example_su example_cf 90000 4 addr_a [] [(PollTimeout, example_in, example_sv),
     (PollTimeout, example_in\<lparr>in_now := 90000000000\<rparr>, example_sv)] 0) = None"
  using websocket_idle_closed [of "[(PollTimeout, example_in, example_sv), (PollTimeout, example_in\<lparr>in_now := 90000000000\<rparr>, example_sv)]"
      example_su example_cf 90000 4 addr_a "[]" 0]
  by (simp add: elapsed_millis_def)

end
