(* ===== verification/Rendezvous_Main.thy ===== *)
theory Rendezvous_Main
  imports Rendezvous_Console Rendezvous_Conn
begin

text \<open>
  The main task of the rendezvous server with everything that runs beside it,
  \<^verbatim>\<open>src/src/rendezvous_server.rs\<close> (\<^verbatim>\<open>io_loop\<close>, the main loop of \<^verbatim>\<open>start_with_bind\<close>, \<^verbatim>\<open>test_hbbs\<close>,
  \<^verbatim>\<open>create_udp_listener\<close>): one round of the loop, the sockets and their recreation, the self test,
  and the whole server as a step relation over its state, its queue and the probes under way.
\<close>

section \<open>Rounds of the loop\<close>

datatype loop_failure = UdpSocket | Listener3 | Listener2 | Listener | ConsoleListener

text \<open>What the loop waits for. The socket may refuse a datagram after it took some of an answer;
  \<open>accepts\<close> of a datagram is how many it takes.\<close>

datatype io_event =
    TimerTick fsys
  | Received queued
  | Datagram bytes sockaddr nat
  | UdpError
  | UdpNone
  | Accepted loop_failure sockaddr
  | AcceptFailed loop_failure

datatype spawned = CheckRelays "string list" | ServeConn sockaddr bool | ServeHelper sockaddr

text \<open>A listener is named by the failure that stands for it.\<close>

definition accept_task :: "loop_failure \<Rightarrow> sockaddr \<Rightarrow> spawned list" where
  "accept_task l addr =
     (case l of
        Listener \<Rightarrow> [ServeConn addr False]
      | Listener3 \<Rightarrow> [ServeConn addr True]
      | Listener2 \<Rightarrow> [ServeHelper addr]
      | ConsoleListener \<Rightarrow> [ServeHelper addr]
      | UdpSocket \<Rightarrow> [])"

definition io_round ::
  "'n surroundings \<Rightarrow> inputs \<Rightarrow> io_event \<Rightarrow> conf \<Rightarrow> 'n server
   \<Rightarrow> (outcome list \<times> spawned list \<times> loop_failure option) \<times> conf \<times> 'n server" where
  "io_round su i ev cf sv =
     (case ev of
        TimerTick fs \<Rightarrow>
          (let (probe, sv') = io_timer su fs cf sv
           in (([], if probe then [CheckRelays (cf_relay_servers0 cf)] else [], None), cf, sv'))
      | Received d \<Rightarrow> (let (outs, cf', sv') = io_queue su d cf sv in ((outs, [], None), cf', sv'))
      | Datagram data addr n \<Rightarrow>
          (let (outs, cf', sv') = handle_udp su i data addr cf sv
           in ((take n outs, [], if n < length outs then Some UdpSocket else None), cf', sv'))
      | UdpError \<Rightarrow> (([], [], Some UdpSocket), cf, sv)
      | UdpNone \<Rightarrow> (([], [], None), cf, sv)
      | Accepted l addr \<Rightarrow> (([], accept_task l addr, None), cf, sv)
      | AcceptFailed l \<Rightarrow> (([], [], Some l), cf, sv))"

section \<open>Sockets\<close>

definition create_udp_listener :: "(sockaddr \<Rightarrow> bool) \<Rightarrow> ipaddr option \<Rightarrow> int \<Rightarrow> sockaddr option" where
  "create_udp_listener opens bind_addr port =
     (case bind_addr of
        Some a \<Rightarrow> (let s = SocketAddr a (word_of_int port) in if opens s then Some s else None)
      | None \<Rightarrow>
          (let s6 = SocketAddr (V6 0) (word_of_int port); s4 = SocketAddr (V4 0) (word_of_int port)
           in if opens s6 then Some s6 else if opens s4 then Some s4 else None))"

definition create_tcp_listener :: "(listen_on \<Rightarrow> bool) \<Rightarrow> ipaddr option \<Rightarrow> int \<Rightarrow> listen_on option" where
  "create_tcp_listener opens bind_addr port =
     (let l = listen_tcp bind_addr (word_of_int port) in if opens l then Some l else None)"

record sockets =
  so_udp :: sockaddr
  so_main :: listen_on
  so_nat :: listen_on
  so_ws :: listen_on
  so_console :: "sockaddr option"

record socket_opens =
  op_udp :: "sockaddr \<Rightarrow> bool"
  op_tcp :: "listen_on \<Rightarrow> bool"
  op_console :: "sockaddr \<Rightarrow> bool"

definition create_console :: "(sockaddr \<Rightarrow> bool) \<Rightarrow> ipaddr option \<Rightarrow> int \<Rightarrow> (sockaddr option) option" where
  "create_console opens bind_addr port =
     (case listen_console opens bind_addr (word_of_int port) of Inr c \<Rightarrow> Some c | Inl _ \<Rightarrow> None)"

text \<open>Opening all of them at the start, and after a failure the one that failed; nothing when that
  is not possible, which ends the server.\<close>

definition open_sockets :: "socket_opens \<Rightarrow> ipaddr option \<Rightarrow> int \<Rightarrow> sockets option" where
  "open_sockets opn bind_addr port =
     Option.bind (create_udp_listener (op_udp opn) bind_addr port) (\<lambda>u.
     Option.bind (create_tcp_listener (op_tcp opn) bind_addr port) (\<lambda>m.
     Option.bind (create_tcp_listener (op_tcp opn) bind_addr (port - 1)) (\<lambda>n.
     Option.bind (create_tcp_listener (op_tcp opn) bind_addr (port + 2)) (\<lambda>w.
     Option.bind (create_console (op_console opn) bind_addr (port - 1)) (\<lambda>c.
       Some \<lparr>so_udp = u, so_main = m, so_nat = n, so_ws = w, so_console = c\<rparr>)))))"

definition reopen :: "socket_opens \<Rightarrow> ipaddr option \<Rightarrow> int \<Rightarrow> loop_failure \<Rightarrow> sockets \<Rightarrow> sockets option" where
  "reopen opn bind_addr port f so =
     (case f of
        UdpSocket \<Rightarrow> map_option (\<lambda>u. so\<lparr>so_udp := u\<rparr>) (create_udp_listener (op_udp opn) bind_addr port)
      | Listener \<Rightarrow> map_option (\<lambda>l. so\<lparr>so_main := l\<rparr>) (create_tcp_listener (op_tcp opn) bind_addr port)
      | Listener2 \<Rightarrow> map_option (\<lambda>l. so\<lparr>so_nat := l\<rparr>) (create_tcp_listener (op_tcp opn) bind_addr (port - 1))
      | ConsoleListener \<Rightarrow> map_option (\<lambda>c. so\<lparr>so_console := c\<rparr>) (create_console (op_console opn) bind_addr (port - 1))
      | Listener3 \<Rightarrow> map_option (\<lambda>l. so\<lparr>so_ws := l\<rparr>) (create_tcp_listener (op_tcp opn) bind_addr (port + 2)))"

section \<open>The self test\<close>

text \<open>Whom it asks: nobody, the address the server listens on, or a given one.\<close>

definition test_target :: "string \<Rightarrow> sockaddr \<Rightarrow> unit + sockaddr option" where
  "test_target arg local =
     (if to_lowercase arg = ''no'' then Inr None
      else if arg = [] then Inr (Some local)
      else (case parse_sockaddr arg of Some a \<Rightarrow> Inr (Some a) | None \<Rightarrow> Inl ()))"

definition test_message :: rmsg where
  "test_message = RegisterPeer ''(:test_hbbs:)'' 0"

datatype test_event = TestTick instant bool | TestAnswer instant bool

text \<open>A tick either gives up, fails to send, or sends; an answer that can be parsed counts.\<close>

fun test_hbbs :: "test_event list \<Rightarrow> instant \<Rightarrow> unit + instant" where
  "test_hbbs [] heard = Inr heard"
| "test_hbbs (TestTick now sent # evs) heard =
     (if 12 < elapsed_secs now heard then Inl () else if \<not> sent then Inl () else test_hbbs evs heard)"
| "test_hbbs (TestAnswer now parsed # evs) heard = test_hbbs evs (if parsed then now else heard)"

text \<open>The address that is really asked, and whether the test ends the process: an address that
  stands for all of IPv6 gets a second chance over IPv4. \<open>events\<close> is what happens on a socket made
  for an address, nothing when it cannot be made.\<close>

definition test_addr :: "sockaddr \<Rightarrow> sockaddr" where
  "test_addr a =
     (if is_unspecified (sa_ip a)
      then SocketAddr (case sa_ip a of V4 _ \<Rightarrow> v4_localhost | V6 _ \<Rightarrow> V6 1) (sa_port a)
      else a)"

definition self_test_exits :: "(sockaddr \<Rightarrow> (instant \<times> test_event list) option) \<Rightarrow> sockaddr \<Rightarrow> bool" where
  "self_test_exits events a =
     (let fails = (\<lambda>b. case events (test_addr b) of None \<Rightarrow> True | Some (start, evs) \<Rightarrow> isl (test_hbbs evs start))
      in fails a \<and>
         ((case sa_ip a of V6 _ \<Rightarrow> is_unspecified (sa_ip a) | V4 _ \<Rightarrow> False) \<longrightarrow> fails (SocketAddr (V4 0) (sa_port a))))"

section \<open>The whole server\<close>

text \<open>The configuration of the main task, the shared state, the queue, and the relay lists that are
  being probed.\<close>

record 'n world =
  w_cf :: conf
  w_sv :: "'n server"
  w_queue :: "queued list"
  w_probes :: "string list list"

definition queue_of :: "outcome list \<Rightarrow> queued list" where
  "queue_of outs = concat (map (\<lambda>out. case out of QueueUdp m a \<Rightarrow> [Msg m a] | _ \<Rightarrow> []) outs)"

definition probes_of :: "spawned list \<Rightarrow> string list list" where
  "probes_of sp = concat (map (\<lambda>s. case s of CheckRelays rs \<Rightarrow> [rs] | _ \<Rightarrow> []) sp)"

text \<open>A frame of a connection and the end of one are handled with a copy of the configuration made
  when the connection came in, so with any.\<close>

inductive hbbs_step_with :: "(inputs \<Rightarrow> bool) \<Rightarrow> 'n surroundings \<Rightarrow> 'n world \<Rightarrow> 'n world \<Rightarrow> bool" for ok su where
  hbbs_event: "ok i \<Longrightarrow> (\<forall>d. ev \<noteq> Received d) \<Longrightarrow>
    io_round su i ev (w_cf w) (w_sv w) = ((outs, sp, fail), cf', sv') \<Longrightarrow>
    hbbs_step_with ok su w (w\<lparr>w_cf := cf', w_sv := sv', w_probes := w_probes w @ probes_of sp\<rparr>)"
| hbbs_queue: "w_queue w = d # q \<Longrightarrow>
    io_round su i (Received d) (w_cf w) (w_sv w) = ((outs, sp, fail), cf', sv') \<Longrightarrow>
    hbbs_step_with ok su w (w\<lparr>w_cf := cf', w_sv := sv', w_queue := q\<rparr>)"
| hbbs_probed: "w_probes w = ps @ rs # qs \<Longrightarrow> distinct order \<Longrightarrow> set order = {..<length rs} \<Longrightarrow>
    check_relay_servers (se_relay_port (su_sel su)) answers order rs = r \<Longrightarrow>
    hbbs_step_with ok su w (w\<lparr>w_probes := ps @ qs, w_queue := w_queue w @ (case r of None \<Rightarrow> [] | Some d \<Rightarrow> [d])\<rparr>)"
| hbbs_tcp: "ok i \<Longrightarrow> handle_tcp su i cf data s addr key False None (w_sv w) = (stay, outs, s', sv') \<Longrightarrow>
    hbbs_step_with ok su w (w\<lparr>w_sv := sv', w_queue := w_queue w @ queue_of outs\<rparr>)"
| hbbs_ws: "ok i \<Longrightarrow> (c, su_into_v4 su addr) \<in> set (ws_tasks (sv_ws (w_sv w))) \<Longrightarrow>
    handle_tcp su i cf data s addr key True (Some c) (w_sv w) = (stay, outs, s', sv') \<Longrightarrow>
    hbbs_step_with ok su w (w\<lparr>w_sv := sv', w_queue := w_queue w @ queue_of outs\<rparr>)"
| hbbs_ws_accept: "hbbs_step_with ok su w (w\<lparr>w_sv := (w_sv w)\<lparr>sv_ws := snd (ws_accept (su_into_v4 su) addr (sv_ws (w_sv w)))\<rparr>\<rparr>)"
| hbbs_ws_end: "(c, a) \<in> set (ws_tasks (sv_ws (w_sv w))) \<Longrightarrow>
    hbbs_step_with ok su w (w\<lparr>w_sv := (w_sv w)\<lparr>sv_ws := ws_end c a (sv_ws (w_sv w))\<rparr>\<rparr>)"
| hbbs_tcp_end: "hbbs_step_with ok su w (w\<lparr>w_sv := plain_end su addr s (w_sv w)\<rparr>)"
| hbbs_console: "check_cmd su now cmd fs (w_sv w) = (a, ds, fs', sv') \<Longrightarrow>
    hbbs_step_with ok su w (w\<lparr>w_sv := sv', w_queue := w_queue w @ ds\<rparr>)"

text \<open>What a frame or a datagram needs from outside (the clock, the table, a new guid) is only known to
  satisfy \<open>ok\<close>; a new guid is never empty.\<close>

abbreviation hbbs_step :: "'n surroundings \<Rightarrow> 'n world \<Rightarrow> 'n world \<Rightarrow> bool" where
  "hbbs_step \<equiv> hbbs_step_with (\<lambda>i. in_guid i \<noteq> [])"

definition hbbs_start :: "'n surroundings \<Rightarrow> environ \<Rightarrow> fsys \<Rightarrow> database \<Rightarrow> conf \<Rightarrow> 'n world" where
  "hbbs_start su env fs db cf =
     (let (cf', sv) = start_server su env fs db cf in \<lparr>w_cf = cf', w_sv = sv, w_queue = [], w_probes = []\<rparr>)"

definition hbbs_reachable :: "'n surroundings \<Rightarrow> 'n world \<Rightarrow> bool" where
  "hbbs_reachable su w \<longleftrightarrow>
     (\<exists>env fs db cf. pm_wf \<lparr>pm_map = [], pm_db = db\<rparr> \<and> (hbbs_step su)\<^sup>*\<^sup>* (hbbs_start su env fs db cf) w)"

section \<open>The relays in use\<close>

lemma relay_list_ok_filter: "relay_list_ok rp rs \<Longrightarrow> relay_list_ok rp (filter P rs)"
  by (auto simp: relay_list_ok_def distinct_map_filter)

lemma parse_relay_list_ok: "parse_relay_list rp text = (rs, dropped) \<Longrightarrow> relay_list_ok rp rs"
  using parse_relay_entries_ok [of rp "[]" "split_char (CHR '','') text" "[]"]
  by (simp add: parse_relay_list_def relay_list_ok_def)

lemma get_relay_server_live [simp]:
  "s_live (sv_relays (snd (get_relay_server su i a b sv))) = s_live (sv_relays sv)"
  by (simp add: get_relay_server_def case_prod_beta pick_frame(1))

lemma push_ws_relays [simp]: "sv_relays (snd (push_ws su a sv)) = sv_relays sv"
  by (simp add: push_ws_def case_prod_beta)

lemma push_ws_same_relays: "push_ws su a sv = (c, sv') \<Longrightarrow> sv_relays sv' = sv_relays sv"
  using push_ws_relays [of su a sv] by simp

lemma send_to_tcp_relays [simp]: "sv_relays (snd (send_to_tcp su m a sv)) = sv_relays sv"
  using push_ws_relays [of su a sv] by (cases "push_ws su a sv") (auto simp: send_to_tcp_def Let_def split: option.split)

lemma get_pk_relays [simp]: "sv_relays (snd (get_pk su i cf v pid sv)) = sv_relays sv"
  by (simp add: get_pk_def case_prod_beta split: option.split prod.split)

lemma update_addr_relays [simp]: "sv_relays (snd (update_addr su i pid addr sv)) = sv_relays sv"
  by (simp add: update_addr_def Let_def split: option.split)

lemma handle_register_pk_relays [simp]:
  "sv_relays (snd (handle_register_pk su i pid u k addr ws sv)) = sv_relays sv"
  by (auto simp: handle_register_pk_def Let_def split: option.split prod.split bool.split)

lemma handle_punch_live [simp]:
  "s_live (sv_relays (snd (handle_punch_hole_request su i cf addr ph key ws sv))) = s_live (sv_relays sv)"
  by (simp add: handle_punch_hole_request_def Let_def case_prod_beta split: option.split)

lemma handle_tcp_punch_live [simp]:
  "s_live (sv_relays (snd (handle_tcp_punch_hole_request su i cf addr ph key ws sv))) = s_live (sv_relays sv)"
proof -
  obtain m to sv1 where h: "handle_punch_hole_request su i cf addr ph key ws sv = ((m, to), sv1)"
    by (metis prod.collapse)
  have "s_live (sv_relays sv1) = s_live (sv_relays sv)" using handle_punch_live [of su i cf addr ph key ws sv] h by simp
  then show ?thesis
    by (auto simp: handle_tcp_punch_hole_request_def h dest!: push_ws_same_relays split: option.split prod.split)
qed

lemma handle_relay_response_live [simp]:
  "s_live (sv_relays (snd (handle_relay_response su i cf rr addr sv))) = s_live (sv_relays sv)"
  by (simp add: handle_relay_response_def fill_pk_def fill_relay_def Let_def case_prod_beta split: rr_union.split)

lemma answers_live [simp]:
  "sv_relays (snd (handle_hole_sent su i cf phs addr sv)) = sv_relays sv"
  "sv_relays (snd (handle_local_addr su i cf la sv)) = sv_relays sv"
  by (simp_all add: handle_hole_sent_def handle_local_addr_def Let_def case_prod_beta)

lemma routes_relays [simp]:
  "sv_relays (snd (keep_route su addr wc s sv)) = sv_relays sv"
  "sv_relays (register_conn su addr wc sv) = sv_relays sv"
  by (simp_all add: keep_route_def register_conn_def split: option.split)

lemma handle_tcp_live [simp]:
  "s_live (sv_relays (snd (snd (snd (handle_tcp su i cf data s addr key ws wc sv))))) = s_live (sv_relays sv)"
proof (cases "su_parse su data")
  case (Some m)
  then show ?thesis
  proof (cases m)
    case (RequestRelay rf)
    obtain s1 sv1 where k: "keep_route su addr wc s sv = (s1, sv1)" by fastforce
    have "sv_relays sv1 = sv_relays sv" using routes_relays(1) [of su addr wc s sv] k by simp
    with Some RequestRelay k show ?thesis
      by (auto simp: handle_tcp_def Let_def dest!: push_ws_same_relays split: option.split prod.split)
  next
    case (RegisterPk pid u k)
    obtain r sv1 where h: "handle_register_pk su i pid u k addr ws sv = (r, sv1)" by fastforce
    have "sv_relays sv1 = sv_relays sv" using handle_register_pk_relays [of su i pid u k addr ws sv] h by simp
    with Some RegisterPk h show ?thesis by (auto simp: handle_tcp_def split: option.split)
  qed (simp_all add: handle_tcp_def Let_def case_prod_beta)
qed (simp add: handle_tcp_def)

lemma handle_udp_relays [simp]: "sv_relays (snd (snd (handle_udp su i data addr cf sv))) = sv_relays sv"
proof (cases "su_parse su data")
  case (Some m)
  then show ?thesis
  proof (cases m)
    case (RegisterPk pid u k)
    obtain r sv1 where h: "handle_register_pk su i pid u k addr False sv = (r, sv1)" by fastforce
    have "sv_relays sv1 = sv_relays sv" using handle_register_pk_relays [of su i pid u k addr False sv] h by simp
    with Some RegisterPk h show ?thesis by (auto simp: handle_udp_def split: option.split)
  qed (simp_all add: handle_udp_def Let_def case_prod_beta)
qed (simp add: handle_udp_def)

lemma handle_udp_configured [simp]:
  "cf_relay_servers0 (fst (snd (handle_udp su i data addr cf sv))) = cf_relay_servers0 cf"
proof (cases "su_parse su data")
  case (Some m)
  then show ?thesis
    by (cases m) (auto simp: handle_udp_def Let_def case_prod_beta split: option.split prod.split)
qed (simp add: handle_udp_def)

lemma reload_live [simp]: "s_live (reload env fs st) = s_live st"
  by (simp add: reload_def reload_geo_parts(2) reload_routes_frame(2))

lemma configure_live [simp]: "s_live (configure env fs st) = s_live st"
proof -
  have "s_live (load_preferred_relay env fs st) = s_live st" for st
    by (auto simp: load_preferred_relay_def Let_def split: option.split)
  then show ?thesis by (simp add: configure_def Let_def reload_geo_parts(2) reload_routes_frame(2))
qed

lemma console_live [simp]: "s_live (snd (snd (console env now cmd fs st))) = s_live st"
proof -
  have "s_live (snd (snd (use_relay_command env arg fs st))) = s_live st" for arg
    by (auto simp: use_relay_command_def Let_def clear_pins_def split: option.split prod.split)
  with console_cases [of env now cmd fs st] show ?thesis by metis
qed

section \<open>What the console keeps\<close>

lemma blocker_wf_retain: "blocker_wf blk \<Longrightarrow> blocker_wf (hretain P blk)"
  by (auto simp: blocker_wf_def hretain_def hwf_def intro: distinct_map_filter)

lemma blocker_wf_del: "blocker_wf blk \<Longrightarrow> blocker_wf (hdel ip blk)"
  unfolding blocker_wf_def using hm.wf_del [of blk ip] by (auto simp: hdel_def AList.delete_eq)

lemma cmd_ip_blocker_wf: "blocker_wf blk \<Longrightarrow> blocker_wf (snd (cmd_ip_blocker now args blk))"
  by (simp add: cmd_ip_blocker_def Let_def blocker_wf_retain blocker_wf_del split: list.split)

lemma cmd_punch_requests_bound: "length (snd (cmd_punch_requests args reqs)) \<le> length reqs"
  by (auto simp: cmd_punch_requests_def Let_def split: list.split)

lemma cmd_test_geo_step:
  "snd (cmd_test_geo su now args sel) = sel \<or> (\<exists>a b. snd (cmd_test_geo su now args sel) = snd (pick (su_sel su) now a b False sel))"
  by (auto simp: cmd_test_geo_def Let_def case_prod_beta split: list.split option.split)

text \<open>What a command leaves: the selector after at most one step that keeps the live relays, a
  blocker and a log that are still within their bounds, and in the queue nothing but relay lists
  to be parsed.\<close>

lemma check_cmd_keeps:
  assumes "check_cmd su now cmd fs sv = (a, ds, fs', sv')" "server_wf su sv"
  shows "server_wf su sv' \<and> s_live (sv_relays sv') = s_live (sv_relays sv) \<and> (\<forall>d \<in> set ds. \<exists>t. d = RelayServers0 t)"
proof (cases "console (su_sel su) now cmd fs (sv_relays sv)")
  case (fields r fs1 sel)
  note parts = assms(2) [unfolded server_wf_def]
  show ?thesis
  proof (cases r)
    case (Some ls)
    have "s_live sel = s_live (sv_relays sv)"
      using console_live [of "su_sel su" now cmd fs "sv_relays sv"] fields by simp
    moreover have "selector_wf (su_sel su) sel"
      using sel_step_wf [OF step_console [of "su_sel su" "sv_relays sv" now cmd fs]] parts fields by simp
    ultimately show ?thesis using assms fields Some parts by (auto simp: check_cmd_def server_wf_def)
  next
    case None
    let ?args = "tl (split_char (CHR '' '') (trim cmd))"
    have geo: "selector_wf (su_sel su) (snd (cmd_test_geo su now ?args (sv_relays sv))) \<and>
        s_live (snd (cmd_test_geo su now ?args (sv_relays sv))) = s_live (sv_relays sv)"
      using cmd_test_geo_step [of su now ?args "sv_relays sv"] parts pick_wf [of "su_sel su" "sv_relays sv"] pick_frame(1)
      by metis
    have reqs: "length (snd (cmd_punch_requests ?args (sv_punch_reqs sv))) \<le> su_punch_max su"
      using cmd_punch_requests_bound [of ?args "sv_punch_reqs sv"] parts by linarith
    have blk: "blocker_wf (snd (cmd_ip_blocker now ?args (sv_blocker sv)))" using cmd_ip_blocker_wf parts by blast
    show ?thesis
      using assms(1) fields None parts geo reqs blk
      by (auto simp: check_cmd_def server_wf_def Let_def case_prod_beta split: if_splits list.splits)
  qed
qed

section \<open>Invariant\<close>

definition world_wf :: "'n surroundings \<Rightarrow> 'n world \<Rightarrow> bool" where
  "world_wf su w \<longleftrightarrow>
     (let ok = relay_list_ok (se_relay_port (su_sel su))
      in server_wf su (w_sv w) \<and> ok (cf_relay_servers0 (w_cf w)) \<and> ok (s_live (sv_relays (w_sv w))) \<and>
         (\<forall>rs \<in> set (w_probes w). ok rs) \<and> (\<forall>rs. RelayServers rs \<in> set (w_queue w) \<longrightarrow> ok rs))"

lemma parse_relay_servers_ok:
  assumes "parse_relay_servers su text cf sv = (cf', sv')" "server_wf su sv"
  shows "server_wf su sv' \<and> relay_list_ok (se_relay_port (su_sel su)) (cf_relay_servers0 cf') \<and>
    s_live (sv_relays sv') = cf_relay_servers0 cf'"
proof -
  obtain rs dropped where p: "parse_relay_list (se_relay_port (su_sel su)) text = (rs, dropped)" by fastforce
  with assms parse_relay_list_ok [OF p] show ?thesis
    by (auto simp: parse_relay_servers_def server_wf_def set_live_wf) (simp_all add: set_live_def)
qed

lemma io_round_keeps:
  assumes "io_round su i ev cf sv = ((outs, sp, fail), cf', sv')" "server_wf su sv" "in_guid i \<noteq> [] \<or> (\<exists>d. ev = Received d)"
    and "relay_list_ok (se_relay_port (su_sel su)) (cf_relay_servers0 cf)"
    and "relay_list_ok (se_relay_port (su_sel su)) (s_live (sv_relays sv))"
    and "\<And>rs. ev = Received (RelayServers rs) \<Longrightarrow> relay_list_ok (se_relay_port (su_sel su)) rs"
  shows "server_wf su sv' \<and> relay_list_ok (se_relay_port (su_sel su)) (cf_relay_servers0 cf') \<and>
    relay_list_ok (se_relay_port (su_sel su)) (s_live (sv_relays sv')) \<and>
    (\<forall>rs \<in> set (probes_of sp). rs = cf_relay_servers0 cf)"
proof (cases ev)
  case (TimerTick fs)
  with assms show ?thesis
    by (auto simp: io_round_def io_timer_def probes_of_def server_wf_def reload_wf split: if_splits)
next
  case (Received d)
  show ?thesis
  proof (cases d)
    case (RelayServers0 listed)
    obtain cf1 sv1 where p: "parse_relay_servers su listed cf sv = (cf1, sv1)" by fastforce
    with parse_relay_servers_ok [OF p assms(2)] assms(1) Received RelayServers0 show ?thesis
      by (auto simp: io_round_def io_queue_def probes_of_def)
  next
    case (RelayServers rs)
    with assms(1,2,4) assms(6) [of rs] Received show ?thesis
      by (auto simp: io_round_def io_queue_def probes_of_def server_wf_def set_live_wf) (simp_all add: set_live_def)
  next
    case (Msg m a)
    with assms Received show ?thesis by (auto simp: io_round_def io_queue_def probes_of_def)
  qed
next
  case (Datagram data addr n)
  with assms(1) have new: "cf' = fst (snd (handle_udp su i data addr cf sv))" "sv' = snd (snd (handle_udp su i data addr cf sv))"
    "sp = []" by (auto simp: io_round_def Let_def case_prod_beta)
  moreover have "in_guid i \<noteq> []" using assms(3) Datagram by simp
  ultimately show ?thesis using handle_udp_wf assms(2,4,5) by (auto simp: probes_of_def)
next
  case (Accepted l addr)
  with assms show ?thesis
    by (cases l) (auto simp: io_round_def probes_of_def accept_task_def)
qed (use assms in \<open>auto simp: io_round_def probes_of_def\<close>)

lemma hbbs_step_wf:
  assumes "hbbs_step_with ok su w w'" "world_wf su w" "\<And>i. ok i \<Longrightarrow> in_guid i \<noteq> []"
  shows "world_wf su w'"
  using assms
proof (induction rule: hbbs_step_with.induct)
  case (hbbs_event i ev w outs sp fail cf' sv')
  then show ?case
    using io_round_keeps [OF hbbs_event(3)] by (auto simp: world_wf_def Let_def)
next
  case (hbbs_queue w d q i outs sp fail cf' sv')
  then show ?case
    using io_round_keeps [OF hbbs_queue(2)] by (auto simp: world_wf_def Let_def)
next
  case (hbbs_probed w ps rs qs order answers r)
  have "relay_list_ok (se_relay_port (su_sel su)) rs" using hbbs_probed by (simp add: world_wf_def Let_def)
  then have "relay_list_ok (se_relay_port (su_sel su)) rs'" if "Some (RelayServers rs') = r" for rs'
    using check_relay_order [OF hbbs_probed(2,3), of "se_relay_port (su_sel su)" answers] hbbs_probed(4) that
    by (auto simp: Let_def intro: relay_list_ok_filter split: if_splits)
  then show ?case using hbbs_probed by (auto simp: world_wf_def Let_def split: option.splits)
next
  case (hbbs_tcp i cf data s addr key w stay outs s' sv')
  have "server_wf su sv'"
    using srv_step_wf [OF srv_tcp [of i su "w_sv w" cf data s addr key]] hbbs_tcp by (simp add: world_wf_def Let_def)
  moreover have "s_live (sv_relays sv') = s_live (sv_relays (w_sv w))"
    using handle_tcp_live [of su i cf data s addr key False None "w_sv w"] hbbs_tcp(2) by simp
  ultimately show ?case using hbbs_tcp(3) by (auto simp: world_wf_def Let_def queue_of_def split: outcome.splits)
next
  case (hbbs_ws i c addr w cf data s key stay outs s' sv')
  have "server_wf su sv'"
    using srv_step_wf [OF srv_ws [of i c su addr "w_sv w" cf data s key]] hbbs_ws by (simp add: world_wf_def Let_def)
  moreover have "s_live (sv_relays sv') = s_live (sv_relays (w_sv w))"
    using handle_tcp_live [of su i cf data s addr key True "Some c" "w_sv w"] hbbs_ws(3) by simp
  ultimately show ?case using hbbs_ws(4) by (auto simp: world_wf_def Let_def queue_of_def split: outcome.splits)
next
  case (hbbs_console now cmd fs w a ds fs' sv')
  then show ?case using check_cmd_keeps [OF hbbs_console(1)] by (auto simp: world_wf_def Let_def)
next
  case (hbbs_ws_accept w addr)
  then show ?case using ws_accept_wf by (auto simp: world_wf_def server_wf_def Let_def)
next
  case (hbbs_ws_end c a w)
  then show ?case using ws_end_wf by (auto simp: world_wf_def server_wf_def Let_def)
next
  case (hbbs_tcp_end w addr s)
  then show ?case by (auto simp: world_wf_def server_wf_def Let_def plain_end_def)
qed

lemma hbbs_start_wf:
  assumes "pm_wf \<lparr>pm_map = [], pm_db = db\<rparr>"
  shows "world_wf su (hbbs_start su env fs db cf)"
proof -
  obtain cf1 sv1 where p: "parse_relay_servers su (get_arg env ''relay-servers'') cf (srv_init db) = (cf1, sv1)" by fastforce
  note ok = parse_relay_servers_ok [OF p srv_init_wf [OF assms]]
  then have "selector_wf (su_sel su) (configure (su_sel su) fs (sv_relays sv1))"
    using configure_wf by (auto simp: server_wf_def)
  with p ok show ?thesis by (auto simp: hbbs_start_def start_server_def world_wf_def server_wf_def Let_def)
qed

interpretation hbbs: invariant_system "hbbs_step su"
    "\<lambda>w. \<exists>env fs db cf. pm_wf \<lparr>pm_map = [], pm_db = db\<rparr> \<and> w = hbbs_start su env fs db cf" "world_wf su" for su
  by unfold_locales (auto intro: hbbs_start_wf hbbs_step_wf)

lemma hbbs_reachable_wf: "hbbs_reachable su w \<Longrightarrow> world_wf su w"
  unfolding hbbs_reachable_def using hbbs.reachable_inv by blast

section \<open>Properties\<close>


text \<open>A server to which a device connects over a websocket and registers.\<close>

definition example_registering :: "(ipaddr \<times> nat) surroundings" where
  "example_registering = example_su\<lparr>su_parse := (\<lambda>_. Some (RegisterPk ''654321'' [1] [2]))\<rparr>"

definition example_connected :: "(ipaddr \<times> nat) world" where
  "example_connected = (let w = hbbs_start example_registering [] example_fs [] example_cf
     in w\<lparr>w_sv := (w_sv w)\<lparr>sv_ws := snd (ws_accept (su_into_v4 example_registering) addr_a (sv_ws (w_sv w)))\<rparr>\<rparr>)"

definition example_registered :: "(ipaddr \<times> nat) world" where
  "example_registered = (case handle_tcp example_registering example_in example_cf [] (Some (WsSink 0)) addr_a [] True (Some 0)
       (w_sv example_connected) of
     (stay, outs, s, sv) \<Rightarrow> example_connected\<lparr>w_sv := sv, w_queue := w_queue example_connected @ queue_of outs\<rparr>)"

lemma example_connected_parts:
  "sv_pm (w_sv example_connected) = \<lparr>pm_map = [], pm_db = []\<rparr>" "sv_blocker (w_sv example_connected) = []"
  "sv_ws (w_sv example_connected) = \<lparr>ws_peers = [], ws_tasks = [(0, addr_a)], ws_serial = 1\<rparr>"
  by (simp_all add: example_connected_def hbbs_start_def start_server_def parse_relay_servers_def srv_init_def Let_def case_prod_beta
      ws_accept_def ws_empty_def example_registering_def example_su_def)

lemma example_registered_reachable: "hbbs_reachable example_registering example_registered"
proof -
  let ?w = "hbbs_start example_registering [] example_fs [] example_cf"
  obtain stay outs s sv where h: "handle_tcp example_registering example_in example_cf [] (Some (WsSink 0)) addr_a [] True (Some 0)
       (w_sv example_connected) = (stay, outs, s, sv)" by (metis prod.collapse)
  have "hbbs_step example_registering ?w example_connected"
    using hbbs_ws_accept [where w = ?w and su = example_registering and addr = addr_a] by (simp add: example_connected_def Let_def)
  then have "(hbbs_step example_registering)\<^sup>*\<^sup>* ?w example_connected" by blast
  also have "hbbs_step example_registering \<dots> example_registered"
  proof -
    have "in_guid example_in \<noteq> []" "(0, su_into_v4 example_registering addr_a) \<in> set (ws_tasks (sv_ws (w_sv example_connected)))"
      by (simp_all add: example_connected_parts example_in_def example_registering_def example_su_def)
    from hbbs_ws [of "\<lambda>i. in_guid i \<noteq> []", OF this h] show ?thesis by (simp add: example_registered_def h)
  qed
  finally have "(hbbs_step example_registering)\<^sup>*\<^sup>* ?w example_registered" .
  moreover have "pm_wf \<lparr>pm_map = [], pm_db = []\<rparr>" by (simp add: pm_wf_def db_wf_def hwf_def)
  ultimately show ?thesis unfolding hbbs_reachable_def by blast
qed

lemma example_registered_parts:
  "pm_db (sv_pm (w_sv example_registered)) = [\<lparr>row_guid = [8], row_id = ''654321'', row_uuid = [1], row_pk = [2], row_info = ''5.5.5.5''\<rparr>]"
  "\<exists>p. hget (pm_map (sv_pm (w_sv example_registered))) ''654321'' = Some p \<and> guid p = [8]"
  "hget (ws_peers (sv_ws (w_sv example_registered))) addr_a = Some 0"
proof -
  note d = example_registered_def handle_tcp_def handle_register_pk_def register_conn_def register_ws_peer_def example_connected_parts
    pm_get_or_def pm_get_def db_get_peer_def compare_registration_def reg_pk_tick_def window_tick_def check_ip_blocker_def
    pm_write_def pm_update_pk_def db_insert_peer_def hget_def hput_def elapsed_secs_def MAX_PEER_ID_LEN_def
    example_registering_def example_su_def example_in_def peer_default_def example_serde_def example_show Let_def
  show "pm_db (sv_pm (w_sv example_registered)) = [\<lparr>row_guid = [8], row_id = ''654321'', row_uuid = [1], row_pk = [2], row_info = ''5.5.5.5''\<rparr>]"
    by (simp add: d)
  show "\<exists>p. hget (pm_map (sv_pm (w_sv example_registered))) ''654321'' = Some p \<and> guid p = [8]" by (simp add: d)
  show "hget (ws_peers (sv_ws (w_sv example_registered))) addr_a = Some 0" by (simp add: d)
qed


lemma rs_command:
  assumes "split_char (CHR '' '') (trim cmd) = [''rs'', listed]"
  shows "check_cmd su now cmd fs sv = (Nothing, [RelayServers0 listed], fs, sv)"
  using assms by (simp add: check_cmd_def console_def)

text \<open>
  C39. A change of the relays can be lost for good. While the relays of the old list are being
  probed, the console replaces them by a single one; then the probe ends and puts the old relays
  back. Nothing corrects that: with one configured relay the timer starts no probe, and every
  request is given one of the old relays until the list is changed again.
\<close>

theorem relay_change_can_be_lost:
  assumes "w_queue w = []" "w_probes w = []" "2 \<le> length (cf_relay_servers0 (w_cf w))"
    and "split_char (CHR '' '') (trim cmd) = [''rs'', listed]"
    and "parse_relay_list (se_relay_port (su_sel su)) listed = ([c], dropped)"
  shows "\<exists>w'. (hbbs_step su)\<^sup>*\<^sup>* w w' \<and> w_queue w' = [] \<and> w_probes w' = [] \<and>
    cf_relay_servers0 (w_cf w') = [c] \<and> s_live (sv_relays (w_sv w')) = cf_relay_servers0 (w_cf w) \<and>
    (\<forall>i fs. \<exists>sv'. io_round su i (TimerTick fs) (w_cf w') (w_sv w') = (([], [], None), w_cf w', sv') \<and>
       s_live (sv_relays sv') = cf_relay_servers0 (w_cf w))"
proof -
  obtain cf sv where w: "w = \<lparr>w_cf = cf, w_sv = sv, w_queue = [], w_probes = []\<rparr>"
    using assms(1,2) by (cases w) auto
  let ?old = "cf_relay_servers0 cf" and ?port = "se_relay_port (su_sel su)" and ?cf = "cf\<lparr>cf_relay_servers0 := [c]\<rparr>"
  define sv1 where "sv1 = sv\<lparr>sv_relays := reload (su_sel su) undefined (sv_relays sv)\<rparr>"
  define sv2 where "sv2 = sv1\<lparr>sv_relays := set_live [c] (sv_relays sv1)\<rparr>"
  define sv3 where "sv3 = sv2\<lparr>sv_relays := set_live ?old (sv_relays sv2)\<rparr>"
  have len: "2 \<le> length ?old" using assms(3) w by simp
  have "hbbs_step su w \<lparr>w_cf = cf, w_sv = sv1, w_queue = [], w_probes = [?old]\<rparr>"
    using hbbs_event [of "\<lambda>i. in_guid i \<noteq> []" "\<lparr>in_now = 0, in_utc = 0, in_db_up = True, in_guid = [0]\<rparr>" "TimerTick undefined" su w] len
    by (simp add: io_round_def io_timer_def probes_of_def sv1_def w)
  then have "(hbbs_step su)\<^sup>*\<^sup>* w \<lparr>w_cf = cf, w_sv = sv1, w_queue = [], w_probes = [?old]\<rparr>" by blast
  also have "hbbs_step su \<dots> \<lparr>w_cf = cf, w_sv = sv1, w_queue = [RelayServers0 listed], w_probes = [?old]\<rparr>"
    using hbbs_console [OF rs_command [OF assms(4), of su 0 undefined],
        where w = "\<lparr>w_cf = cf, w_sv = sv1, w_queue = [], w_probes = [?old]\<rparr>"] by simp
  also have "hbbs_step su \<dots> \<lparr>w_cf = ?cf, w_sv = sv2, w_queue = [], w_probes = [?old]\<rparr>"
    using hbbs_queue [of "\<lparr>w_cf = cf, w_sv = sv1, w_queue = [RelayServers0 listed], w_probes = [?old]\<rparr>"
        "RelayServers0 listed" "[]" su] assms(5)
    by (simp add: io_round_def io_queue_def parse_relay_servers_def sv2_def)
  also have "hbbs_step su \<dots> \<lparr>w_cf = ?cf, w_sv = sv2, w_queue = [RelayServers ?old], w_probes = []\<rparr>"
  proof -
    have "?old \<noteq> []" using len by auto
    then have "check_relay_servers ?port (\<lambda>_. True) [0..<length ?old] ?old = Some (RelayServers ?old)"
      using check_relay_order [of "[0..<length ?old]" ?old ?port "\<lambda>_. True"] by (simp add: Let_def atLeast_upt)
    from hbbs_probed [of "\<lparr>w_cf = ?cf, w_sv = sv2, w_queue = [], w_probes = [?old]\<rparr>" "[]" ?old "[]", OF _ _ _ this]
    show ?thesis by (simp add: atLeast_upt)
  qed
  also have "hbbs_step su \<dots> \<lparr>w_cf = ?cf, w_sv = sv3, w_queue = [], w_probes = []\<rparr>"
    using hbbs_queue [of "\<lparr>w_cf = ?cf, w_sv = sv2, w_queue = [RelayServers ?old], w_probes = []\<rparr>" "RelayServers ?old" "[]" su]
    by (simp add: io_round_def io_queue_def sv3_def)
  finally have run: "(hbbs_step su)\<^sup>*\<^sup>* w \<lparr>w_cf = ?cf, w_sv = sv3, w_queue = [], w_probes = []\<rparr>" .
  have live: "s_live (sv_relays sv3) = ?old" by (simp add: sv3_def set_live_def)
  have "io_round su i (TimerTick fs) ?cf sv3 =
      (([], [], None), ?cf, sv3\<lparr>sv_relays := reload (su_sel su) fs (sv_relays sv3)\<rparr>)" for i fs
    by (simp add: io_round_def io_timer_def)
  with run live w show ?thesis
    by (intro exI [of _ "\<lparr>w_cf = ?cf, w_sv = sv3, w_queue = [], w_probes = []\<rparr>"]) auto
qed

theorem relay_change_can_be_lost_witness:
  "\<exists>w'. (hbbs_step example_su)\<^sup>*\<^sup>* \<lparr>w_cf = example_cf, w_sv = example_sv, w_queue = [], w_probes = []\<rparr> w' \<and>
     cf_relay_servers0 (w_cf w') = [''c:1''] \<and> s_live (sv_relays (w_sv w')) = [''a:1'', ''b:1'']"
proof -
  have "split_char (CHR '' '') (trim ''rs c:1'') = [''rs'', ''c:1'']" by (simp add: text_eval)
  moreover have "parse_relay_list (se_relay_port (su_sel example_su)) ''c:1'' = ([''c:1''], [])"
    by (simp add: example_su_def example_sel_env_def parse_relay_list_def relay_entry_problem_def normalize_def text_eval)
  ultimately show ?thesis
    using relay_change_can_be_lost [of "\<lparr>w_cf = example_cf, w_sv = example_sv, w_queue = [], w_probes = []\<rparr>"
        "''rs c:1''" "''c:1''" example_su "''c:1''" "[]"]
    by (auto simp: example_cf_def)
qed

section \<open>The self test and the sockets\<close>

fun last_heard :: "test_event list \<Rightarrow> instant \<Rightarrow> instant" where
  "last_heard [] heard = heard"
| "last_heard (TestTick _ _ # evs) heard = last_heard evs heard"
| "last_heard (TestAnswer now parsed # evs) heard = last_heard evs (if parsed then now else heard)"

lemma tick_in_cons:
  "(\<exists>pre now sent post. e # evs = pre @ TestTick now sent # post \<and> Q pre now sent) \<longleftrightarrow>
   (\<exists>now sent. e = TestTick now sent \<and> Q [] now sent) \<or>
   (\<exists>pre now sent post. evs = pre @ TestTick now sent # post \<and> Q (e # pre) now sent)"
  unfolding Cons_eq_append_conv by blast

lemma test_hbbs_runs:
  "test_hbbs evs heard =
   (if \<exists>pre now sent post. evs = pre @ TestTick now sent # post \<and> (12 < elapsed_secs now (last_heard pre heard) \<or> \<not> sent)
    then Inl () else Inr (last_heard evs heard))"
proof (induction evs heard rule: test_hbbs.induct)
  case (2 now sent evs heard)
  show ?case
    unfolding tick_in_cons [where Q = "\<lambda>pre now sent. 12 < elapsed_secs now (last_heard pre heard) \<or> \<not> sent"]
    using 2 by (cases "12 < elapsed_secs now heard \<or> \<not> sent") auto
next
  case (3 now parsed evs heard)
  show ?case
    unfolding tick_in_cons [where Q = "\<lambda>pre now sent. 12 < elapsed_secs now (last_heard pre heard) \<or> \<not> sent"]
    using 3 by simp
qed simp

text \<open>
  The self test: the server answers its own test message at once, to where it came from, and
  takes on no peer for it; the test goes on as long as its messages can be sent and no tick comes
  more than twelve full seconds after the last answer, and it fails, which ends the process, at the
  first tick where that is not so.
\<close>

theorem self_test_answered:
  assumes "su_parse su data = Some test_message"
  shows "(\<exists>b rest. fst (handle_udp su i data addr cf sv) = ToUdp (RegisterPeerResponse b) addr # rest) \<and>
    dom (hget (pm_map (sv_pm (snd (snd (handle_udp su i data addr cf sv)))))) = dom (hget (pm_map (sv_pm sv))) \<and>
    pm_db (sv_pm (snd (snd (handle_udp su i data addr cf sv)))) = pm_db (sv_pm sv) \<and>
    (test_hbbs evs heard = Inl () \<longleftrightarrow>
      (\<exists>pre now sent post. evs = pre @ TestTick now sent # post \<and>
         (12 < elapsed_secs now (last_heard pre heard) \<or> \<not> sent)))"
proof -
  have valid: "valid_peer_id ''(:test_hbbs:)''" by (simp add: valid_peer_id_def MAX_PEER_ID_LEN_def)
  have "dom (hget (pm_map (sv_pm (snd (update_addr su i pid addr sv))))) = dom (hget (pm_map (sv_pm sv))) \<and>
      pm_db (sv_pm (snd (update_addr su i pid addr sv))) = pm_db (sv_pm sv)" for pid
    by (auto simp: update_addr_def get_in_memory_def pm_write_def Let_def split: option.split if_splits)
  with assms valid show ?thesis
    by (simp add: handle_udp_def test_message_def case_prod_beta test_hbbs_runs)
qed

theorem self_test_answered_witness:
  "\<exists>b rest. fst (handle_udp (example_su\<lparr>su_parse := (\<lambda>_. Some test_message)\<rparr>) example_in [] addr_a example_cf example_sv) =
     ToUdp (RegisterPeerResponse b) addr_a # rest"
  using self_test_answered [of "example_su\<lparr>su_parse := (\<lambda>_. Some test_message)\<rparr>" "[]" example_in addr_a example_cf
      example_sv "[]" 0] by simp

text \<open>
  The socket that failed is opened again in the same place and no other is touched: when everything
  can be opened as at the start, recovery leads back to the same sockets.
\<close>

theorem reopen_restores:
  assumes "open_sockets opn bind_addr port = Some so"
  shows "reopen opn bind_addr port f so = Some so"
  using assms by (cases f) (auto simp: open_sockets_def reopen_def bind_eq_Some_conv)

end
