(* ===== verification/Hbbs_Registry.thy ===== *)
theory Hbbs_Registry
  imports Registration_Race Rendezvous_Main
begin

text \<open>
  The whole rendezvous server against the registry of \<^verbatim>\<open>Registry\<close>: whatever comes in over UDP, TCP,
  websockets and the console, in whatever order, the only thing that ever happens to the registry
  is an allowed claim, as long as the table can be reached and each handler runs to its end
  before the next. When the table cannot be reached, the server takes an id it has not loaded yet
  for a new one; registrations that overlap are the subject of \<^verbatim>\<open>Registration_Race\<close>.
\<close>

section \<open>The specification\<close>

inductive registry_step :: "(string \<Rightarrow> binding option) \<Rightarrow> (string \<Rightarrow> binding option) \<Rightarrow> bool" where
  registry_claim: "claim_allowed r pid b \<Longrightarrow> fst b \<noteq> [] \<Longrightarrow> registry_step r (r(pid \<mapsto> b))"

inductive_cases registry_stepE [elim!]: "registry_step r r'"

definition owned_by :: "string \<Rightarrow> bytes \<Rightarrow> (string \<Rightarrow> binding option) \<Rightarrow> bool" where
  "owned_by pid u r \<longleftrightarrow> map_option fst (r pid) = Some u"

lemma registry_step_owner: "registry_step r r' \<Longrightarrow> owned_by pid u r \<Longrightarrow> owned_by pid u r'"
  by (auto simp: owned_by_def claim_allowed_def split: option.splits)

text \<open>A step, or nothing.\<close>

abbreviation registry_stutters :: "(string \<Rightarrow> binding option) \<Rightarrow> (string \<Rightarrow> binding option) \<Rightarrow> bool" where
  "registry_stutters r r' \<equiv> r' = r \<or> registry_step r r'"

definition registry_of :: "'n surroundings \<Rightarrow> 'n server \<Rightarrow> string \<Rightarrow> binding option" where
  "registry_of su sv = registry (su_serde su) (sv_pm sv)"

section \<open>What leaves the registry alone\<close>

lemma registry_of_pm: "sv_pm sv' = sv_pm sv \<Longrightarrow> registry_of su sv' = registry_of su sv"
  by (simp add: registry_of_def)

lemma pm_get_registry:
  assumes "pm_wf pm"
  shows "registry sd (snd (pm_get sd now True pid pm)) = registry sd pm"
proof (cases "hget (pm_map pm) pid")
  case None
  show ?thesis
  proof (cases "List.find (\<lambda>r. row_id r = pid) (pm_db pm)")
    case (Some r)
    then have "row_uuid r \<noteq> []" using find_SomeD [OF Some] pm_wf_parts [OF assms] by force
    with None Some show ?thesis
      by (auto simp: pm_get_def db_get_peer_def registry_def binding_of_def peer_of_row_def Let_def fun_eq_iff
          split: option.split)
  qed (simp add: None pm_get_def db_get_peer_def)
qed (simp add: pm_get_def)

lemma get_pk_registry:
  assumes "pm_wf (sv_pm sv)" "in_db_up i"
  shows "registry_of su (snd (get_pk su i cf v pid sv)) = registry_of su sv"
  using pm_get_registry [OF assms(1), of "su_serde su" "in_now i" pid] assms(2)
  by (auto simp: get_pk_def registry_of_def split: option.split prod.split)

lemma push_ws_pm [simp]: "sv_pm (snd (push_ws su a sv)) = sv_pm sv"
  by (simp add: push_ws_def case_prod_beta)

lemma push_ws_same_pm: "push_ws su a sv = (c, sv') \<Longrightarrow> sv_pm sv' = sv_pm sv"
  using push_ws_pm [of su a sv] by simp

lemma send_to_tcp_pm [simp]: "sv_pm (snd (send_to_tcp su m a sv)) = sv_pm sv"
  using push_ws_pm [of su a sv] by (cases "push_ws su a sv") (auto simp: send_to_tcp_def Let_def split: option.split)

lemma get_relay_server_pm [simp]: "sv_pm (snd (get_relay_server su i a b sv)) = sv_pm sv"
  by (simp add: get_relay_server_def case_prod_beta)

lemma routes_pm [simp]:
  "sv_pm (snd (keep_route su addr wc s sv)) = sv_pm sv" "sv_pm (register_conn su addr wc sv) = sv_pm sv"
  by (simp_all add: keep_route_def register_conn_def split: option.split)

lemma update_addr_registry: "registry_of su (snd (update_addr su i pid addr sv)) = registry_of su sv"
  using registry_touch [of "sv_pm sv" pid]
  by (auto simp: update_addr_def registry_of_def get_in_memory_def Let_def split: option.split)

lemma handle_punch_registry:
  assumes "pm_wf (sv_pm sv)" "in_db_up i"
  shows "registry_of su (snd (handle_punch_hole_request su i cf addr ph key ws sv)) = registry_of su sv"
  using pm_get_registry [OF assms(1), of "su_serde su" "in_now i" "ph_id ph"] assms(2)
  by (auto simp: handle_punch_hole_request_def registry_of_def Let_def case_prod_beta split: option.split prod.split)

lemma handle_tcp_punch_registry:
  assumes "pm_wf (sv_pm sv)" "in_db_up i"
  shows "registry_of su (snd (handle_tcp_punch_hole_request su i cf addr ph key ws sv)) = registry_of su sv"
proof -
  obtain m to sv1 where h: "handle_punch_hole_request su i cf addr ph key ws sv = ((m, to), sv1)"
    by (metis prod.collapse)
  have "registry_of su sv1 = registry_of su sv" using handle_punch_registry [OF assms, of su cf addr ph key ws] h by simp
  moreover have "sv_pm (snd (handle_tcp_punch_hole_request su i cf addr ph key ws sv)) = sv_pm sv1"
    by (auto simp: handle_tcp_punch_hole_request_def h dest!: push_ws_same_pm split: option.split prod.split)
  ultimately show ?thesis by (simp add: registry_of_def)
qed

lemma answers_registry:
  assumes "pm_wf (sv_pm sv)" "in_db_up i"
  shows "registry_of su (snd (handle_hole_sent su i cf phs addr sv)) = registry_of su sv"
    and "registry_of su (snd (handle_local_addr su i cf la sv)) = registry_of su sv"
    and "registry_of su (snd (handle_relay_response su i cf rr addr sv)) = registry_of su sv"
proof -
  note pk = get_pk_registry [OF assms, of su cf]
  show "registry_of su (snd (handle_hole_sent su i cf phs addr sv)) = registry_of su sv"
    "registry_of su (snd (handle_local_addr su i cf la sv)) = registry_of su sv"
    using pk by (simp_all add: handle_hole_sent_def handle_local_addr_def registry_of_def Let_def case_prod_beta)
  have "registry_of su (snd (fill_pk su i cf r sv)) = registry_of su sv" for r
    using pk by (simp add: fill_pk_def Let_def case_prod_beta split: rr_union.split)
  moreover have "sv_pm (snd (fill_relay su i cf addr b r s)) = sv_pm s" for b r s
    by (simp add: fill_relay_def Let_def case_prod_beta)
  ultimately show "registry_of su (snd (handle_relay_response su i cf rr addr sv)) = registry_of su sv"
    by (simp add: handle_relay_response_def registry_of_def Let_def case_prod_beta)
qed

section \<open>Every step is a claim or nothing\<close>

lemma register_pk_registry:
  assumes "pm_wf (sv_pm sv)" "in_db_up i"
  shows "registry_stutters (registry_of su sv) (registry_of su (snd (handle_register_pk su i pid u k addr ws sv)))"
proof -
  obtain res sv' where h: "handle_register_pk su i pid u k addr ws sv = (res, sv')" by fastforce
  show ?thesis
  proof (cases "res = Some OK")
    case True
    then have "u \<noteq> []" using h by (auto simp: handle_register_pk_def)
    with register_pk_refines [OF h assms] True h show ?thesis
      by (auto simp: registry_of_def intro: registry_claim)
  qed (use register_pk_refines [OF h assms] h in \<open>simp add: registry_of_def\<close>)
qed

lemma handle_udp_registry:
  assumes "pm_wf (sv_pm sv)" "in_db_up i"
  shows "registry_stutters (registry_of su sv) (registry_of su (snd (snd (handle_udp su i data addr cf sv))))"
proof (cases "su_parse su data")
  case (Some m)
  then show ?thesis
  proof (cases m)
    case (RegisterPk pid u k)
    obtain r sv1 where h: "handle_register_pk su i pid u k addr False sv = (r, sv1)" by fastforce
    with register_pk_registry [OF assms, of su pid u k addr False] Some RegisterPk show ?thesis
      by (auto simp: handle_udp_def split: option.split)
  qed (simp_all add: handle_udp_def Let_def case_prod_beta update_addr_registry)
qed (simp add: handle_udp_def)

lemma handle_tcp_registry:
  assumes "pm_wf (sv_pm sv)" "in_db_up i"
  shows "registry_stutters (registry_of su sv)
    (registry_of su (snd (snd (snd (handle_tcp su i cf data s addr key ws wc sv)))))"
proof (cases "su_parse su data")
  case (Some m)
  then show ?thesis
  proof (cases m)
    case (RequestRelay rf)
    obtain s1 sv1 where k: "keep_route su addr wc s sv = (s1, sv1)" by fastforce
    have "sv_pm sv1 = sv_pm sv" using routes_pm(1) [of su addr wc s sv] k by simp
    with Some RequestRelay k show ?thesis
      by (auto simp: handle_tcp_def registry_of_def Let_def dest!: push_ws_same_pm split: option.split prod.split)
  next
    case (RegisterPk pid u k)
    obtain r sv1 where h: "handle_register_pk su i pid u k addr ws sv = (r, sv1)" by fastforce
    with register_pk_registry [OF assms, of su pid u k addr ws] Some RegisterPk show ?thesis
      by (auto simp: handle_tcp_def registry_of_def split: option.split)
  next
    case (RegisterPeer pid serial)
    have "registry_of su (register_conn su addr wc (snd (update_addr su i pid addr sv))) = registry_of su sv"
      using update_addr_registry [of su i pid addr sv] by (simp add: registry_of_def)
    with Some RegisterPeer show ?thesis by (simp add: handle_tcp_def Let_def case_prod_beta)
  next
    case (PunchHoleRequest ph)
    obtain s1 sv1 where k: "keep_route su addr wc s sv = (s1, sv1)" by fastforce
    have pm: "sv_pm sv1 = sv_pm sv" using routes_pm(1) [of su addr wc s sv] k by simp
    then have "registry_of su (snd (handle_tcp_punch_hole_request su i cf addr ph key ws sv1)) = registry_of su sv"
      using handle_tcp_punch_registry [of sv1 i su cf addr ph key ws] assms registry_of_pm [OF pm] by simp
    with Some PunchHoleRequest k show ?thesis by (simp add: handle_tcp_def case_prod_beta)
  qed (use answers_registry [OF assms] in \<open>simp_all add: handle_tcp_def Let_def case_prod_beta\<close>)
qed (simp add: handle_tcp_def)

lemma check_cmd_pm: "check_cmd su now cmd fs sv = (a, ds, fs', sv') \<Longrightarrow> sv_pm sv' = sv_pm sv"
  by (auto simp: check_cmd_def Let_def case_prod_beta split: prod.splits option.splits if_splits list.splits)

lemma io_round_registry:
  assumes "pm_wf (sv_pm sv)" "in_db_up i \<or> (\<exists>d. ev = Received d)"
    and "io_round su i ev cf sv = ((outs, sp, fail), cf', sv')"
  shows "registry_stutters (registry_of su sv) (registry_of su sv')"
proof (cases ev)
  case (Received d)
  with assms(3) have "sv_pm sv' = sv_pm sv"
    by (cases d) (auto simp: io_round_def io_queue_def parse_relay_servers_def Let_def case_prod_beta)
  then show ?thesis by (simp add: registry_of_def)
next
  case (Datagram data addr n)
  with assms handle_udp_registry [OF assms(1), of i su data addr cf] show ?thesis
    by (auto simp: io_round_def Let_def case_prod_beta)
qed (use assms(3) in \<open>auto simp: io_round_def io_timer_def registry_of_def\<close>)

text \<open>The inputs of a step while the table can be read and written.\<close>

abbreviation table_up :: "inputs \<Rightarrow> bool" where
  "table_up i \<equiv> in_guid i \<noteq> [] \<and> in_db_up i"

abbreviation world_registry :: "'n surroundings \<Rightarrow> 'n world \<Rightarrow> string \<Rightarrow> binding option" where
  "world_registry su w \<equiv> registry_of su (w_sv w)"

lemma hbbs_step_registry:
  "hbbs_step_with table_up su w w' \<Longrightarrow> world_wf su w \<Longrightarrow> registry_stutters (world_registry su w) (world_registry su w')"
proof (induction rule: hbbs_step_with.induct)
  case (hbbs_event i ev w outs sp fail cf' sv')
  then show ?case using io_round_registry [OF _ _ hbbs_event(3)] by (auto simp: world_wf_def server_wf_def Let_def)
next
  case (hbbs_queue w d q i outs sp fail cf' sv')
  then show ?case using io_round_registry [OF _ _ hbbs_queue(2)] by (auto simp: world_wf_def server_wf_def Let_def)
next
  case (hbbs_tcp i cf data s addr key w stay outs s' sv')
  then show ?case
    using handle_tcp_registry [of "w_sv w" i su cf data s addr key False None]
    by (auto simp: world_wf_def server_wf_def Let_def)
next
  case (hbbs_ws i c addr w cf data s key stay outs s' sv')
  then show ?case
    using handle_tcp_registry [of "w_sv w" i su cf data s addr key True "Some c"]
    by (auto simp: world_wf_def server_wf_def Let_def)
next
  case (hbbs_console now cmd fs w a ds fs' sv')
  then show ?case by (simp add: registry_of_def check_cmd_pm)
qed (simp_all add: registry_of_def plain_end_def)

interpretation hbbs_registry: simulation "hbbs_step_with table_up su"
    "\<lambda>w. \<exists>env fs db cf. pm_wf \<lparr>pm_map = [], pm_db = db\<rparr> \<and> w = hbbs_start su env fs db cf" "world_wf su"
    registry_step "world_registry su" for su
  by unfold_locales (auto intro: hbbs_start_wf hbbs_step_wf dest: hbbs_step_registry)

section \<open>Properties\<close>

lemma hbbs_start_registry: "world_registry su (hbbs_start su env fs db cf) = registry (su_serde su) \<lparr>pm_map = [], pm_db = db\<rparr>"
  by (simp add: hbbs_start_def start_server_def parse_relay_servers_def srv_init_def registry_of_def Let_def case_prod_beta)

text \<open>
  C2. The whole rendezvous server implements the registry while its table can be reached: from its
  start on a well formed table, through any sequence of datagrams, frames, websockets that come and
  go, console commands, timers and probes, each handled to its end before the next and each with the
  table within reach, the bindings it goes by change only by allowed claims. So through any such
  sequence a device keeps its id: an id that is bound, in the table or by a registration, stays
  bound to the same uuid.
\<close>

theorem hbbs_refines_registry:
  assumes "pm_wf \<lparr>pm_map = [], pm_db = db\<rparr>" "(hbbs_step_with table_up su)\<^sup>*\<^sup>* (hbbs_start su env fs db cf) w"
    and "(hbbs_step_with table_up su)\<^sup>*\<^sup>* w w'"
  shows "registry_step\<^sup>*\<^sup>* (registry (su_serde su) \<lparr>pm_map = [], pm_db = db\<rparr>) (registry (su_serde su) (sv_pm (w_sv w))) \<and>
    registry_step\<^sup>*\<^sup>* (registry (su_serde su) (sv_pm (w_sv w))) (registry (su_serde su) (sv_pm (w_sv w'))) \<and>
    (owned_by pid u (registry (su_serde su) (sv_pm (w_sv w))) \<longrightarrow> owned_by pid u (registry (su_serde su) (sv_pm (w_sv w'))))"
proof -
  have start: "world_wf su (hbbs_start su env fs db cf)" by (rule hbbs_start_wf [OF assms(1)])
  then have wf: "world_wf su w" by (rule hbbs_registry.steps_inv [OF assms(2)])
  have "registry_step\<^sup>*\<^sup>* (world_registry su (hbbs_start su env fs db cf)) (world_registry su w)"
    by (rule hbbs_registry.steps_spec [OF assms(2) start])
  moreover have "registry_step\<^sup>*\<^sup>* (world_registry su w) (world_registry su w')"
    by (rule hbbs_registry.steps_spec [OF assms(3) wf])
  moreover have "owned_by pid u (world_registry su w')" if "owned_by pid u (world_registry su w)"
    using hbbs_registry.steps_keep [where P = "owned_by pid u", OF assms(3) wf registry_step_owner that] .
  ultimately show ?thesis unfolding hbbs_start_registry by (simp add: registry_of_def)
qed

definition example_rows :: database where
  "example_rows = [\<lparr>row_guid = [9], row_id = ''123456'', row_uuid = [3], row_pk = [4], row_info = ''7.7.7.7''\<rparr>]"

definition example_begin :: "(ipaddr \<times> nat) world" where
  "example_begin = hbbs_start example_su [] example_fs example_rows example_cf"

lemma example_rows_wf: "pm_wf \<lparr>pm_map = [], pm_db = example_rows\<rparr>"
  by (simp add: pm_wf_def db_wf_def hwf_def example_rows_def)

lemma example_begin_pm: "sv_pm (w_sv example_begin) = \<lparr>pm_map = [], pm_db = example_rows\<rparr>"
  by (simp add: example_begin_def hbbs_start_def start_server_def parse_relay_servers_def srv_init_def Let_def case_prod_beta)

text \<open>A request for a stored device loads it; the device still owns its id.\<close>

theorem hbbs_refines_registry_witness:
  "owned_by ''123456'' [3] (registry example_serde (sv_pm (snd (snd (snd
     (handle_tcp example_su example_in example_cf [2] (Some (TcpSink 3)) addr_a [] False None (w_sv example_begin)))))))"
proof -
  obtain stay outs s' sv' where h: "handle_tcp example_su example_in example_cf [2] (Some (TcpSink 3)) addr_a [] False None
      (w_sv example_begin) = (stay, outs, s', sv')" by (metis prod.collapse)
  have "hbbs_step_with table_up example_su example_begin
      (example_begin\<lparr>w_sv := sv', w_queue := w_queue example_begin @ queue_of outs\<rparr>)"
    by (rule hbbs_tcp [OF _ h]) (simp add: example_in_def)
  then have later: "(hbbs_step_with table_up example_su)\<^sup>*\<^sup>* example_begin
      (example_begin\<lparr>w_sv := sv', w_queue := w_queue example_begin @ queue_of outs\<rparr>)" by blast
  have start: "(hbbs_step_with table_up example_su)\<^sup>*\<^sup>* (hbbs_start example_su [] example_fs example_rows example_cf) example_begin"
    by (simp add: example_begin_def)
  note run = hbbs_refines_registry [OF example_rows_wf start later, of "''123456''" "[3]"]
  have "owned_by ''123456'' [3] (registry (su_serde example_su) (sv_pm (w_sv example_begin)))"
    by (simp add: example_begin_pm owned_by_def registry_def example_rows_def binding_of_def peer_of_row_def)
  with run show ?thesis by (simp add: h, simp add: example_su_def)
qed

section \<open>A table that cannot be read\<close>

lemma down_known:
  assumes "hget (pm_map (sv_pm sv)) pid = None" "\<not> in_db_up i"
  shows "known_peer su i pid sv = peer_default (in_now i)"
  using assms by (simp add: known_peer_def pm_get_or_def pm_get_def db_get_peer_def)

lemma down_register:
  assumes "hget (pm_map (sv_pm sv)) pid = None" "\<not> in_db_up i" "u \<noteq> []" "k \<noteq> []" "6 \<le> length pid" "length pid \<le> 253"
    and "fst (check_ip_blocker (in_now i) (show_ip (sa_ip addr)) pid (sv_blocker sv))"
  shows "fst (handle_register_pk su i pid u k addr ws sv) = Some OK"
proof -
  note known = down_known [OF assms(1,2), of su]
  have "fst (reg_pk_tick (in_now i) (peer_default (in_now i)))"
    by (simp add: reg_pk_tick_def window_tick_def peer_default_def)
  then show ?thesis
    unfolding register_pk_unfold known using assms(3-7)
    by (auto simp: compare_registration_def peer_default_def MAX_PEER_ID_LEN_def Let_def case_prod_beta)
qed

text \<open>
  C35. A table that cannot be read lets an id be taken over: a failed look-up counts as an unknown
  id, so that while the table is out of reach another device can register an id that is stored
  but not in memory. It is told that it was accepted, requests for the id go to it from then
  on, and even when the table is back the device in the table is refused.
\<close>

theorem lookup_failure_hijack:
  assumes "hget (pm_map (sv_pm sv)) pid = None" "\<not> in_db_up i" "u \<noteq> []" "k \<noteq> []" "6 \<le> length pid" "length pid \<le> 253"
    and "fst (check_ip_blocker (in_now i) (show_ip (sa_ip addr)) pid (sv_blocker sv))"
    and "r \<in> set (pm_db (sv_pm sv))" "row_id r = pid" "row_uuid r \<noteq> u"
    and "handle_register_pk su i pid u k addr ws sv = (res, sv')"
  shows "res = Some OK \<and> pm_db (sv_pm sv') = pm_db (sv_pm sv) \<and>
    (\<exists>p. fst (pm_get (su_serde su) later up pid (sv_pm sv')) = Some p \<and> uuid p = u \<and> pk p = k \<and> socket_addr p = addr) \<and>
    fst (handle_register_pk su j pid (row_uuid r) k' a' ws' sv') \<noteq> Some OK"
proof -
  have ok: "res = Some OK" using down_register [OF assms(1-7), of su ws] assms(11) by simp
  note known = down_known [OF assms(1,2), of su]
  obtain changed ipc p' where c: "compare_registration (known_peer su i pid sv) u k (show_ip (sa_ip addr)) = Some (changed, ipc)"
    and pm: "sv_pm sv' = (if changed \<or> ws
        then snd (pm_update_pk (su_serde su) (in_now i) (in_db_up i) (in_guid i) pid p' addr u k (show_ip (sa_ip addr))
               (pm_write pid p' (loaded_map su i pid sv)))
        else pm_write pid p' (loaded_map su i pid sv))"
    using register_pk_ok [OF assms(11) [unfolded ok]] by blast
  have "changed" using c by (simp add: known compare_registration_def peer_default_def)
  then have pm': "sv_pm sv' = snd (pm_update_pk (su_serde su) (in_now i) False (in_guid i) pid p' addr u k (show_ip (sa_ip addr))
      (pm_write pid p' (loaded_map su i pid sv)))" using pm assms(2) by simp
  obtain p where p: "hget (pm_map (sv_pm sv')) pid = Some p" "uuid p = u" "pk p = k" "socket_addr p = addr"
    using pm_update_pk_memory(1) [OF surjective_pairing] pm' by metis
  have "known_peer su j pid sv' = p" using known_in_memory [OF p(1)] .
  then have "compare_registration (known_peer su j pid sv') (row_uuid r) k' (show_ip (sa_ip a')) = None"
    using assms(3,10) p(2) by (simp add: compare_registration_def)
  then have "fst (handle_register_pk su j pid (row_uuid r) k' a' ws' sv') \<noteq> Some OK"
    using register_pk_ok [of su j pid "row_uuid r" k' a' ws' sv'] by (metis option.distinct(1) prod.collapse)
  moreover have "pm_db (sv_pm sv') = pm_db (sv_pm sv)"
    by (simp add: pm' pm_update_pk_def db_insert_peer_def db_update_pk_def pm_write_def Let_def)
  ultimately show ?thesis using ok p by (auto simp: pm_get_def)
qed

theorem lookup_failure_hijack_witness:
  "fst (handle_register_pk example_su (example_in\<lparr>in_db_up := False\<rparr>) ''123456'' [1] [2] addr_a False (w_sv example_begin)) = Some OK"
proof -
  let ?i = "example_in\<lparr>in_db_up := False\<rparr>" and ?sv = "w_sv example_begin"
  let ?r = "\<lparr>row_guid = [9], row_id = ''123456'', row_uuid = [3], row_pk = [4], row_info = ''7.7.7.7''\<rparr>"
  have blk: "sv_blocker ?sv = []"
    by (simp add: example_begin_def hbbs_start_def start_server_def parse_relay_servers_def srv_init_def Let_def case_prod_beta)
  obtain res sv' where h: "handle_register_pk example_su ?i ''123456'' [1] [2] addr_a False ?sv = (res, sv')" by fastforce
  have "res = Some OK"
    using lookup_failure_hijack [OF _ _ _ _ _ _ _ _ _ _ h, of ?r 0 True example_in "[4]" addr_b False]
    by (simp add: example_begin_pm example_rows_def blk check_ip_blocker_def)
  with h show ?thesis by simp
qed

end
