(* ===== verification/Relay_Server.thy ===== *)
theory Relay_Server
  imports Config Rust_F64 Rust_Fs Ws_Registry Key_Files
begin

text \<open>
  The relay server, \<^verbatim>\<open>src/src/relay_server.rs\<close>: its lists of addresses, its bandwidth settings and
  console, how two connections with the same identifier are paired, and the loop that passes
  their traffic on and accounts for it. The limiters (\<^verbatim>\<open>async_speed_limit\<close>) appear as what is
  consumed from them; the wire format, \<^verbatim>\<open>base64\<close> and the web socket library are parameters.
  Counters of bits and milliseconds are natural numbers, the settings are reduced to 64 bits
  where they are multiplied.
\<close>

section \<open>State\<close>

type_synonym usage = "nat \<times> nat \<times> nat \<times> nat"

record rstream =
  st_id :: nat
  st_ws :: bool
  st_raw :: bool

record relay_state =
  rl_peers :: "(string, rstream) hmap"
  rl_usage :: "(string, usage) hmap"
  rl_blacklist :: "string set"
  rl_blocklist :: "string set"
  rl_downgrade_threshold_100 :: nat
  rl_downgrade_start_check :: nat
  rl_limit_speed :: nat
  rl_total_bandwidth :: nat
  rl_single_bandwidth :: nat
  rl_total_limit :: nat

definition relay_start :: relay_state where
  "relay_start =
     \<lparr>rl_peers = [], rl_usage = [], rl_blacklist = {}, rl_blocklist = {},
      rl_downgrade_threshold_100 = 66, rl_downgrade_start_check = 1800000,
      rl_limit_speed = 32 * 1024 * 1024, rl_total_bandwidth = 1024 * 1024 * 1024,
      rl_single_bandwidth = 128 * 1024 * 1024, rl_total_limit = 0\<rparr>"

section \<open>Starting\<close>

definition BLACKLIST_FILE :: string where
  "BLACKLIST_FILE = ''blacklist.txt''"

definition BLOCKLIST_FILE :: string where
  "BLOCKLIST_FILE = ''blocklist.txt''"

text \<open>The first word of every line of a list of addresses.\<close>

definition read_ips :: "string \<Rightarrow> string set" where
  "read_ips contents = set (map (\<lambda>x. hd (split_char (CHR '' '') (trim x))) (split_char newline contents))"

definition load_lists :: "fsys \<Rightarrow> relay_state \<Rightarrow> relay_state" where
  "load_lists fs st =
     (let st1 = (case read_to_string fs BLACKLIST_FILE of
                   Some c \<Rightarrow> st\<lparr>rl_blacklist := rl_blacklist st \<union> read_ips c\<rparr> | None \<Rightarrow> st)
      in (case read_to_string fs BLOCKLIST_FILE of
            Some c \<Rightarrow> st1\<lparr>rl_blocklist := rl_blocklist st1 \<union> read_ips c\<rparr> | None \<Rightarrow> st1))"

definition relay_get_server_sk ::
  "key_ops \<Rightarrow> (key_error + string \<times> bytes) \<Rightarrow> string \<Rightarrow> key_error + string" where
  "relay_get_server_sk ko gen key =
     (let key1 = (case ko_decode ko key of
                    Some sk \<Rightarrow> if length sk = 64 then ko_encode ko (drop 32 sk) else key
                  | None \<Rightarrow> key)
      in if key1 = ''-'' \<or> key1 = ''_'' then map_sum id fst gen else Inr key1)"

datatype relay_start_error = KeyError key_error | PortError

text \<open>\<^verbatim>\<open>start_with_bind\<close>: the key in force, the two ports and the state when the loop starts. The
  result of the generation of a key pair is an argument.\<close>

definition relay_start_with_bind ::
  "key_ops \<Rightarrow> (key_error + string \<times> bytes) \<Rightarrow> fsys \<Rightarrow> string \<Rightarrow> string \<Rightarrow> relay_start_error + string \<times> 16 word \<times> 16 word \<times> relay_state" where
  "relay_start_with_bind ko gen fs port key =
     (case relay_get_server_sk ko gen key of
        Inl e \<Rightarrow> Inl (KeyError e)
      | Inr k \<Rightarrow>
          (case parse_u16 port of
             None \<Rightarrow> Inl PortError
           | Some p \<Rightarrow> Inr (k, of_nat p, of_nat p + 2, load_lists fs relay_start)))"

section \<open>Settings\<close>

definition positive :: "f64 \<Rightarrow> bool" where
  "positive v = f64_lt (Fin 0) v"

definition to_percent :: "f64 \<Rightarrow> nat" where
  "to_percent v = f64_as_usize (f64_mul v (Fin 100))"

definition to_bits :: "f64 \<Rightarrow> nat" where
  "to_bits v = f64_as_usize (f64_mul (f64_mul v (Fin 1024)) (Fin 1024))"

definition to_millis :: "nat \<Rightarrow> nat" where
  "to_millis v = v * 1000 mod 2 ^ 64"

definition arg_f64 :: "environ \<Rightarrow> string \<Rightarrow> f64" where
  "arg_f64 env name = (case parse_f64 (get_arg env name) of Some v \<Rightarrow> v | None \<Rightarrow> Fin 0)"

definition check_params :: "environ \<Rightarrow> relay_state \<Rightarrow> relay_state" where
  "check_params env st =
     (let dt = arg_f64 env ''DOWNGRADE_THRESHOLD'';
          sc = (case parse_u64 (get_arg env ''DOWNGRADE_START_CHECK'') of Some v \<Rightarrow> v | None \<Rightarrow> 0);
          ls = arg_f64 env ''LIMIT_SPEED'';
          tb = arg_f64 env ''TOTAL_BANDWIDTH'';
          sb = arg_f64 env ''SINGLE_BANDWIDTH'';
          st1 = (if positive dt then st\<lparr>rl_downgrade_threshold_100 := to_percent dt\<rparr> else st);
          st2 = (if 0 < sc then st1\<lparr>rl_downgrade_start_check := to_millis sc\<rparr> else st1);
          st3 = (if positive ls then st2\<lparr>rl_limit_speed := to_bits ls\<rparr> else st2);
          st4 = (if positive tb then st3\<lparr>rl_total_bandwidth := to_bits tb\<rparr> else st3)
      in if positive sb then st4\<lparr>rl_single_bandwidth := to_bits sb\<rparr> else st4)"

text \<open>The start of \<^verbatim>\<open>io_loop\<close>: the settings, and the limiter all sessions share.\<close>

definition io_loop_start :: "environ \<Rightarrow> relay_state \<Rightarrow> relay_state" where
  "io_loop_start env st = (let st1 = check_params env st in st1\<lparr>rl_total_limit := rl_total_bandwidth st1\<rparr>)"

section \<open>Console\<close>

datatype relay_answer =
    NoAnswer
  | Help
  | Contains bool
  | Members "string set"
  | Percent nat
  | Seconds nat
  | Megabits nat
  | UsageLines "(string \<times> nat \<times> nat \<times> nat \<times> nat \<times> nat) list"

definition ips_of :: "string \<Rightarrow> string set" where
  "ips_of arg = set (split_char (CHR ''|'') arg)"

text \<open>One of the two lists: add, remove and show.\<close>

definition list_add :: "string option \<Rightarrow> string set \<Rightarrow> string set" where
  "list_add arg s = (case arg of Some ips \<Rightarrow> s \<union> ips_of ips | None \<Rightarrow> s)"

definition list_remove :: "string option \<Rightarrow> string set \<Rightarrow> string set" where
  "list_remove arg s =
     (case arg of Some ips \<Rightarrow> if ips = ''all'' then {} else s - ips_of ips | None \<Rightarrow> s)"

definition list_show :: "string option \<Rightarrow> string set \<Rightarrow> relay_answer" where
  "list_show arg s = (case arg of Some ip \<Rightarrow> Contains (ip \<in> s) | None \<Rightarrow> Members s)"

definition positive_arg :: "string \<Rightarrow> f64 option" where
  "positive_arg v = (case parse_f64 v of Some x \<Rightarrow> if positive x then Some x else None | None \<Rightarrow> None)"

text \<open>The sessions by decreasing traffic: time in seconds, total, highest, average and current
  speed. Those without a full second are left out, so that nothing is divided by zero.\<close>

definition usage_lines :: "(string, usage) hmap \<Rightarrow> (string \<times> nat \<times> nat \<times> nat \<times> nat \<times> nat) list" where
  "usage_lines us =
     map (\<lambda>(ip, elapsed, tot, highest, speed). (ip, elapsed div 1000, tot, highest, tot div elapsed, speed))
       (filter (\<lambda>(ip, elapsed, _). elapsed \<noteq> 0)
          (sort_key (\<lambda>(ip, elapsed, tot, _). - int tot) us))"

definition relay_check_cmd :: "string \<Rightarrow> relay_state \<Rightarrow> relay_answer \<times> relay_state" where
  "relay_check_cmd cmd st =
     (let fds = split_char (CHR '' '') (trim cmd);
          name = hd fds;
          arg = (case tl fds of [] \<Rightarrow> None | a # _ \<Rightarrow> Some a)
      in if name = ''h'' then (Help, st)
         else if name \<in> {''blacklist-add'', ''ba''} then (NoAnswer, st\<lparr>rl_blacklist := list_add arg (rl_blacklist st)\<rparr>)
         else if name \<in> {''blacklist-remove'', ''br''} then (NoAnswer, st\<lparr>rl_blacklist := list_remove arg (rl_blacklist st)\<rparr>)
         else if name \<in> {''blacklist'', ''b''} then (list_show arg (rl_blacklist st), st)
         else if name \<in> {''blocklist-add'', ''Ba''} then (NoAnswer, st\<lparr>rl_blocklist := list_add arg (rl_blocklist st)\<rparr>)
         else if name \<in> {''blocklist-remove'', ''Br''} then (NoAnswer, st\<lparr>rl_blocklist := list_remove arg (rl_blocklist st)\<rparr>)
         else if name \<in> {''blocklist'', ''B''} then (list_show arg (rl_blocklist st), st)
         else if name \<in> {''downgrade-threshold'', ''dt''} then
           (case arg of
              Some v \<Rightarrow> (NoAnswer, case positive_arg v of
                           Some x \<Rightarrow> st\<lparr>rl_downgrade_threshold_100 := to_percent x\<rparr> | None \<Rightarrow> st)
            | None \<Rightarrow> (Percent (rl_downgrade_threshold_100 st), st))
         else if name \<in> {''downgrade-start-check'', ''t''} then
           (case arg of
              Some v \<Rightarrow> (NoAnswer, case parse_u64 v of
                           Some x \<Rightarrow> if 0 < x then st\<lparr>rl_downgrade_start_check := to_millis x\<rparr> else st | None \<Rightarrow> st)
            | None \<Rightarrow> (Seconds (rl_downgrade_start_check st div 1000), st))
         else if name \<in> {''limit-speed'', ''ls''} then
           (case arg of
              Some v \<Rightarrow> (NoAnswer, case positive_arg v of
                           Some x \<Rightarrow> st\<lparr>rl_limit_speed := to_bits x\<rparr> | None \<Rightarrow> st)
            | None \<Rightarrow> (Megabits (rl_limit_speed st), st))
         else if name \<in> {''total-bandwidth'', ''tb''} then
           (case arg of
              Some v \<Rightarrow> (NoAnswer, case positive_arg v of
                           Some x \<Rightarrow> st\<lparr>rl_total_bandwidth := to_bits x, rl_total_limit := to_bits x\<rparr> | None \<Rightarrow> st)
            | None \<Rightarrow> (Megabits (rl_total_bandwidth st), st))
         else if name \<in> {''single-bandwidth'', ''sb''} then
           (case arg of
              Some v \<Rightarrow> (NoAnswer, case positive_arg v of
                           Some x \<Rightarrow> st\<lparr>rl_single_bandwidth := to_bits x\<rparr> | None \<Rightarrow> st)
            | None \<Rightarrow> (Megabits (rl_single_bandwidth st), st))
         else if name \<in> {''usage'', ''u''} then (UsageLines (usage_lines (rl_usage st)), st)
         else (NoAnswer, st))"

section \<open>Connections\<close>

datatype accepted = Console | Dropped | ToPair

text \<open>\<^verbatim>\<open>handle_connection\<close>: what becomes of a new connection.\<close>

definition handle_connection :: "(sockaddr \<Rightarrow> sockaddr) \<Rightarrow> sockaddr \<Rightarrow> bool \<Rightarrow> relay_state \<Rightarrow> accepted" where
  "handle_connection into_v4 addr ws st =
     (let ip = sa_ip (into_v4 addr)
      in if \<not> ws \<and> is_loopback ip then Console
         else if show_ip ip \<in> rl_blocklist st then Dropped
         else ToPair)"

text \<open>\<^verbatim>\<open>make_pair\<close>: the address a session is known under; a websocket handshake may fail.\<close>

definition make_pair_addr :: "string option \<Rightarrow> sockaddr \<Rightarrow> bool \<Rightarrow> sockaddr" where
  "make_pair_addr header addr ws = (if ws then proxied_addr header addr else addr)"

record relay_request =
  rq_uuid :: string
  rq_licence_key :: string

datatype pairing = Refused | Paired string rstream rstream | Unpaired string

text \<open>\<^verbatim>\<open>make_pair_\<close> up to its lookup of a waiting connection, on the first frame of a stream
  (nothing when none came in time): the session's name and both ends, or that no one waits.\<close>

definition set_raw :: "rstream \<Rightarrow> rstream" where
  "set_raw s = (if st_ws s then s else s\<lparr>st_raw := True\<rparr>)"

definition make_pair_first ::
  "(bytes \<Rightarrow> relay_request option) \<Rightarrow> string \<Rightarrow> sockaddr \<Rightarrow> bytes option \<Rightarrow> rstream \<Rightarrow> relay_state \<Rightarrow> pairing \<times> relay_state" where
  "make_pair_first parse key addr frame s st =
     (case Option.bind frame parse of
        None \<Rightarrow> (Refused, st)
      | Some rf \<Rightarrow>
          if key \<noteq> [] \<and> rq_licence_key rf \<noteq> key then (Refused, st)
          else if rq_uuid rf = [] then (Refused, st)
          else
            (case hget (rl_peers st) (rq_uuid rf) of
               None \<Rightarrow> (Unpaired (rq_uuid rf), st)
             | Some p \<Rightarrow>
                 (let sid = show_ip (sa_ip addr) @ '':'' @ show_nat (unat (sa_port addr));
                      st1 = st\<lparr>rl_peers := hdel (rq_uuid rf) (rl_peers st), rl_usage := hput sid (0, 0, 0, 0) (rl_usage st)\<rparr>
                  in (if \<not> st_ws s \<and> \<not> st_ws p then Paired sid (set_raw s) (set_raw p) else Paired sid s p, st1))))"

text \<open>Waiting for the other end: the stream is put under its identifier, and taken out 30 seconds
  later, whatever is there then.\<close>

definition park :: "string \<Rightarrow> rstream \<Rightarrow> relay_state \<Rightarrow> relay_state" where
  "park uid s st = st\<lparr>rl_peers := hput uid s (rl_peers st)\<rparr>"

definition unpark :: "string \<Rightarrow> relay_state \<Rightarrow> relay_state" where
  "unpark uid st = st\<lparr>rl_peers := hdel uid (rl_peers st)\<rparr>"

definition end_session :: "string \<Rightarrow> relay_state \<Rightarrow> relay_state" where
  "end_session sid st = st\<lparr>rl_usage := hdel sid (rl_usage st)\<rparr>"

section \<open>A session\<close>

text \<open>What the loop of \<^verbatim>\<open>relay\<close> keeps: the counters, whether the session is slowed down, and the
  two clocks.\<close>

record session =
  sn_tm :: instant
  sn_elapsed :: nat
  sn_total :: nat
  sn_total_s :: nat
  sn_highest_s :: nat
  sn_downgrade :: bool
  sn_blacked :: bool
  sn_last_recv :: instant

definition session_start :: "instant \<Rightarrow> session" where
  "session_start now =
     \<lparr>sn_tm = now, sn_elapsed = 0, sn_total = 0, sn_total_s = 0, sn_highest_s = 0,
      sn_downgrade = False, sn_blacked = False, sn_last_recv = now\<rparr>"

text \<open>The traffic above which a session is slowed down, in bits per millisecond, fixed when it
  starts.\<close>

definition downgrade_threshold :: "relay_state \<Rightarrow> nat" where
  "downgrade_threshold st =
     f64_as_usize (f64_div_const (f64_div_const
       (f64_mul (usize_as_f64 (rl_single_bandwidth st)) (usize_as_f64 (rl_downgrade_threshold_100 st))) 100) 1000)"

datatype side = Peer_Side | Stream_Side

datatype limiter = Single | Slow | Shared

datatype relay_out = Consume limiter nat | Forward side bytes

datatype relay_event = Received side "bytes option" | Tick

datatype relay_end = Closed | Failed | TimedOut

text \<open>A chunk from one side: it is paid for and passed on to the other side.\<close>

definition other_side :: "side \<Rightarrow> side" where
  "other_side d = (case d of Peer_Side \<Rightarrow> Stream_Side | Stream_Side \<Rightarrow> Peer_Side)"

definition receive :: "side \<Rightarrow> bytes \<Rightarrow> instant \<Rightarrow> session \<Rightarrow> relay_out list \<times> session" where
  "receive d chunk now sn =
     (let nb = length chunk * 8
      in ([Consume (if sn_blacked sn \<or> sn_downgrade sn then Slow else Single) nb, Consume Shared nb] @
            (if chunk \<noteq> [] then [Forward (other_side d) chunk] else []),
          sn\<lparr>sn_last_recv := now, sn_total := sn_total sn + nb, sn_total_s := sn_total_s sn + nb\<rparr>))"

text \<open>What follows every event: once a second the lists are consulted again, the usage is
  written down and the session may be slowed down for good. The product wraps around as \<^verbatim>\<open>usize\<close>; the
  counters themselves, in bits and milliseconds of one session, are taken not to get there.\<close>

definition account :: "instant \<Rightarrow> string \<Rightarrow> string \<Rightarrow> nat \<Rightarrow> session \<Rightarrow> relay_state \<Rightarrow> session option \<times> relay_state" where
  "account now ip sid threshold sn st =
     (let n = elapsed_millis now (sn_tm sn)
      in if n < 1000 then (Some sn, st)
         else if ip \<in> rl_blocklist st then (None, st)
         else
           (let speed = sn_total_s sn div n;
                highest = (if speed > sn_highest_s sn then speed else sn_highest_s sn);
                elapsed = sn_elapsed sn + n;
                down = (sn_downgrade sn \<or> rl_downgrade_start_check st < elapsed \<and> elapsed * threshold mod 2 ^ 64 < sn_total sn)
            in (Some (sn\<lparr>sn_blacked := ip \<in> rl_blacklist st, sn_tm := now, sn_highest_s := highest,
                       sn_elapsed := elapsed, sn_total_s := 0, sn_downgrade := down\<rparr>),
                st\<lparr>rl_usage := hput sid (elapsed, sn_total sn, highest, speed) (rl_usage st)\<rparr>)))"

text \<open>One round of the loop. \<open>now\<close> is when the event was taken, \<open>later\<close> when its chunk had been
  paid for and passed on (which may fail).\<close>

definition relay_round ::
  "string \<Rightarrow> string \<Rightarrow> nat \<Rightarrow> relay_event \<Rightarrow> instant \<Rightarrow> instant \<Rightarrow> bool \<Rightarrow> session \<Rightarrow> relay_state
   \<Rightarrow> relay_out list \<times> (relay_end + session) \<times> relay_state" where
  "relay_round ip sid threshold ev now later sent sn st =
     (case ev of
        Received d None \<Rightarrow> ([], Inl Closed, st)
      | Received d (Some chunk) \<Rightarrow>
          (let (outs, sn1) = receive d chunk now sn
           in if chunk \<noteq> [] \<and> \<not> sent then (butlast outs, Inl Failed, st)
              else (case account later ip sid threshold sn1 st of
                      (None, st1) \<Rightarrow> (outs, Inl Closed, st1)
                    | (Some sn2, st1) \<Rightarrow> (outs, Inr sn2, st1)))
      | Tick \<Rightarrow>
          if elapsed_secs now (sn_last_recv sn) > 30 then ([], Inl TimedOut, st)
          else (case account later ip sid threshold sn st of
                  (None, st1) \<Rightarrow> ([], Inl Closed, st1)
                | (Some sn2, st1) \<Rightarrow> ([], Inr sn2, st1)))"

text \<open>The loop over a sequence of events. The state of the server at each round is given with
  the event, since other tasks change it in between.\<close>

type_synonym relay_input = "relay_event \<times> instant \<times> instant \<times> bool \<times> relay_state"

fun relay :: "string \<Rightarrow> string \<Rightarrow> nat \<Rightarrow> relay_input list \<Rightarrow> session \<Rightarrow> relay_out list \<times> (relay_end + session)" where
  "relay ip sid threshold [] sn = ([], Inr sn)"
| "relay ip sid threshold ((ev, now, later, sent, st) # rest) sn =
     (case relay_round ip sid threshold ev now later sent sn st of
        (outs, Inl e, _) \<Rightarrow> (outs, Inl e)
      | (outs, Inr sn', _) \<Rightarrow>
          (let (outs', r) = relay ip sid threshold rest sn' in (outs @ outs', r)))"

text \<open>The address a session is judged by on the two lists.\<close>

definition relay_ip :: "sockaddr \<Rightarrow> string" where
  "relay_ip addr = show_ip (sa_ip addr)"

section \<open>Traffic\<close>

fun sent_to :: "side \<Rightarrow> relay_out list \<Rightarrow> bytes" where
  "sent_to d [] = []"
| "sent_to d (Forward d' c # outs) = (if d' = d then c else []) @ sent_to d outs"
| "sent_to d (Consume l n # outs) = sent_to d outs"

fun received_from :: "side \<Rightarrow> relay_input list \<Rightarrow> bytes" where
  "received_from d [] = []"
| "received_from d ((Received d' (Some c), _) # ins) = (if d' = d then c else []) @ received_from d ins"
| "received_from d (_ # ins) = received_from d ins"

fun consumed :: "limiter \<Rightarrow> relay_out list \<Rightarrow> nat" where
  "consumed l [] = 0"
| "consumed l (Consume l' n # outs) = (if l' = l then n else 0) + consumed l outs"
| "consumed l (Forward d c # outs) = consumed l outs"

lemma sent_to_append [simp]: "sent_to d (xs @ ys) = sent_to d xs @ sent_to d ys"
  by (induction d xs rule: sent_to.induct) auto

lemma consumed_append [simp]: "consumed l (xs @ ys) = consumed l xs + consumed l ys"
  by (induction l xs rule: consumed.induct) auto

lemma account_keeps:
  "account now ip sid th sn st = (Some sn', st') \<Longrightarrow>
   sn_total sn' = sn_total sn \<and> sn_last_recv sn' = sn_last_recv sn \<and> (sn_downgrade sn \<longrightarrow> sn_downgrade sn')"
  by (auto simp: account_def Let_def split: if_splits)

lemma receive_outs:
  assumes "receive d chunk now sn = (outs, sn1)"
  shows "sent_to (other_side d') outs = (if d = d' then chunk else [])" "consumed Shared outs = 8 * length chunk"
    "consumed Single outs = (if sn_blacked sn \<or> sn_downgrade sn then 0 else 8 * length chunk)"
    "consumed Single outs + consumed Slow outs = 8 * length chunk" "sn_total sn1 = sn_total sn + 8 * length chunk"
    "sn_downgrade sn1 = sn_downgrade sn"
  using assms by (auto simp: receive_def Let_def other_side_def split: side.splits if_splits)

lemma receive_unsent:
  assumes "receive d chunk now sn = (outs, sn1)" "chunk \<noteq> []"
  shows "sent_to d' (butlast outs) = []" "consumed l (butlast outs) = consumed l outs"
  using assms by (auto simp: receive_def Let_def)

lemma relay_run_total:
  "relay ip sid th ins sn = (outs, Inr sn') \<Longrightarrow>
   sent_to (other_side d) outs = received_from d ins \<and>
   sn_total sn' = sn_total sn + consumed Shared outs \<and>
   consumed Single outs + consumed Slow outs = consumed Shared outs \<and>
   consumed Shared outs = 8 * length (received_from Peer_Side ins) + 8 * length (received_from Stream_Side ins)"
proof (induction ip sid th ins sn arbitrary: outs sn' rule: relay.induct)
  case (2 ip sid th ev now later sent st rest sn)
  obtain o1 r1 st1 where round: "relay_round ip sid th ev now later sent sn st = (o1, r1, st1)"
    by (metis prod.collapse)
  with "2.prems" obtain sn1 where r1: "r1 = Inr sn1" by (cases r1) auto
  obtain o2 where rest: "relay ip sid th rest sn1 = (o2, Inr sn')" and outs: "outs = o1 @ o2"
    using "2.prems" round r1 by (auto split: prod.splits)
  note IH = "2.IH" [OF round [symmetric] _ r1 rest, simplified]
  show ?case
  proof (cases ev)
    case (Received d' c)
    then obtain chunk where c: "c = Some chunk" using round r1 by (cases c) (auto simp: relay_round_def)
    obtain o3 sn3 where rc: "receive d' chunk now sn = (o3, sn3)" by fastforce
    have o1: "o1 = o3" and "\<exists>st2. account later ip sid th sn3 st = (Some sn1, st2)"
      using round r1 rc by (auto simp: relay_round_def Received c split: if_splits option.splits prod.splits)
    then have "sn_total sn1 = sn_total sn3" using account_keeps by blast
    with IH o1 outs receive_outs [OF rc] show ?thesis
      by (cases d') (auto simp: Received c)
  next
    case Tick
    have "o1 = []" "\<exists>st2. account later ip sid th sn st = (Some sn1, st2)"
      using round r1 by (auto simp: relay_round_def Tick split: if_splits option.splits prod.splits)
    moreover from this have "sn_total sn1 = sn_total sn" using account_keeps by blast
    ultimately show ?thesis using IH outs by (simp add: Tick)
  qed
qed simp

lemma relay_cons:
  assumes "relay ip sid th ((ev, now, later, sent, st) # rest) sn = (outs, r)"
  obtains (over) e st1 where "relay_round ip sid th ev now later sent sn st = (outs, Inl e, st1)" "r = Inl e"
    | (go_on) o1 sn1 st1 o2 where "relay_round ip sid th ev now later sent sn st = (o1, Inr sn1, st1)"
        "relay ip sid th rest sn1 = (o2, r)" "outs = o1 @ o2"
proof -
  obtain o1 r1 st1 where round: "relay_round ip sid th ev now later sent sn st = (o1, r1, st1)"
    by (metis prod.collapse)
  show thesis
  proof (cases r1)
    case (Inl e)
    with round assms have "relay_round ip sid th ev now later sent sn st = (outs, Inl e, st1)" "r = Inl e" by simp_all
    then show thesis by (rule over)
  next
    case (Inr sn1)
    with round assms go_on show thesis by (auto split: prod.splits)
  qed
qed

lemma relay_round_ended:
  assumes "relay_round ip sid th ev now later sent sn st = (outs, Inl e, st1)"
  shows "\<exists>more. received_from d [(ev, i)] = sent_to (other_side d) outs @ more"
  using assms
  by (auto simp: relay_round_def receive_def Let_def other_side_def
      split: relay_event.splits option.splits prod.splits if_splits side.splits)

lemma relay_round_running:
  assumes "relay_round ip sid th ev now later sent sn st = (outs, Inr sn1, st1)"
  shows "received_from d [(ev, i)] = sent_to (other_side d) outs"
  using assms
  by (auto simp: relay_round_def receive_def Let_def other_side_def
      split: relay_event.splits option.splits prod.splits if_splits side.splits)

lemma received_from_cons: "received_from d ((ev, i) # ins) = received_from d [(ev, i)] @ received_from d ins"
  by (cases ev; cases "case ev of Received _ c \<Rightarrow> c | Tick \<Rightarrow> None") auto

lemma relay_run_prefix:
  "relay ip sid th ins sn = (outs, r) \<Longrightarrow> \<exists>more. received_from d ins = sent_to (other_side d) outs @ more"
proof (induction ins arbitrary: sn outs)
  case (Cons x ins)
  obtain ev now later sent st where x: "x = (ev, now, later, sent, st)" by (metis prod.collapse)
  from Cons.prems [unfolded x] show ?case
  proof (cases rule: relay_cons)
    case (over e st1)
    from relay_round_ended [OF over(1), of d "(now, later, sent, st)"] show ?thesis
      unfolding x by (subst received_from_cons) auto
  next
    case (go_on o1 sn1 st1 o2)
    from relay_round_running [OF go_on(1), of d "(now, later, sent, st)"] Cons.IH [OF go_on(2)] go_on(3) show ?thesis
      unfolding x by (subst received_from_cons) auto
  qed
qed auto

lemma relay_round_slow:
  assumes "relay_round ip sid th ev now later sent sn st = (outs, r, st1)" "sn_downgrade sn"
  shows "consumed Single outs = 0 \<and> (\<forall>sn'. r = Inr sn' \<longrightarrow> sn_downgrade sn')"
  using assms
  by (auto simp: relay_round_def receive_def account_def Let_def
      split: relay_event.splits option.splits prod.splits if_splits)

lemma relay_round_tick:
  assumes "relay_round ip sid th Tick now later sent sn st = (outs, Inr sn', st1)"
  shows "elapsed_secs now (sn_last_recv sn) \<le> 30 \<and> sn_last_recv sn' = sn_last_recv sn"
  using assms by (auto simp: relay_round_def account_def Let_def split: prod.splits if_splits option.splits)

section \<open>Properties of a session\<close>

text \<open>
  C12. A relay passes traffic on unchanged: what one side is sent is always a prefix of what the
  other side sent, all of it while the session runs; and every bit is paid for once at the
  shared limiter and once at one of the session's own two limiters, and counted once.
\<close>

theorem relay_transparent:
  assumes "relay ip sid th ins (session_start t) = (outs, r)"
  shows "(\<exists>more. received_from d ins = sent_to (other_side d) outs @ more) \<and>
    (\<forall>sn. r = Inr sn \<longrightarrow>
       sent_to (other_side d) outs = received_from d ins \<and>
       sn_total sn = 8 * length (received_from Peer_Side ins) + 8 * length (received_from Stream_Side ins) \<and>
       consumed Shared outs = sn_total sn \<and> consumed Single outs + consumed Slow outs = sn_total sn)"
proof (intro conjI allI impI)
  show "\<exists>more. received_from d ins = sent_to (other_side d) outs @ more" by (rule relay_run_prefix [OF assms])
next
  fix sn assume "r = Inr sn"
  note run = relay_run_total [OF assms [unfolded this], of d]
  have "sn_total (session_start t) = 0" by (simp add: session_start_def)
  with run show "sent_to (other_side d) outs = received_from d ins"
    "sn_total sn = 8 * length (received_from Peer_Side ins) + 8 * length (received_from Stream_Side ins)"
    "consumed Shared outs = sn_total sn" "consumed Single outs + consumed Slow outs = sn_total sn"
    by linarith+
qed

lemma example_relay:
  "relay ''1.2.3.4'' ''s'' 5 [(Received Peer_Side (Some [1, 2]), 3, 4, True, relay_start), (Tick, 8, 8, True, relay_start)]
     (session_start 0) =
   ([Consume Single 16, Consume Shared 16, Forward Stream_Side [1, 2]],
    Inr ((session_start 0)\<lparr>sn_total := 16, sn_total_s := 16, sn_last_recv := 3\<rparr>))"
  by (simp add: relay_round_def receive_def account_def session_start_def elapsed_millis_def elapsed_secs_def other_side_def)

theorem relay_transparent_witness:
  "sent_to Stream_Side (fst (relay ''1.2.3.4'' ''s'' 5
     [(Received Peer_Side (Some [1, 2]), 3, 4, True, relay_start), (Tick, 8, 8, True, relay_start)] (session_start 0))) = [1, 2]"
  using relay_transparent [OF example_relay, of Peer_Side] example_relay by (simp add: other_side_def)

text \<open>
  C28. A session that is slowed down stays so: once it is, nothing it carries is paid for at the
  fast limiter any more; and it is slowed down at the first account after the time from which
  sessions are checked at which it has carried more than the threshold allows.
\<close>

theorem relay_downgrade:
  assumes "relay_round ip sid th ev now later sent sn st = (o1, Inr sn1, st1)"
    and "1000 \<le> elapsed_millis later (sn_tm sn)"
    and "rl_downgrade_start_check st < sn_elapsed sn1" "sn_elapsed sn1 * th < sn_total sn1"
    and "relay ip sid th ins sn1 = (outs, r)"
  shows "consumed Single outs = 0 \<and> (\<forall>sn2. r = Inr sn2 \<longrightarrow> sn_downgrade sn2)"
proof -
  have "sn_downgrade sn1"
    using assms(1-4)
    by (auto simp: relay_round_def receive_def account_def Let_def
        split: relay_event.splits option.splits prod.splits if_splits)
  with assms(5) show ?thesis
  proof (induction ins arbitrary: sn1 outs)
    case (Cons x ins)
    obtain ev now later sent st where x: "x = (ev, now, later, sent, st)" by (metis prod.collapse)
    from Cons.prems(1) [unfolded x] show ?case
    proof (cases rule: relay_cons)
      case (over e st1)
      with relay_round_slow [OF over(1) Cons.prems(2)] show ?thesis by simp
    next
      case (go_on o1 sn1' st1 o2)
      from relay_round_slow [OF go_on(1) Cons.prems(2)] Cons.IH [OF go_on(2)] go_on(3) show ?thesis by simp
    qed
  qed auto
qed

lemma example_downgrade:
  "relay_round ''1.2.3.4'' ''s'' 1 Tick 1000000000 1000000000 True
     ((session_start 0)\<lparr>sn_elapsed := 1800000, sn_total := 1900000\<rparr>) relay_start =
   ([], Inr ((session_start 0)\<lparr>sn_elapsed := 1801000, sn_total := 1900000, sn_tm := 1000000000, sn_downgrade := True\<rparr>),
    relay_start\<lparr>rl_usage := [(''s'', (1801000, 1900000, 0, 0))]\<rparr>)"
  by (simp add: relay_round_def account_def session_start_def elapsed_millis_def elapsed_secs_def relay_start_def hput_def)

theorem relay_downgrade_witness:
  "consumed Single (fst (relay ''1.2.3.4'' ''s'' 1 [(Received Peer_Side (Some [7]), 1000000001, 1000000002, True, relay_start)]
     ((session_start 0)\<lparr>sn_elapsed := 1801000, sn_total := 1900000, sn_tm := 1000000000, sn_downgrade := True\<rparr>))) = 0"
  by (rule relay_downgrade [OF example_downgrade _ _ _ surjective_pairing, THEN conjunct1])
     (simp_all add: session_start_def elapsed_millis_def relay_start_def)

text \<open>
  C29. A silent session ends: when nothing has come from either side, the first check of the
  timer that is more than 30 seconds after the last chunk ends it.
\<close>

theorem relay_idle_ends:
  assumes "\<forall>i \<in> set ins. fst i = Tick"
    and "\<exists>i \<in> set ins. 30 < elapsed_secs (fst (snd i)) (sn_last_recv sn)"
  shows "\<exists>e. snd (relay ip sid th ins sn) = Inl e"
  using assms
proof (induction ins arbitrary: sn)
  case (Cons x ins)
  obtain now later sent st where x: "x = (Tick, now, later, sent, st)"
    using Cons.prems(1) by (metis list.set_intros(1) prod.collapse fst_conv)
  obtain outs r where run: "relay ip sid th ((Tick, now, later, sent, st) # ins) sn = (outs, r)" by fastforce
  then show ?case
  proof (cases rule: relay_cons)
    case (go_on o1 sn1 st1 o2)
    from relay_round_tick [OF go_on(1)] Cons.prems x
    have "\<exists>i \<in> set ins. 30 < elapsed_secs (fst (snd i)) (sn_last_recv sn1)" by auto
    with Cons.IH [of sn1] Cons.prems(1) go_on(2) run show ?thesis by (simp add: x)
  qed (use run x in simp)
qed simp

theorem relay_idle_ends_witness:
  "\<exists>e. snd (relay ''1.2.3.4'' ''s'' 5 [(Tick, 3, 3, True, relay_start), (Tick, 31000000000, 31000000000, True, relay_start)]
     (session_start 0)) = Inl e"
  by (rule relay_idle_ends) (simp_all add: session_start_def elapsed_secs_def)

end
