(* ===== verification/Key_Tools.thy ===== *)
theory Key_Tools
  imports Rendezvous_Conn Relay_Server
begin

text \<open>
  The tools for key pairs, \<^verbatim>\<open>src/src/utils.rs\<close>: making and checking a pair, and which command a
  command line of \<^verbatim>\<open>rustdesk-utils\<close> runs. Signatures (\<^verbatim>\<open>sodiumoxide\<close>) and base64 are parameters.
\<close>

section \<open>Making and checking a pair\<close>

definition PUBLICKEYBYTES :: nat where
  "PUBLICKEYBYTES = 32"

text \<open>Signing a message with a secret key gives the signed message; opening it with a public key
  gives the message back, or fails.\<close>

record sign_ops =
  sg_sign :: "bytes \<Rightarrow> bytes \<Rightarrow> bytes"
  sg_verify :: "bytes \<Rightarrow> bytes \<Rightarrow> bytes option"

datatype keypair_error = SecretNotBase64 | SecretWrongSize | PublicNotBase64 | PublicWrongSize | PairInvalid

definition test_data :: bytes where
  "test_data = map (of_nat \<circ> of_char) ''This is meh.''"

definition gen_keypair :: "key_ops \<Rightarrow> bytes \<times> bytes \<Rightarrow> string \<times> string" where
  "gen_keypair ko pair = (ko_encode ko (fst pair), ko_encode ko (snd pair))"

definition validate_keypair :: "key_ops \<Rightarrow> sign_ops \<Rightarrow> string \<Rightarrow> string \<Rightarrow> keypair_error + unit" where
  "validate_keypair ko sg pub sec =
     (case ko_decode ko sec of
        None \<Rightarrow> Inl SecretNotBase64
      | Some secret_key \<Rightarrow>
          if length secret_key \<noteq> SECRETKEYBYTES then Inl SecretWrongSize
          else (case ko_decode ko pub of
                  None \<Rightarrow> Inl PublicNotBase64
                | Some public_key \<Rightarrow>
                    if length public_key \<noteq> PUBLICKEYBYTES then Inl PublicWrongSize
                    else (case sg_verify sg public_key (sg_sign sg secret_key test_data) of
                            None \<Rightarrow> Inl PairInvalid
                          | Some verified \<Rightarrow> if verified = test_data then Inr () else Inl PairInvalid)))"

section \<open>The command line\<close>

datatype utils_run =
    PrintHelp
  | ErrorThenHelp
  | GenKeypair
  | ValidateKeypair string string
  | GeoUpdate "string list"
  | Doctor string

text \<open>The arguments without the name of the program.\<close>

definition utils_main :: "string list \<Rightarrow> utils_run" where
  "utils_main args =
     (case args of
        [] \<Rightarrow> PrintHelp
      | cmd # rest \<Rightarrow>
          (let command = to_lowercase cmd
           in if command = ''genkeypair'' then GenKeypair
              else if command = ''validatekeypair'' then
                (case rest of pub # sec # _ \<Rightarrow> ValidateKeypair pub sec | _ \<Rightarrow> ErrorThenHelp)
              else if command = ''geo-update'' then GeoUpdate rest
              else if command = ''doctor'' then (case rest of a # _ \<Rightarrow> Doctor a | [] \<Rightarrow> ErrorThenHelp)
              else PrintHelp))"

section \<open>The connection check\<close>

text \<open>\<^verbatim>\<open>doctor\<close>: the addresses it looks at, and for each of them the ports it tries, with what it says.
  Name lookups and connections are parameters; a lookup that fails ends the program.\<close>

datatype doctor_line =
    CheckingIp ipaddr
  | ReverseLookup string bool
  | TcpPort nat string bool

definition doctor_ports :: "(nat \<times> string) list" where
  "doctor_ports = [(21114, ''API''), (21115, ''hbbs extra port for nat test''), (21116, ''hbbs''), (21117, ''hbbr tcp''),
     (21118, ''hbbs websocket''), (21119, ''hbbr websocket'')]"

definition doctor_tcp :: "(string \<Rightarrow> bool) \<Rightarrow> ipaddr \<Rightarrow> nat \<times> string \<Rightarrow> doctor_line" where
  "doctor_tcp connects address p = TcpPort (fst p) (snd p) (connects (show_ip address @ '':'' @ show_nat (fst p)))"

definition doctor_ip ::
  "(ipaddr \<Rightarrow> string option) \<Rightarrow> (string \<Rightarrow> bool) \<Rightarrow> ipaddr \<Rightarrow> string option \<Rightarrow> doctor_line list option" where
  "doctor_ip lookup_addr connects ip name =
     (case lookup_addr ip of
        None \<Rightarrow> None
      | Some reverse \<Rightarrow>
          Some (CheckingIp ip #
                (case name of None \<Rightarrow> [] | Some n \<Rightarrow> [ReverseLookup reverse (reverse = n)]) @
                map (doctor_tcp connects ip) doctor_ports))"

fun all_lines :: "'a list option list \<Rightarrow> 'a list option" where
  "all_lines [] = Some []"
| "all_lines (None # _) = None"
| "all_lines (Some x # xs) = map_option ((@) x) (all_lines xs)"

definition doctor ::
  "(ipaddr \<Rightarrow> string option) \<Rightarrow> (string \<Rightarrow> ipaddr list option) \<Rightarrow> (string \<Rightarrow> bool) \<Rightarrow> string \<Rightarrow> doctor_line list option" where
  "doctor lookup_addr lookup_host connects unclean =
     (let server = to_lowercase (trim unclean)
      in case parse_ip server of
           Some ip \<Rightarrow> doctor_ip lookup_addr connects ip None
         | None \<Rightarrow>
             (case lookup_host server of
                None \<Rightarrow> None
              | Some ips \<Rightarrow> all_lines (map (\<lambda>ip. doctor_ip lookup_addr connects ip (Some server)) ips)))"

section \<open>Properties\<close>

text \<open>
  A pair made by \<^verbatim>\<open>genkeypair\<close> passes \<^verbatim>\<open>validatekeypair\<close>, and its secret key can be given to both
  servers as their key: each then asks its clients for the public key that was printed, and the
  rendezvous server signs with the secret key. A pair is accepted only if a message signed with
  the secret key opens with the public key.
\<close>

theorem generated_pair_usable:
  assumes "\<And>b. ko_decode ko (ko_encode ko b) = Some b"
    and "\<And>m. sg_verify sg pub (sg_sign sg sec m) = Some m"
    and "length sec = SECRETKEYBYTES" "length pub = PUBLICKEYBYTES" "drop (SECRETKEYBYTES div 2) sec = pub"
    and "ko_encode ko pub \<notin> {[], ''-'', ''_''}" "gen_keypair ko (pub, sec) = (pk_text, sk_text)"
  shows "validate_keypair ko sg pk_text sk_text = Inr () \<and>
    get_server_sk ko gen sk_text = Inr (pk_text, Some sec) \<and> relay_get_server_sk ko gen sk_text = Inr pk_text \<and>
    (validate_keypair ko sg a b = Inr () \<longrightarrow>
      (\<exists>p s. ko_decode ko a = Some p \<and> ko_decode ko b = Some s \<and> sg_verify sg p (sg_sign sg s test_data) = Some test_data))"
proof -
  have texts: "pk_text = ko_encode ko pub" "sk_text = ko_encode ko sec" using assms(7) by (simp_all add: gen_keypair_def)
  have "validate_keypair ko sg pk_text sk_text = Inr ()" using assms(1-4) by (simp add: validate_keypair_def texts)
  moreover have "get_server_sk ko gen sk_text = Inr (pk_text, Some sec)"
    using assms(1,3,5,6) by (simp add: get_server_sk_def texts)
  moreover have "relay_get_server_sk ko gen sk_text = Inr pk_text"
    using assms(1,3,5,6) by (simp add: relay_get_server_sk_def texts SECRETKEYBYTES_def)
  ultimately show ?thesis by (auto simp: validate_keypair_def split: option.splits if_splits)
qed

definition example_ko :: key_ops where
  "example_ko = \<lparr>ko_encode = map (\<lambda>b. char_of (unat b)), ko_decode = (\<lambda>s. Some (map (of_nat \<circ> of_char) s)),
     ko_valid = (\<lambda>_. True), ko_public = drop 32\<rparr>"

definition example_sg :: sign_ops where
  "example_sg = \<lparr>sg_sign = (\<lambda>sec m. drop 32 sec @ m), sg_verify = (\<lambda>pub s. if take 32 s = pub then Some (drop 32 s) else None)\<rparr>"

theorem generated_pair_usable_witness:
  "get_server_sk example_ko (Inl MalformedPrivateKey) (ko_encode example_ko (replicate 32 1 @ replicate 32 65)) =
     Inr (ko_encode example_ko (replicate 32 65), Some (replicate 32 1 @ replicate 32 65))"
proof -
  have byte: "unat b < 256" for b :: "8 word" using unsigned_less [of b] by simp
  have "ko_decode example_ko (ko_encode example_ko b) = Some b" for b
    by (simp add: example_ko_def comp_def byte)
  moreover have "sg_verify example_sg (replicate 32 65) (sg_sign example_sg (replicate 32 1 @ replicate 32 65) m) = Some m" for m
    by (simp add: example_sg_def)
  moreover have "e \<notin> {[], ''-'', ''_''}" if "length e = 32" for e :: string using that by auto
  then have "ko_encode example_ko (replicate 32 65) \<notin> {[], ''-'', ''_''}" by (simp add: example_ko_def)
  ultimately show ?thesis
    using generated_pair_usable [of example_ko example_sg "replicate 32 65" "replicate 32 1 @ replicate 32 65"
        "ko_encode example_ko (replicate 32 65)" "ko_encode example_ko (replicate 32 1 @ replicate 32 65)"
        "Inl MalformedPrivateKey"]
    by (simp add: SECRETKEYBYTES_def PUBLICKEYBYTES_def gen_keypair_def)
qed

end
