(* ===== verification/Relay_Pairs.thy ===== *)
theory Relay_Pairs
  imports Relay_Server
begin

text \<open>
  How the connections of the relay server meet: the tasks of \<^verbatim>\<open>make_pair_\<close> as a step relation. A
  task that finds no one waiting puts its stream into the shared map in a second critical
  section and takes it out 30 seconds later in a third, so that tasks interleave between them.
\<close>

section \<open>Tasks\<close>

text \<open>The tasks between their lookup and the moment they park their stream, the identifiers for
  which a task sleeps, the running sessions (identifier, name, both ends), and who asked for what.\<close>

record pair_world =
  pw_st :: relay_state
  pw_parking :: "(string \<times> rstream) list"
  pw_waiting :: "string list"
  pw_sessions :: "(string \<times> string \<times> rstream \<times> rstream) list"
  pw_seen :: "(nat \<times> string \<times> string) list"
  pw_next :: nat

inductive pair_step :: "(bytes \<Rightarrow> relay_request option) \<Rightarrow> string \<Rightarrow> pair_world \<Rightarrow> pair_world \<Rightarrow> bool" for parse key where
  step_refused: "make_pair_first parse key addr frame s (pw_st w) = (Refused, st') \<Longrightarrow> pair_step parse key w (w\<lparr>pw_st := st'\<rparr>)"
| step_unpaired: "st_id s = pw_next w \<Longrightarrow> Option.bind frame parse = Some rf \<Longrightarrow>
    make_pair_first parse key addr frame s (pw_st w) = (Unpaired uid, st') \<Longrightarrow>
    pair_step parse key w (w\<lparr>pw_st := st', pw_parking := (uid, s) # pw_parking w,
      pw_seen := (pw_next w, rq_licence_key rf, rq_uuid rf) # pw_seen w, pw_next := Suc (pw_next w)\<rparr>)"
| step_paired: "st_id s = pw_next w \<Longrightarrow> Option.bind frame parse = Some rf \<Longrightarrow>
    make_pair_first parse key addr frame s (pw_st w) = (Paired sid a b, st') \<Longrightarrow>
    pair_step parse key w (w\<lparr>pw_st := st', pw_sessions := (rq_uuid rf, sid, a, b) # pw_sessions w,
      pw_seen := (pw_next w, rq_licence_key rf, rq_uuid rf) # pw_seen w, pw_next := Suc (pw_next w)\<rparr>)"
| step_park: "pw_parking w = xs @ (uid, s) # ys \<Longrightarrow>
    pair_step parse key w (w\<lparr>pw_st := park uid s (pw_st w), pw_parking := xs @ ys, pw_waiting := uid # pw_waiting w\<rparr>)"
| step_unpark: "pw_waiting w = xs @ uid # ys \<Longrightarrow>
    pair_step parse key w (w\<lparr>pw_st := unpark uid (pw_st w), pw_waiting := xs @ ys\<rparr>)"
| step_finish: "pw_sessions w = xs @ (uid, sid, a, b) # ys \<Longrightarrow>
    pair_step parse key w (w\<lparr>pw_st := end_session sid (pw_st w), pw_sessions := xs @ ys\<rparr>)"
| step_command: "pair_step parse key w (w\<lparr>pw_st := snd (relay_check_cmd cmd (pw_st w))\<rparr>)"
| step_account: "pair_step parse key w (w\<lparr>pw_st := snd (account now ip sid th sn (pw_st w))\<rparr>)"

definition pair_init :: "relay_state \<Rightarrow> pair_world" where
  "pair_init st = \<lparr>pw_st = st\<lparr>rl_peers := []\<rparr>, pw_parking = [], pw_waiting = [], pw_sessions = [], pw_seen = [], pw_next = 0\<rparr>"

definition pair_reachable :: "(bytes \<Rightarrow> relay_request option) \<Rightarrow> string \<Rightarrow> pair_world \<Rightarrow> bool" where
  "pair_reachable parse key w \<longleftrightarrow> (\<exists>st. (pair_step parse key)\<^sup>*\<^sup>* (pair_init st) w)"

section \<open>Invariant\<close>

definition session_ids :: "(string \<times> string \<times> rstream \<times> rstream) list \<Rightarrow> nat list" where
  "session_ids ss = concat (map (\<lambda>(_, _, a, b). [st_id a, st_id b]) ss)"

definition asked :: "string \<Rightarrow> (nat \<times> string \<times> string) list \<Rightarrow> nat \<Rightarrow> string \<Rightarrow> bool" where
  "asked key seen i uid \<longleftrightarrow> (\<exists>k. (i, k, uid) \<in> set seen \<and> (key = [] \<or> k = key))"

definition busy_ids :: "pair_world \<Rightarrow> nat list" where
  "busy_ids w = map (st_id \<circ> snd) (pw_parking w) @ session_ids (pw_sessions w)"

definition pair_wf :: "string \<Rightarrow> pair_world \<Rightarrow> bool" where
  "pair_wf key w \<longleftrightarrow>
     (\<forall>i k u. (i, k, u) \<in> set (pw_seen w) \<longrightarrow> i < pw_next w) \<and> distinct (map fst (pw_seen w)) \<and>
     (\<forall>u s. hget (rl_peers (pw_st w)) u = Some s \<longrightarrow>
        asked key (pw_seen w) (st_id s) u \<and> u \<in> set (pw_waiting w) \<and> st_id s \<notin> set (busy_ids w)) \<and>
     (\<forall>u s. (u, s) \<in> set (pw_parking w) \<longrightarrow> asked key (pw_seen w) (st_id s) u) \<and>
     (\<forall>u sid a b. (u, sid, a, b) \<in> set (pw_sessions w) \<longrightarrow>
        asked key (pw_seen w) (st_id a) u \<and> asked key (pw_seen w) (st_id b) u) \<and>
     distinct (busy_ids w)"

lemma session_ids_simps [simp]:
  "session_ids [] = []" "session_ids ((u, sid, a, b) # ss) = st_id a # st_id b # session_ids ss"
  "session_ids (xs @ ys) = session_ids xs @ session_ids ys"
  by (simp_all add: session_ids_def)

lemma session_ids_member: "i \<in> set (session_ids ss) \<Longrightarrow> \<exists>u sid a b. (u, sid, a, b) \<in> set ss \<and> (i = st_id a \<or> i = st_id b)"
  by (fastforce simp: session_ids_def)

lemma asked_cons [simp]: "asked key seen i u \<Longrightarrow> asked key (e # seen) i u"
  by (auto simp: asked_def)

lemma asked_new [simp]: "key = [] \<or> k = key \<Longrightarrow> asked key ((i, k, u) # seen) i u"
  by (auto simp: asked_def)

lemma asked_below: "pair_wf key w \<Longrightarrow> asked key (pw_seen w) i u \<Longrightarrow> i < pw_next w"
  by (auto simp: asked_def pair_wf_def)

lemma asked_same: "pair_wf key w \<Longrightarrow> asked key (pw_seen w) i u \<Longrightarrow> asked key (pw_seen w) i u' \<Longrightarrow> u = u'"
proof -
  assume wf: "pair_wf key w" and a: "asked key (pw_seen w) i u" "asked key (pw_seen w) i u'"
  from wf have dist: "distinct (map fst (pw_seen w))" unfolding pair_wf_def by (elim conjE)
  obtain k where "(i, k, u) \<in> set (pw_seen w)" using a(1) by (auto simp: asked_def)
  moreover obtain k' where "(i, k', u') \<in> set (pw_seen w)" using a(2) by (auto simp: asked_def)
  ultimately have "(k, u) = (k', u')" by (rule eq_key_imp_eq_value [OF dist])
  then show "u = u'" by simp
qed

lemma busy_below: "pair_wf key w \<Longrightarrow> i \<in> set (busy_ids w) \<Longrightarrow> i < pw_next w"
proof -
  assume wf: "pair_wf key w" and "i \<in> set (busy_ids w)"
  then consider u s where "(u, s) \<in> set (pw_parking w)" "i = st_id s"
    | u sid a b where "(u, sid, a, b) \<in> set (pw_sessions w)" "i = st_id a \<or> i = st_id b"
    using session_ids_member [of i "pw_sessions w"] by (auto simp: busy_ids_def)
  then show "i < pw_next w"
  proof cases
    case 1
    with wf have "asked key (pw_seen w) i u" by (auto simp: pair_wf_def)
    with wf show ?thesis by (rule asked_below)
  next
    case 2
    with wf have "asked key (pw_seen w) i u" unfolding pair_wf_def by blast
    with wf show ?thesis by (rule asked_below)
  qed
qed

lemma parked_below: "pair_wf key w \<Longrightarrow> hget (rl_peers (pw_st w)) u = Some s \<Longrightarrow> st_id s < pw_next w"
  by (rule asked_below [of key w _ u]) (auto simp: pair_wf_def)

text \<open>The outcome of a first frame.\<close>

lemma first_frame:
  assumes "make_pair_first parse key addr frame s st = (r, st')"
  shows "case r of
      Refused \<Rightarrow> st' = st
    | Unpaired u \<Rightarrow> st' = st \<and> (\<forall>rf. Option.bind frame parse = Some rf \<longrightarrow>
        rq_uuid rf = u \<and> (key = [] \<or> rq_licence_key rf = key))
    | Paired sid a b \<Rightarrow> (\<forall>rf. Option.bind frame parse = Some rf \<longrightarrow> (key = [] \<or> rq_licence_key rf = key) \<and>
        rl_peers st' = hdel (rq_uuid rf) (rl_peers st) \<and> st_id a = st_id s \<and>
        (\<exists>p. hget (rl_peers st) (rq_uuid rf) = Some p \<and> st_id b = st_id p))"
  using assms
  by (auto simp: make_pair_first_def set_raw_def Let_def split: option.splits if_splits)

lemma pair_wf_same_peers:
  "pair_wf key w \<Longrightarrow> rl_peers st' = rl_peers (pw_st w) \<Longrightarrow> pair_wf key (w\<lparr>pw_st := st'\<rparr>)"
  by (simp add: pair_wf_def busy_ids_def)

lemma pair_wf_unpaired:
  assumes "pair_wf key w" "st_id s = pw_next w" "key = [] \<or> k = key"
  shows "pair_wf key (w\<lparr>pw_parking := (u, s) # pw_parking w, pw_seen := (pw_next w, k, u) # pw_seen w, pw_next := Suc (pw_next w)\<rparr>)"
proof -
  have "pw_next w \<notin> set (busy_ids w)" using busy_below [OF assms(1)] by blast
  moreover have "pw_next w \<notin> fst ` set (pw_seen w)" using assms(1) by (fastforce simp: pair_wf_def)
  ultimately show ?thesis
    using assms parked_below [OF assms(1)] by (fastforce simp: pair_wf_def busy_ids_def less_SucI)
qed

lemma pair_wf_paired:
  assumes "pair_wf key w" "st_id a = pw_next w" "key = [] \<or> k = key"
    and "hget (rl_peers (pw_st w)) u = Some p" "st_id b = st_id p" "rl_peers st' = hdel u (rl_peers (pw_st w))"
  shows "pair_wf key (w\<lparr>pw_st := st', pw_sessions := (u, sid, a, b) # pw_sessions w,
    pw_seen := (pw_next w, k, u) # pw_seen w, pw_next := Suc (pw_next w)\<rparr>)"
proof -
  let ?seen = "(pw_next w, k, u) # pw_seen w"
  have p: "asked key (pw_seen w) (st_id p) u" "st_id p \<notin> set (busy_ids w)" "st_id p < pw_next w"
    using assms(1,4) parked_below by (auto simp: pair_wf_def)
  have new: "pw_next w \<notin> set (busy_ids w)" "pw_next w \<notin> fst ` set (pw_seen w)"
    using busy_below [OF assms(1)] assms(1) by (blast, fastforce simp: pair_wf_def)
  have others: "st_id s \<noteq> st_id p \<and> st_id s < pw_next w"
    if "hget (rl_peers (pw_st w)) u' = Some s" "u' \<noteq> u" for u' s
  proof -
    have "asked key (pw_seen w) (st_id s) u'" using assms(1) that by (auto simp: pair_wf_def)
    with asked_same [OF assms(1) p(1)] that parked_below [OF assms(1) that(1)] show ?thesis by metis
  qed
  have dist: "distinct (busy_ids (w\<lparr>pw_sessions := (u, sid, a, b) # pw_sessions w\<rparr>))"
    using assms(1,2,5) p new by (auto simp: pair_wf_def busy_ids_def)
  have peers: "asked key ?seen (st_id s) u' \<and> u' \<in> set (pw_waiting w) \<and>
      st_id s \<notin> set (busy_ids (w\<lparr>pw_sessions := (u, sid, a, b) # pw_sessions w\<rparr>))"
    if "hget (hdel u (rl_peers (pw_st w))) u' = Some s" for u' s
    using that others [of u' s] assms(1,2,5) by (auto simp: pair_wf_def busy_ids_def split: if_splits)
  show ?thesis
    using assms(1-3,5,6) p new dist peers by (auto simp: pair_wf_def busy_ids_def less_SucI)
qed

lemma pair_wf_park:
  assumes "pair_wf key w" "pw_parking w = xs @ (u, s) # ys"
  shows "pair_wf key (w\<lparr>pw_st := park u s (pw_st w), pw_parking := xs @ ys, pw_waiting := u # pw_waiting w\<rparr>)"
  using assms by (auto simp: pair_wf_def busy_ids_def park_def split: if_splits)

lemma pair_wf_unpark:
  assumes "pair_wf key w" "pw_waiting w = xs @ u # ys"
  shows "pair_wf key (w\<lparr>pw_st := unpark u (pw_st w), pw_waiting := xs @ ys\<rparr>)"
  using assms by (auto simp: pair_wf_def busy_ids_def unpark_def split: if_splits)

lemma pair_wf_finish:
  assumes "pair_wf key w" "pw_sessions w = xs @ (u, sid, a, b) # ys"
  shows "pair_wf key (w\<lparr>pw_st := end_session sid (pw_st w), pw_sessions := xs @ ys\<rparr>)"
  using assms by (auto simp: pair_wf_def busy_ids_def end_session_def)

lemma relay_check_cmd_peers: "rl_peers (snd (relay_check_cmd cmd st)) = rl_peers st"
  by (simp add: relay_check_cmd_def Let_def split: option.split)

lemma account_peers: "rl_peers (snd (account now ip sid th sn st)) = rl_peers st"
  by (simp add: account_def Let_def)

lemma pair_step_wf: "pair_step parse key w w' \<Longrightarrow> pair_wf key w \<Longrightarrow> pair_wf key w'"
proof (induction rule: pair_step.induct)
  case (step_refused addr frame s w st')
  with first_frame [OF step_refused(1)] show ?case by (simp add: pair_wf_same_peers)
next
  case (step_unpaired s w frame rf addr uid st')
  have u: "st' = pw_st w" "rq_uuid rf = uid" "key = [] \<or> rq_licence_key rf = key"
    using first_frame [OF step_unpaired(3)] step_unpaired(2) by auto
  have "pair_wf key (w\<lparr>pw_parking := (uid, s) # pw_parking w,
      pw_seen := (pw_next w, rq_licence_key rf, uid) # pw_seen w, pw_next := Suc (pw_next w)\<rparr>)"
    by (rule pair_wf_unpaired [OF step_unpaired(4,1) u(3)])
  with u show ?case by simp
next
  case (step_paired s w frame rf addr sid a b st')
  have licence: "key = [] \<or> rq_licence_key rf = key" and peers: "rl_peers st' = hdel (rq_uuid rf) (rl_peers (pw_st w))"
    and a: "st_id a = pw_next w"
    using first_frame [OF step_paired(3)] step_paired(1,2) by auto
  obtain p where "hget (rl_peers (pw_st w)) (rq_uuid rf) = Some p" "st_id b = st_id p"
    using first_frame [OF step_paired(3)] step_paired(2) by auto
  then show ?case by (rule pair_wf_paired [OF step_paired(4) a licence _ _ peers])
next
  case (step_park w xs uid s ys)
  then show ?case by (intro pair_wf_park)
next
  case (step_unpark w xs uid ys)
  then show ?case by (intro pair_wf_unpark)
next
  case (step_finish w xs uid sid a b ys)
  then show ?case by (intro pair_wf_finish)
qed (simp_all add: pair_wf_same_peers relay_check_cmd_peers account_peers)

lemma pair_init_wf: "pair_wf key (pair_init st)"
  by (simp add: pair_wf_def pair_init_def busy_ids_def)

interpretation pairs: invariant_system "pair_step parse key" "\<lambda>w. \<exists>st. w = pair_init st" "pair_wf key" for parse key
  by unfold_locales (auto intro: pair_init_wf pair_step_wf)

lemma pair_reachable_wf: "pair_reachable parse key w \<Longrightarrow> pair_wf key w"
  unfolding pair_reachable_def using pairs.reachable_inv by blast

section \<open>Properties\<close>

text \<open>
  C11. Who is connected to whom: in every reachable state, the two ends of a session are two
  different connections that asked for the same identifier and, when the server has a key,
  showed that key; no connection is in two sessions, or in one and waiting; and every waiting
  connection has a task that will take it out of the map again.
\<close>

theorem relay_pairs_matching:
  assumes "pair_reachable parse key w"
  shows "(\<forall>(uid, sid, a, b) \<in> set (pw_sessions w).
      st_id a \<noteq> st_id b \<and> asked key (pw_seen w) (st_id a) uid \<and> asked key (pw_seen w) (st_id b) uid) \<and>
    distinct (session_ids (pw_sessions w)) \<and>
    (\<forall>uid s. hget (rl_peers (pw_st w)) uid = Some s \<longrightarrow>
       st_id s \<notin> set (session_ids (pw_sessions w)) \<and> uid \<in> set (pw_waiting w))"
proof -
  note wf = pair_reachable_wf [OF assms]
  have "distinct (session_ids (pw_sessions w))" using wf by (simp add: pair_wf_def busy_ids_def)
  moreover have "st_id a \<noteq> st_id b" if "(u, sid, a, b) \<in> set (pw_sessions w)" for u sid a b
    using calculation split_list [OF that] by auto
  ultimately show ?thesis using wf by (auto simp: pair_wf_def busy_ids_def)
qed

definition example_frame :: "bytes \<Rightarrow> relay_request option" where
  "example_frame d = (if d = [9] then Some \<lparr>rq_uuid = ''u'', rq_licence_key = ''k''\<rparr> else None)"

definition example_stream :: "nat \<Rightarrow> rstream" where
  "example_stream i = \<lparr>st_id = i, st_ws = False, st_raw = False\<rparr>"

definition example_world :: pair_world where
  "example_world = \<lparr>pw_st = relay_start\<lparr>rl_peers := [(''u'', example_stream 0)]\<rparr>, pw_parking = [], pw_waiting = [''u''],
     pw_sessions = [], pw_seen = [(0, ''k'', ''u'')], pw_next = 1\<rparr>"

lemma example_world_reachable: "pair_reachable example_frame ''k'' example_world"
proof -
  let ?w1 = "(pair_init relay_start)\<lparr>pw_parking := [(''u'', example_stream 0)], pw_seen := [(0, ''k'', ''u'')], pw_next := 1\<rparr>"
  have "pair_step example_frame ''k'' (pair_init relay_start) ?w1"
    using step_unpaired [of "example_stream 0" "pair_init relay_start" "Some [9]" example_frame
        "\<lparr>rq_uuid = ''u'', rq_licence_key = ''k''\<rparr>" "''k''" "SocketAddr (v4_of 5 5 5 5) 50" "''u''" "pw_st (pair_init relay_start)"]
    by (simp add: make_pair_first_def example_stream_def example_frame_def pair_init_def)
  moreover have "pair_step example_frame ''k'' ?w1 example_world"
    using step_park [of ?w1 "[]" "''u''" "example_stream 0" "[]" example_frame "''k''"]
    by (simp add: pair_init_def park_def hput_def example_world_def relay_start_def)
  ultimately show ?thesis
    unfolding pair_reachable_def by (meson converse_rtranclp_into_rtranclp rtranclp.rtrancl_refl)
qed

theorem relay_pairs_matching_witness:
  "st_id (example_stream 0) \<notin> set (session_ids (pw_sessions example_world)) \<and> ''u'' \<in> set (pw_waiting example_world)"
  using relay_pairs_matching [OF example_world_reachable] by (simp add: example_world_def relay_start_def hget_def)

text \<open>
  Two requests meet: when a first connection asks for an identifier no one waits under and
  parks its stream, and nothing else happens to that identifier, the next connection that asks
  for it is paired with it, and both go over to raw traffic exactly when neither is a websocket.
\<close>

theorem two_requests_meet:
  assumes "Option.bind frame1 parse = Some rf1" "Option.bind frame2 parse = Some rf2"
    and "rq_uuid rf1 = uid" "rq_uuid rf2 = uid" "uid \<noteq> []"
    and "key = [] \<or> rq_licence_key rf1 = key \<and> rq_licence_key rf2 = key"
    and "hget (rl_peers st) uid = None" "\<not> st_raw s1" "\<not> st_raw s2"
    and "hget (rl_peers st2) uid = hget (rl_peers (park uid s1 (snd (make_pair_first parse key addr1 frame1 s1 st)))) uid"
  shows "fst (make_pair_first parse key addr1 frame1 s1 st) = Unpaired uid \<and>
    (\<exists>sid a b. fst (make_pair_first parse key addr2 frame2 s2 st2) = Paired sid a b \<and>
       st_id a = st_id s2 \<and> st_id b = st_id s1 \<and>
       st_raw a = (\<not> st_ws s1 \<and> \<not> st_ws s2) \<and> st_raw b = (\<not> st_ws s1 \<and> \<not> st_ws s2) \<and>
       hget (rl_peers (snd (make_pair_first parse key addr2 frame2 s2 st2))) uid = None)"
  using assms by (auto simp: make_pair_first_def park_def set_raw_def Let_def)

theorem two_requests_meet_witness:
  "\<exists>sid a b. fst (make_pair_first example_frame ''k'' (SocketAddr (v4_of 6 6 6 6) 60) (Some [9]) (example_stream 2) (pw_st example_world)) =
     Paired sid a b \<and> st_id a = 2 \<and> st_id b = 0"
  using two_requests_meet [of "Some [9]" example_frame "\<lparr>rq_uuid = ''u'', rq_licence_key = ''k''\<rparr>" "Some [9]"
      "\<lparr>rq_uuid = ''u'', rq_licence_key = ''k''\<rparr>" "''u''" "''k''" relay_start "example_stream 0" "example_stream 2"
      "pw_st example_world" "SocketAddr (v4_of 5 5 5 5) 50" "SocketAddr (v4_of 6 6 6 6) 60"]
  by (auto simp: example_frame_def example_stream_def example_world_def relay_start_def make_pair_first_def park_def hget_def hput_def)

text \<open>
  The two lists are consulted under different names: a connection that arrives over IPv6 with
  an IPv4 address in it is turned away under its IPv4 form, but a running session is checked
  under the IPv6 form, so that an IPv4 address on a list never stops or slows a session.
\<close>

theorem lists_miss_mapped_addresses:
  assumes "drop_bit 32 w = (0xFFFF :: 128 word)" "into_v4 (SocketAddr (V6 w) p) = SocketAddr (V4 (ucast w)) p"
    and "show_ip (V4 (ucast w)) \<in> rl_blocklist st"
    and "\<forall>x \<in> rl_blocklist st \<union> rl_blacklist st. \<exists>a. x = show_ip (V4 a)"
  shows "handle_connection into_v4 (SocketAddr (V6 w) p) True st = Dropped \<and>
    relay_ip (SocketAddr (V6 w) p) \<notin> rl_blocklist st \<union> rl_blacklist st"
proof -
  have digits: "CHR '':'' \<notin> set (show_nat n)" for n
    using show_nat_digits [of "CHR '':''" n] by auto
  have "CHR '':'' \<notin> set (show_v4 a)" for a
    using digits by (simp add: show_v4_def octets_def del: show_nat.simps)
  then have "''::ffff:'' @ show_v4 (ucast w) \<noteq> show_v4 a" for a
    by (metis Un_iff list.set_intros(1) set_append)
  with assms show ?thesis
    by (auto simp: handle_connection_def relay_ip_def show_v6_def)
qed

definition example_mapped :: "128 word" where
  "example_mapped = 0xFFFF07070707"

lemma example_mapped_v4: "V4 (ucast example_mapped) = v4_of 7 7 7 7"
  by (simp add: example_mapped_def v4_of_def)

theorem lists_miss_mapped_addresses_witness:
  "relay_ip (SocketAddr (V6 example_mapped) 80) \<notin>
     rl_blocklist (relay_start\<lparr>rl_blocklist := {show_ip (v4_of 7 7 7 7)}\<rparr>) \<union> rl_blacklist relay_start"
proof -
  have "drop_bit 32 example_mapped = (0xFFFF :: 128 word)" by (simp add: example_mapped_def)
  from lists_miss_mapped_addresses [OF this, of "\<lambda>a. SocketAddr (V4 (ucast example_mapped)) (sa_port a)" 80
      "relay_start\<lparr>rl_blocklist := {show_ip (v4_of 7 7 7 7)}\<rparr>"]
  show ?thesis using example_mapped_v4 by (auto simp: relay_start_def v4_of_def)
qed

text \<open>
  C38. Two ends that come at the same moment miss each other: both find no one waiting, since the
  look-up and the moment a stream is put into the map are two critical sections, and the
  second to park replaces the first in the map, which closes that one. No session comes about,
  although both asked for the same identifier with the right key.
\<close>

theorem simultaneous_requests_miss:
  fixes s1 s2 :: rstream
  assumes "Option.bind frame1 parse = Some rf1" "Option.bind frame2 parse = Some rf2"
    and "rq_uuid rf1 = uid" "rq_uuid rf2 = uid" "uid \<noteq> []"
    and "key = [] \<or> rq_licence_key rf1 = key \<and> rq_licence_key rf2 = key" "st_id s1 = 0" "st_id s2 = Suc 0"
  shows "\<exists>w. pair_reachable parse key w \<and> asked key (pw_seen w) (st_id s1) uid \<and> asked key (pw_seen w) (st_id s2) uid \<and>
    pw_sessions w = [] \<and> pw_parking w = [] \<and> pw_waiting w = [uid, uid] \<and>
    (\<forall>u s. hget (rl_peers (pw_st w)) u = Some s \<longleftrightarrow> u = uid \<and> s = s2)"
proof -
  let ?st = "relay_start\<lparr>rl_peers := []\<rparr>"
  let ?seen1 = "[(0, rq_licence_key rf1, uid)]" and ?seen2 = "[(Suc 0, rq_licence_key rf2, uid), (0, rq_licence_key rf1, uid)]"
  let ?w = "\<lambda>st pk wt seen n. \<lparr>pw_st = st, pw_parking = pk, pw_waiting = wt, pw_sessions = [], pw_seen = seen, pw_next = n\<rparr>"
  have keys: "key = [] \<or> rq_licence_key rf1 = key" "key = [] \<or> rq_licence_key rf2 = key" using assms(6) by auto
  have none: "make_pair_first parse key addr frame s ?st = (Unpaired uid, ?st)"
    if "Option.bind frame parse = Some rf" "rq_uuid rf = uid" "key = [] \<or> rq_licence_key rf = key" for frame rf addr s
    using that assms(5) by (auto simp: make_pair_first_def)
  have "(pair_step parse key)\<^sup>*\<^sup>* (pair_init relay_start) (?w ?st [] [] [] 0)" by (simp add: pair_init_def)
  also have "pair_step parse key \<dots> (?w ?st [(uid, s1)] [] ?seen1 (Suc 0))"
    using step_unpaired [of s1 "?w ?st [] [] [] 0" frame1 parse rf1 key _ uid ?st] none [OF assms(1,3) keys(1)] assms(1,3,7) by simp
  also have "pair_step parse key \<dots> (?w ?st [(uid, s2), (uid, s1)] [] ?seen2 (Suc (Suc 0)))"
    using step_unpaired [of s2 "?w ?st [(uid, s1)] [] ?seen1 (Suc 0)" frame2 parse rf2 key _ uid ?st] none [OF assms(2,4) keys(2)]
      assms(2,4,8) by simp
  also have "pair_step parse key \<dots> (?w (park uid s1 ?st) [(uid, s2)] [uid] ?seen2 (Suc (Suc 0)))"
    using step_park [of "?w ?st [(uid, s2), (uid, s1)] [] ?seen2 (Suc (Suc 0))" "[(uid, s2)]" uid s1 "[]"] by simp
  also have "pair_step parse key \<dots> (?w (park uid s2 (park uid s1 ?st)) [] [uid, uid] ?seen2 (Suc (Suc 0)))"
    using step_park [of "?w (park uid s1 ?st) [(uid, s2)] [uid] ?seen2 (Suc (Suc 0))" "[]" uid s2 "[]"] by simp
  finally have "pair_reachable parse key (?w (park uid s2 (park uid s1 ?st)) [] [uid, uid] ?seen2 (Suc (Suc 0)))"
    unfolding pair_reachable_def by blast
  with keys assms(7,8) show ?thesis
    by (intro exI [of _ "?w (park uid s2 (park uid s1 ?st)) [] [uid, uid] ?seen2 (Suc (Suc 0))"])
       (auto simp: asked_def park_def)
qed

theorem simultaneous_requests_miss_witness:
  "\<exists>w. pair_reachable example_frame ''k'' w \<and> pw_sessions w = [] \<and> pw_waiting w = [''u'', ''u''] \<and>
     hget (rl_peers (pw_st w)) ''u'' = Some (example_stream 1)"
  using simultaneous_requests_miss [of "Some [9]" example_frame "\<lparr>rq_uuid = ''u'', rq_licence_key = ''k''\<rparr>" "Some [9]"
      "\<lparr>rq_uuid = ''u'', rq_licence_key = ''k''\<rparr>" "''u''" "''k''" "example_stream 0" "example_stream 1"]
  by (force simp: example_frame_def example_stream_def)

end
