(* ===== verification/Relay_Streams.thy ===== *)
theory Relay_Streams
  imports Relay_Pairs
begin

text \<open>
  The streams and the main loop of the relay server, \<^verbatim>\<open>src/src/relay_server.rs\<close> (\<^verbatim>\<open>StreamTrait\<close>,
  \<^verbatim>\<open>io_loop\<close>, the loop of \<^verbatim>\<open>start_with_bind\<close>): what a session sees of a plain and of a websocket
  connection, and what becomes of connections while listeners fail and are opened again.
\<close>

section \<open>Streams\<close>

text \<open>What comes in on a websocket: a binary message, any other frame, an error, the end; and on a
  framed TCP stream.\<close>

datatype ws_item = WsData bytes | WsControl | WsBroken | WsClosed

datatype framed_item = FrameData bytes | FrameBroken | FrameClosed

definition ws_stream_recv :: "ws_item \<Rightarrow> (unit + bytes) option" where
  "ws_stream_recv it =
     (case it of WsData b \<Rightarrow> Some (Inr b) | WsControl \<Rightarrow> Some (Inr []) | WsBroken \<Rightarrow> Some (Inl ()) | WsClosed \<Rightarrow> None)"

definition framed_recv :: "framed_item \<Rightarrow> (unit + bytes) option" where
  "framed_recv it = (case it of FrameData b \<Rightarrow> Some (Inr b) | FrameBroken \<Rightarrow> Some (Inl ()) | FrameClosed \<Rightarrow> None)"

definition ws_send_raw :: "bytes \<Rightarrow> ws_item" where
  "ws_send_raw b = WsData b"

text \<open>How the loop of a session takes it.\<close>

definition recv_event :: "side \<Rightarrow> (unit + bytes) option \<Rightarrow> relay_event" where
  "recv_event d r = Received d (case r of Some (Inr b) \<Rightarrow> Some b | _ \<Rightarrow> None)"

datatype stream_event = FromWs side ws_item | FromTcp side framed_item | ThreeSeconds

definition session_event :: "stream_event \<Rightarrow> relay_event" where
  "session_event ev =
     (case ev of
        FromWs d it \<Rightarrow> recv_event d (ws_stream_recv it)
      | FromTcp d it \<Rightarrow> recv_event d (framed_recv it)
      | ThreeSeconds \<Rightarrow> Tick)"

fun payload :: "side \<Rightarrow> (stream_event \<times> 'a) list \<Rightarrow> bytes" where
  "payload d [] = []"
| "payload d ((ev, _) # rest) =
     (case ev of
        FromWs d' (WsData b) \<Rightarrow> if d' = d then b else []
      | FromTcp d' (FrameData b) \<Rightarrow> if d' = d then b else []
      | _ \<Rightarrow> []) @ payload d rest"

section \<open>The main loop\<close>

datatype relay_io_event = Connected bool sockaddr | AcceptError

text \<open>An error of any listener ends the loop; all listeners are opened again and the loop begins
  anew, with its settings read again and a new limiter. What other tasks share with it stays.\<close>

fun relay_main ::
  "environ \<Rightarrow> (sockaddr \<Rightarrow> sockaddr) \<Rightarrow> relay_io_event list \<Rightarrow> relay_state \<Rightarrow> (accepted \<times> sockaddr) list \<times> relay_state" where
  "relay_main env into_v4 [] st = ([], st)"
| "relay_main env into_v4 (Connected ws addr # evs) st =
     (let (acc, st') = relay_main env into_v4 evs st in ((handle_connection into_v4 addr ws st, addr) # acc, st'))"
| "relay_main env into_v4 (AcceptError # evs) st = relay_main env into_v4 evs (io_loop_start env st)"

section \<open>Lemmas\<close>

lemma received_payload: "received_from d (map (\<lambda>(ev, i). (session_event ev, i)) xs) = payload d xs"
proof (induction d xs rule: payload.induct)
  case (2 d ev i rest)
  then show ?case
    by (auto simp: session_event_def recv_event_def ws_stream_recv_def framed_recv_def
        split: stream_event.split ws_item.split framed_item.split)
qed simp

lemma check_params_keeps:
  "rl_peers (check_params env st) = rl_peers st" "rl_usage (check_params env st) = rl_usage st"
  "rl_blacklist (check_params env st) = rl_blacklist st" "rl_blocklist (check_params env st) = rl_blocklist st"
  by (simp_all add: check_params_def Let_def)

section \<open>Properties\<close>

text \<open>
  Between any two kinds of streams a running session passes on exactly the payload: the binary
  messages of a websocket and the data of a TCP stream, in order and nothing else. A control frame
  of a websocket carries nothing over, but counts as a sign of life.
\<close>

theorem session_passes_payload:
  assumes "relay ip sid th (map (\<lambda>(ev, i). (session_event ev, i)) xs) (session_start t) = (outs, Inr sn)"
  shows "sent_to (other_side d) outs = payload d xs \<and>
    (case relay_round ip sid th (session_event (FromWs d WsControl)) now later sent sn st of
       (outs', r, _) \<Rightarrow> sent_to Peer_Side outs' = [] \<and> sent_to Stream_Side outs' = [] \<and>
         (case r of Inr sn' \<Rightarrow> sn_last_recv sn' = now \<and> sn_total sn' = sn_total sn | Inl e \<Rightarrow> e = Closed))"
proof -
  have "sent_to (other_side d) outs = payload d xs"
    using relay_run_total [OF assms, of d] by (simp add: received_payload)
  moreover have "case relay_round ip sid th (session_event (FromWs d WsControl)) now later sent sn st of
       (outs', r, _) \<Rightarrow> sent_to Peer_Side outs' = [] \<and> sent_to Stream_Side outs' = [] \<and>
         (case r of Inr sn' \<Rightarrow> sn_last_recv sn' = now \<and> sn_total sn' = sn_total sn | Inl e \<Rightarrow> e = Closed)"
    by (auto simp: relay_round_def session_event_def recv_event_def ws_stream_recv_def receive_def account_def Let_def
        split: option.split)
  ultimately show ?thesis by blast
qed

theorem session_passes_payload_witness:
  "sent_to Stream_Side (fst (relay [] [] 0
      (map (\<lambda>(ev, i). (session_event ev, i)) [(FromWs Peer_Side (WsData [1, 2]), 5, 6, True, relay_start),
         (FromWs Peer_Side WsControl, 7, 8, True, relay_start)]) (session_start 0))) = [1, 2]"
proof -
  let ?xs = "[(FromWs Peer_Side (WsData [1, 2]), 5, 6, True, relay_start), (FromWs Peer_Side WsControl, 7, 8, True, relay_start)]"
  obtain outs r where run: "relay [] [] 0 (map (\<lambda>(ev, i). (session_event ev, i)) ?xs) (session_start 0) = (outs, r)"
    by fastforce
  moreover have "\<exists>sn. r = Inr sn"
    using run by (auto simp: session_event_def recv_event_def ws_stream_recv_def relay_round_def receive_def account_def
        session_start_def elapsed_millis_def Let_def)
  ultimately obtain sn where "relay [] [] 0 (map (\<lambda>(ev, i). (session_event ev, i)) ?xs) (session_start 0) = (outs, Inr sn)"
    by auto
  from session_passes_payload [OF this, of Peer_Side] this show ?thesis by (simp add: other_side_def)
qed

text \<open>Failures of listeners lose no one: those who wait, the sessions and the lists are as before.\<close>

theorem relay_main_keeps:
  assumes "relay_main env into_v4 evs st = (acc, st')"
  shows "rl_peers st' = rl_peers st \<and> rl_usage st' = rl_usage st \<and> rl_blacklist st' = rl_blacklist st \<and>
    rl_blocklist st' = rl_blocklist st"
  using assms
proof (induction env into_v4 evs st arbitrary: acc rule: relay_main.induct)
  case (2 env into_v4 ws addr evs st)
  then show ?case by (auto simp: Let_def split: prod.splits)
next
  case (3 env into_v4 evs st)
  then show ?case by (auto simp: io_loop_start_def Let_def check_params_keeps)
qed simp

end
