(* ===== verification/End_To_End.thy ===== *)
theory End_To_End
  imports Rendezvous_Main Key_Tools Relay_Streams
begin

text \<open>
  Lemmas for what the two servers do together: how a request for a relay and the answer to it
  pass through the rendezvous server, and which key the servers of one folder go by.
\<close>

section \<open>A relay request and its answer\<close>

lemma fill_pk_frame:
  assumes "fill_pk su i cf rr sv = (rr', sv')"
  shows "sv_tcp_punch sv' = sv_tcp_punch sv" "sv_ws sv' = sv_ws sv" "rr_rest rr' = rr_rest rr"
    "rr_socket_addr rr' = rr_socket_addr rr" "rr_relay_server rr' = rr_relay_server rr"
  using assms
  by (auto simp: fill_pk_def Let_def dest!: get_pk_frame split: rr_union.splits if_splits prod.splits)

lemma fill_relay_frame:
  assumes "fill_relay su i cf a b rr sv = (rr', sv')"
  shows "sv_tcp_punch sv' = sv_tcp_punch sv" "sv_ws sv' = sv_ws sv" "rr_rest rr' = rr_rest rr"
    "rr_socket_addr rr' = rr_socket_addr rr" "rr_union rr' = rr_union rr"
  using assms get_relay_server_frame [of su i "sa_ip a" "sa_ip b" sv]
  by (auto simp: fill_relay_def Let_def split: if_splits prod.splits)

text \<open>The answer of a device to a relay request: who gets it and what is in it.\<close>

lemma relay_response_to_route:
  assumes "server_wf su sv" "handle_relay_response su i cf rr addr sv = (outs, sv')"
    and "su_into_v4 su (su_unmangle su (rr_socket_addr rr)) = a" "hget (ws_peers (sv_ws sv)) a = None"
  shows "\<exists>rr'. outs = send_to_sink (hget (sv_tcp_punch sv) a) (RelayResponse rr') \<and> rr_rest rr' = rr_rest rr \<and>
      rr_socket_addr rr' = [] \<and>
      (\<forall>pid. rr_union rr = RrId pid \<and> pid \<noteq> [] \<longrightarrow> rr_union rr' = RrPk (fst (get_pk su i cf (rr_version rr) pid sv)))"
    and "hget (sv_tcp_punch sv') a = None"
proof -
  obtain rr1 sv1 where f1: "fill_pk su i cf (rr\<lparr>rr_socket_addr := []\<rparr>) sv = (rr1, sv1)" by fastforce
  obtain rr2 sv2 where f2: "fill_relay su i cf addr (su_unmangle su (rr_socket_addr rr)) rr1 sv1 = (rr2, sv2)" by fastforce
  note frame = fill_pk_frame [OF f1] fill_relay_frame [OF f2]
  have "server_wf su (snd (fill_pk su i cf r sv))" for r
    using assms(1) get_pk_wf [OF assms(1), of i cf] by (simp add: fill_pk_def Let_def case_prod_beta split: rr_union.split)
  from this [of "rr\<lparr>rr_socket_addr := []\<rparr>"] f1 have wf1: "server_wf su sv1" by simp
  have "server_wf su (snd (fill_relay su i cf addr b r sv1))" for b r
    using wf1 get_relay_server_wf [OF wf1, of i] by (simp add: fill_relay_def Let_def case_prod_beta)
  from this [of "su_unmangle su (rr_socket_addr rr)" rr1] f2 have wf2: "server_wf su sv2" by simp
  have out: "(outs, sv') = (send_to_sink (hget (sv_tcp_punch sv) a) (RelayResponse rr2),
      sv2\<lparr>sv_tcp_punch := hdel a (sv_tcp_punch sv2)\<rparr>)"
    using assms(2-4) frame by (simp add: handle_relay_response_def f1 f2 send_to_tcp_wf [OF wf2])
  have "rr_union rr1 = RrPk (fst (get_pk su i cf (rr_version rr) pid sv))" if "rr_union rr = RrId pid" "pid \<noteq> []" for pid
    using f1 that by (auto simp: fill_pk_def Let_def split: prod.splits)
  with out frame show "\<exists>rr'. outs = send_to_sink (hget (sv_tcp_punch sv) a) (RelayResponse rr') \<and> rr_rest rr' = rr_rest rr \<and>
      rr_socket_addr rr' = [] \<and>
      (\<forall>pid. rr_union rr = RrId pid \<and> pid \<noteq> [] \<longrightarrow> rr_union rr' = RrPk (fst (get_pk su i cf (rr_version rr) pid sv)))"
    by (intro exI [of _ rr2]) simp
  show "hget (sv_tcp_punch sv') a = None" using out by simp
qed

lemma request_relay_passed_on:
  assumes "server_wf su sv" "su_parse su data = Some (RequestRelay rf)"
    and "handle_tcp su i cf data (Some k) addr key False None sv = (stay, [QueueUdp m to], s', sv1)"
  shows "m = RequestRelay (rf\<lparr>rf_socket_addr := su_mangle su addr\<rparr>)"
    "\<exists>p. get_in_memory (sv_pm sv) (rf_id rf) = Some p \<and> to = socket_addr p"
    "hget (sv_tcp_punch sv1) (su_into_v4 su addr) = Some k" "stay"
proof -
  let ?sv0 = "sv\<lparr>sv_tcp_punch := hput (su_into_v4 su addr) k (sv_tcp_punch sv)\<rparr>"
  have wf0: "server_wf su ?sv0" using assms(1) by (simp add: server_wf_def)
  have run: "(case get_in_memory (sv_pm sv) (rf_id rf) of
      None \<Rightarrow> (True, [], None, ?sv0)
    | Some p \<Rightarrow> (case hget (ws_peers (sv_ws sv)) (su_into_v4 su (socket_addr p)) of
        Some c \<Rightarrow> (True, [PushWs c (RequestRelay (rf\<lparr>rf_socket_addr := su_mangle su addr\<rparr>))], None, ?sv0)
      | None \<Rightarrow> (True, [QueueUdp (RequestRelay (rf\<lparr>rf_socket_addr := su_mangle su addr\<rparr>)) (socket_addr p)], None, ?sv0))) =
      (stay, [QueueUdp m to], s', sv1)"
    using assms(2,3) by (auto simp: handle_tcp_def keep_route_def push_ws_wf [OF wf0] Let_def split: option.splits)
  then show "m = RequestRelay (rf\<lparr>rf_socket_addr := su_mangle su addr\<rparr>)"
    "\<exists>p. get_in_memory (sv_pm sv) (rf_id rf) = Some p \<and> to = socket_addr p"
    "hget (sv_tcp_punch sv1) (su_into_v4 su addr) = Some k" "stay"
    by (auto split: option.splits)
qed

text \<open>Neither the key of the server nor a login is asked for.\<close>

lemma request_relay_outcome:
  assumes "server_wf su sv" "own_conn su addr wc sv" "su_parse su data = Some (RequestRelay rf)"
    and "get_in_memory (sv_pm sv) (rf_id rf) = Some p"
  shows "fst (snd (handle_tcp su i cf data s addr key ws wc sv)) =
    [case hget (ws_peers (sv_ws (snd (keep_route su addr wc s sv)))) (su_into_v4 su (socket_addr p)) of
       Some c \<Rightarrow> PushWs c (RequestRelay (rf\<lparr>rf_socket_addr := su_mangle su addr\<rparr>))
     | None \<Rightarrow> QueueUdp (RequestRelay (rf\<lparr>rf_socket_addr := su_mangle su addr\<rparr>)) (socket_addr p)]"
proof -
  obtain s1 sv1 where k: "keep_route su addr wc s sv = (s1, sv1)" by fastforce
  have wf: "server_wf su sv1" using keep_route_wf [OF assms(1,2), of s] k by simp
  have "sv_pm sv1 = sv_pm sv" using k by (auto simp: keep_route_def split: option.splits)
  with assms(3,4) k show ?thesis by (simp add: handle_tcp_def push_ws_wf [OF wf] split: option.split)
qed

section \<open>The key of a folder\<close>

lemma folder_key:
  assumes "s \<in> {''-'', ''_''}" "\<And>b. ko_decode ko s = Some b \<Longrightarrow> length b \<noteq> 64"
  shows "get_server_sk ko (Inr (kt, sec)) s = Inr (kt, Some sec)" "relay_get_server_sk ko (Inr (kt, sec)) s = Inr kt"
  using assms by (auto simp: get_server_sk_def relay_get_server_sk_def SECRETKEYBYTES_def split: option.split)

section \<open>Properties\<close>

text \<open>
  C37. A request for a relay is checked by no one: with whatever key the server asks for and whether
  or not a login is required, a relay request without either is passed on to the device it names, if
  that is in memory: to the websocket that is registered under its address, whose task is running,
  or else by UDP to that address, as if it were the continuation of a request that was let through.
\<close>

theorem relay_request_unchecked:
  assumes "server_wf su sv" "own_conn su addr wc sv" "su_parse su data = Some (RequestRelay rf)"
    and "get_in_memory (sv_pm sv) (rf_id rf) = Some p"
    and "handle_tcp su i cf data s addr key ws wc (sv\<lparr>sv_must_login := login\<rparr>) = (stay, outs, s', sv')"
  shows "outs = [case hget (ws_peers (sv_ws sv')) (su_into_v4 su (socket_addr p)) of
       Some c \<Rightarrow> PushWs c (RequestRelay (rf\<lparr>rf_socket_addr := su_mangle su addr\<rparr>))
     | None \<Rightarrow> QueueUdp (RequestRelay (rf\<lparr>rf_socket_addr := su_mangle su addr\<rparr>)) (socket_addr p)] \<and>
    (\<forall>a c. hget (ws_peers (sv_ws sv')) a = Some c \<longrightarrow> (c, a) \<in> set (ws_tasks (sv_ws sv')))"
proof -
  let ?sv = "sv\<lparr>sv_must_login := login\<rparr>"
  have wf: "server_wf su ?sv" "own_conn su addr wc ?sv"
    using assms(1,2) by (auto simp: server_wf_def own_conn_def split: option.split)
  obtain s1 sv1 where k: "keep_route su addr wc s ?sv = (s1, sv1)" by fastforce
  have wf1: "server_wf su sv1" using keep_route_wf [OF wf, of s] k by simp
  have "sv_pm sv1 = sv_pm sv" using k by (auto simp: keep_route_def split: option.splits)
  with assms(3,4,5) k have "sv' = sv1" by (auto simp: handle_tcp_def push_ws_wf [OF wf1] Let_def split: option.splits)
  moreover have "ws_wf (sv_ws sv1)" using wf1 by (simp add: server_wf_def)
  ultimately show ?thesis
    using request_relay_outcome [OF wf assms(3), of p i cf s key ws] assms(4,5) k by (simp add: ws_wf_def)
qed


definition example_unasked :: "(ipaddr \<times> nat) surroundings" where
  "example_unasked = example_su\<lparr>su_parse := (\<lambda>d. Some (RequestRelay \<lparr>rf_id = ''123456'', rf_socket_addr = [], rf_rest = []\<rparr>))\<rparr>"

theorem relay_request_unchecked_witness:
  "fst (snd (handle_tcp example_unasked example_in example_cf [] None addr_a ''server'' False None
     (example_sv\<lparr>sv_must_login := True\<rparr>))) =
   [QueueUdp (RequestRelay \<lparr>rf_id = ''123456'', rf_socket_addr = [5, 5, 5, 5, 50], rf_rest = []\<rparr>) addr_b]"
proof -
  let ?rf = "\<lparr>rf_id = ''123456'', rf_socket_addr = [], rf_rest = []\<rparr>"
  obtain stay outs s' sv' where h: "handle_tcp example_unasked example_in example_cf [] None addr_a ''server'' False None
      (example_sv\<lparr>sv_must_login := True\<rparr>) = (stay, outs, s', sv')" by (metis prod.collapse)
  have wf: "server_wf example_unasked example_sv" using example_sv_wf by (simp add: server_wf_def example_unasked_def)
  have parts: "own_conn example_unasked addr_a None example_sv" "su_parse example_unasked [] = Some (RequestRelay ?rf)"
    "get_in_memory (sv_pm example_sv) ''123456'' = Some example_peer"
    by (simp_all add: own_conn_def example_unasked_def get_in_memory_def example_sv_def hget_def)
  have "sv_ws sv' = ws_empty"
    using h by (auto simp: handle_tcp_def keep_route_def push_ws_def push_to_ws_peer_def example_unasked_def example_defs
        get_in_memory_def ws_empty_def hget_def Let_def)
  moreover have "su_mangle example_unasked addr_a = [5, 5, 5, 5, 50]"
    by (simp add: example_unasked_def example_su_def example_mangle_def addr_a_def v4_of_def)
  ultimately show ?thesis
    using relay_request_unchecked [OF wf parts(1,2) _ h] parts(3) h
    by (simp add: ws_empty_def hget_def example_peer_def)
qed

end
