(* ===== verification/Db_Open.thy ===== *)
theory Db_Open
  imports Peer_Store
begin

text \<open>
  How the table of peers is opened, \<^verbatim>\<open>src/src/database.rs\<close> (\<^verbatim>\<open>Database::new\<close>, \<^verbatim>\<open>create_tables\<close>, the
  manager of the pool) and \<^verbatim>\<open>PeerMap::new\<close>. What the URL of the table means to \<^verbatim>\<open>sqlx\<close>, and for which
  sizes a pool of \<^verbatim>\<open>deadpool\<close> has nothing to give and lets its caller wait, are parameters.
\<close>

section \<open>The file of the table\<close>

text \<open>A file that is not there, an empty one (a database without tables), something else, or the
  table of peers with or without its index on the ids.\<close>

datatype db_file = NoFile | Blank | Garbage | Stored "db_row list" bool

record db_disk =
  dd_file :: "string \<Rightarrow> db_file"
  dd_creatable :: "string \<Rightarrow> bool"

datatype db_opened = Hangs | Panics | Fails | Opened database

record db_ops =
  dq_path :: "string \<Rightarrow> string option"
  dq_waits :: "nat \<Rightarrow> bool"

text \<open>\<^verbatim>\<open>MAX_DATABASE_CONNECTIONS\<close>.\<close>

definition max_connections :: "environ \<Rightarrow> nat" where
  "max_connections env =
     (case parse_u64 (get_arg_or env ''MAX_DATABASE_CONNECTIONS'' ''1'') of Some n \<Rightarrow> n | None \<Rightarrow> 1)"

text \<open>A connection of the pool: its URL has to be understood, and its file has to be there.\<close>

definition db_connect :: "db_ops \<Rightarrow> string \<Rightarrow> db_disk \<Rightarrow> (db_opened + string)" where
  "db_connect dq url disk =
     (case dq_path dq url of
        None \<Rightarrow> Inl Panics
      | Some path \<Rightarrow> if dd_file disk path = NoFile then Inl Fails else Inr path)"

text \<open>The table and its unique index are made if they are not there; an index cannot be made over
  ids that occur twice.\<close>

definition create_tables :: "db_file \<Rightarrow> (db_row list) option" where
  "create_tables f =
     (case f of
        NoFile \<Rightarrow> None
      | Garbage \<Rightarrow> None
      | Blank \<Rightarrow> Some []
      | Stored rows indexed \<Rightarrow> if indexed \<or> distinct (map row_id rows) then Some rows else None)"

definition database_new :: "db_ops \<Rightarrow> environ \<Rightarrow> string \<Rightarrow> db_disk \<Rightarrow> db_opened \<times> db_disk" where
  "database_new dq env url disk =
     (let disk1 = (if dd_file disk url = NoFile \<and> dd_creatable disk url
                   then disk\<lparr>dd_file := (dd_file disk)(url := Blank)\<rparr> else disk)
      in if dq_waits dq (max_connections env) then (Hangs, disk1)
         else (case db_connect dq url disk1 of
                 Inl e \<Rightarrow> (e, disk1)
               | Inr path \<Rightarrow>
                   (case create_tables (dd_file disk1 path) of
                      None \<Rightarrow> (Fails, disk1)
                    | Some rows \<Rightarrow> (Opened rows, disk1\<lparr>dd_file := (dd_file disk1)(path := Stored rows True)\<rparr>))))"

text \<open>\<^verbatim>\<open>PeerMap::new\<close>: no peer in memory yet.\<close>

definition pm_new :: "db_ops \<Rightarrow> environ \<Rightarrow> db_disk \<Rightarrow> peer_map option \<times> db_disk" where
  "pm_new dq env disk =
     (case database_new dq env (db_url env) disk of
        (Opened rows, disk') \<Rightarrow> (Some \<lparr>pm_map = [], pm_db = rows\<rparr>, disk')
      | (_, disk') \<Rightarrow> (None, disk'))"

section \<open>Properties\<close>

definition rows_of :: "db_file \<Rightarrow> db_row list" where
  "rows_of f = (case f of Stored rows _ \<Rightarrow> rows | _ \<Rightarrow> [])"

text \<open>The rows of a file whose index is there have unique ids, as the engine sees to.\<close>

definition file_ok :: "db_file \<Rightarrow> bool" where
  "file_ok f \<longleftrightarrow> (case f of Stored rows indexed \<Rightarrow> distinct (map row_guid rows) \<and> (indexed \<longrightarrow> distinct (map row_id rows)) | _ \<Rightarrow> True)"

lemma create_tables_rows:
  assumes "create_tables f = Some rows" "file_ok f"
  shows "rows = rows_of f" "db_wf rows"
  using assms by (auto simp: create_tables_def rows_of_def file_ok_def db_wf_def split: db_file.splits if_splits)

text \<open>
  Opening the table loses nothing: what is opened are the rows that were stored, none for a file
  that had to be made; they have unique ids and guids, and whenever the table is opened again,
  with whatever size of the pool, the same rows are there and nothing changes.
\<close>

theorem database_reopens:
  assumes "database_new dq env url disk = (Opened rows, disk')" "dq_path dq url = Some path" "file_ok (dd_file disk path)"
    and "\<not> dq_waits dq (max_connections env')"
  shows "rows = rows_of (dd_file disk path) \<and> db_wf rows \<and> database_new dq env' url disk' = (Opened rows, disk')"
proof -
  let ?disk1 = "if dd_file disk url = NoFile \<and> dd_creatable disk url
                   then disk\<lparr>dd_file := (dd_file disk)(url := Blank)\<rparr> else disk"
  have c: "create_tables (dd_file ?disk1 path) = Some rows" and disk': "disk' = ?disk1\<lparr>dd_file := (dd_file ?disk1)(path := Stored rows True)\<rparr>"
    using assms(1,2) by (auto simp: database_new_def db_connect_def Let_def split: if_splits option.splits)
  have ok: "file_ok (dd_file ?disk1 path)" "rows_of (dd_file ?disk1 path) = rows_of (dd_file disk path)"
    using assms(3) by (auto simp: file_ok_def rows_of_def)
  have "dd_file disk' url \<noteq> NoFile \<or> \<not> dd_creatable disk' url" using disk' by auto
  moreover have "dd_file disk' path = Stored rows True" using disk' by simp
  moreover have "disk'\<lparr>dd_file := (dd_file disk')(path := Stored rows True)\<rparr> = disk'" using disk' by simp
  ultimately have "database_new dq env' url disk' = (Opened rows, disk')"
    using assms(2,4) by (auto simp: database_new_def db_connect_def create_tables_def Let_def)
  with create_tables_rows [OF c ok(1)] ok(2) show ?thesis by simp
qed

lemma no_settings: "get_arg_or [] name v = v"
proof -
  have "first_var [] ks = None" for ks by (induction ks) (simp_all add: env_var_def)
  then show ?thesis by (simp add: get_arg_or_def get_arg_opt_def other_aliases_def List.map_filter_def)
qed

lemma max_connections_default: "max_connections [] = 1"
  by (simp add: max_connections_def no_settings text_eval)

theorem database_reopens_witness:
  "database_new \<lparr>dq_path = Some, dq_waits = (\<lambda>n. n = 0)\<rparr> [] ''t''
     (snd (database_new \<lparr>dq_path = Some, dq_waits = (\<lambda>n. n = 0)\<rparr> [] ''t'' \<lparr>dd_file = (\<lambda>_. NoFile), dd_creatable = (\<lambda>_. True)\<rparr>)) =
   (Opened [], snd (database_new \<lparr>dq_path = Some, dq_waits = (\<lambda>n. n = 0)\<rparr> [] ''t'' \<lparr>dd_file = (\<lambda>_. NoFile), dd_creatable = (\<lambda>_. True)\<rparr>))"
proof -
  let ?dq = "\<lparr>dq_path = Some, dq_waits = (\<lambda>n. n = 0)\<rparr>" and ?disk = "\<lparr>dd_file = (\<lambda>_. NoFile), dd_creatable = (\<lambda>_. True)\<rparr>"
  note n = max_connections_default
  have "fst (database_new ?dq [] ''t'' ?disk) = Opened []"
    by (simp add: database_new_def db_connect_def create_tables_def n)
  then have "database_new ?dq [] ''t'' ?disk = (Opened [], snd (database_new ?dq [] ''t'' ?disk))" by (metis prod.collapse)
  from database_reopens [OF this, of "''t''" "[]"] n show ?thesis by (simp add: file_ok_def)
qed

text \<open>
  A pool of no connections: when \<^verbatim>\<open>MAX_DATABASE_CONNECTIONS\<close> is 0, the test of the pool at the start
  waits for a connection that never comes, and the server neither starts nor ends.
\<close>

theorem empty_pool_hangs:
  assumes "dq_waits dq 0" "parse_u64 (get_arg_or env ''MAX_DATABASE_CONNECTIONS'' ''1'') = Some 0"
  shows "fst (database_new dq env url disk) = Hangs" "fst (pm_new dq env disk) = None"
  using assms by (simp_all add: database_new_def pm_new_def max_connections_def Let_def split: prod.split)

end
