(* ===== verification/Peer_Refs.thy ===== *)
theory Peer_Refs
  imports Peer_Store
begin

text \<open>
  The peers in memory as \<^verbatim>\<open>src/src/peer.rs\<close> has them: the map leads from an id to a shared cell
  (\<^verbatim>\<open>Arc<RwLock<Peer>>\<close>), and whoever looked a peer up goes on with the cell. The rest of the development
  works with a map from ids to peers; here each operation on cells is shown to be the operation
  on that map, as long as a look-up is not interrupted between the map and the table. If it is,
  two tasks can end up with different cells for one id.
\<close>

section \<open>Cells\<close>

type_synonym cell = nat

record peer_cells =
  lp_map :: "(string, cell) hmap"
  lp_cell :: "cell \<Rightarrow> peer"
  lp_next :: cell
  lp_db :: database

definition lp_alloc :: "string \<Rightarrow> peer \<Rightarrow> peer_cells \<Rightarrow> cell \<times> peer_cells" where
  "lp_alloc pid p h =
     (lp_next h, h\<lparr>lp_map := hput pid (lp_next h) (lp_map h),
        lp_cell := (lp_cell h)(lp_next h := p), lp_next := Suc (lp_next h)\<rparr>)"

definition lp_write :: "cell \<Rightarrow> peer \<Rightarrow> peer_cells \<Rightarrow> peer_cells" where
  "lp_write c p h = h\<lparr>lp_cell := (lp_cell h)(c := p)\<rparr>"

text \<open>\<^verbatim>\<open>PeerMap::get\<close> in its two parts: the look into the map, and, when nothing is there, the look
  into the table, whose row becomes a new cell under the id.\<close>

definition lp_look :: "string \<Rightarrow> peer_cells \<Rightarrow> cell option" where
  "lp_look pid h = hget (lp_map h) pid"

definition lp_load :: "serde \<Rightarrow> instant \<Rightarrow> bool \<Rightarrow> string \<Rightarrow> peer_cells \<Rightarrow> cell option \<times> peer_cells" where
  "lp_load sd now up pid h =
     (case db_get_peer up (lp_db h) pid of
        Inr (Some r) \<Rightarrow> (let (c, h') = lp_alloc pid (peer_of_row sd now r) h in (Some c, h'))
      | _ \<Rightarrow> (None, h))"

definition lp_get :: "serde \<Rightarrow> instant \<Rightarrow> bool \<Rightarrow> string \<Rightarrow> peer_cells \<Rightarrow> cell option \<times> peer_cells" where
  "lp_get sd now up pid h = (case lp_look pid h of Some c \<Rightarrow> (Some c, h) | None \<Rightarrow> lp_load sd now up pid h)"

definition lp_get_or :: "serde \<Rightarrow> instant \<Rightarrow> bool \<Rightarrow> string \<Rightarrow> peer_cells \<Rightarrow> cell \<times> peer_cells" where
  "lp_get_or sd now up pid h =
     (case lp_get sd now up pid h of
        (Some c, h') \<Rightarrow> (c, h')
      | (None, h') \<Rightarrow> (case lp_look pid h' of Some c \<Rightarrow> (c, h') | None \<Rightarrow> lp_alloc pid (peer_default now) h'))"

text \<open>\<^verbatim>\<open>PeerMap::update_pk\<close> on the cell it is given.\<close>

definition lp_update_pk ::
  "serde \<Rightarrow> instant \<Rightarrow> bool \<Rightarrow> bytes \<Rightarrow> string \<Rightarrow> cell \<Rightarrow> sockaddr \<Rightarrow> bytes \<Rightarrow> bytes \<Rightarrow> string \<Rightarrow> peer_cells
   \<Rightarrow> reg_result \<times> peer_cells" where
  "lp_update_pk sd now up new_guid pid c addr new_uuid new_pk ip h =
     (let w = (lp_cell h c)\<lparr>socket_addr := addr, uuid := new_uuid, pk := new_pk, last_reg_time := now, info_ip := ip\<rparr>;
          h1 = lp_write c w h;
          info_str = sd_print sd ip
      in if guid w = [] then
           (case db_insert_peer up new_guid pid new_uuid new_pk info_str (lp_db h1) of
              (Inl _, _) \<Rightarrow> (SERVER_ERROR, h1)
            | (Inr g, db) \<Rightarrow> (OK, lp_write c ((lp_cell h1 c)\<lparr>guid := g\<rparr>) (h1\<lparr>lp_db := db\<rparr>)))
         else
           (case db_update_pk up (guid w) pid new_pk info_str (lp_db h1) of
              (Inl _, _) \<Rightarrow> (SERVER_ERROR, h1)
            | (Inr _, db) \<Rightarrow> (OK, h1\<lparr>lp_db := db\<rparr>)))"

section \<open>The map they stand for\<close>

definition peers_of :: "peer_cells \<Rightarrow> peer_map" where
  "peers_of h = \<lparr>pm_map = map (\<lambda>(k, c). (k, lp_cell h c)) (lp_map h), pm_db = lp_db h\<rparr>"

text \<open>No two ids share a cell, and cells are handed out in order.\<close>

definition cells_wf :: "peer_cells \<Rightarrow> bool" where
  "cells_wf h \<longleftrightarrow> distinct (map snd (lp_map h)) \<and> (\<forall>c \<in> set (map snd (lp_map h)). c < lp_next h)"

lemma hget_map_val: "hget (map (\<lambda>(k, c). (k, f c)) m) pid = map_option f (hget m pid)"
  by (induction m) (auto simp: hget_def)

lemma hput_map_val: "map (\<lambda>(k, c). (k, f c)) (hput pid c m) = hput pid (f c) (map (\<lambda>(k, c). (k, f c)) m)"
  unfolding hput_def by (induction m) auto

lemma hput_values: "set (map snd (hput k v m)) \<subseteq> insert v (set (map snd m))"
  unfolding hput_def by (induction m) auto

lemma hput_distinct_values: "distinct (map snd m) \<Longrightarrow> v \<notin> set (map snd m) \<Longrightarrow> distinct (map snd (hput k v m))"
proof (induction m)
  case (Cons x m)
  then show ?case using hput_values [of k v m] by (cases x) (auto simp: hput_def)
qed (simp add: hput_def)

lemma peers_of_parts [simp]:
  "hget (pm_map (peers_of h)) pid = map_option (lp_cell h) (lp_look pid h)" "pm_db (peers_of h) = lp_db h"
  by (simp_all add: peers_of_def hget_map_val lp_look_def)

lemma cells_wf_look: "cells_wf h \<Longrightarrow> lp_look pid h = Some c \<Longrightarrow> c < lp_next h"
  unfolding cells_wf_def lp_look_def hget_def by (auto dest!: map_of_SomeD)

lemma alloc_peers:
  assumes "cells_wf h" "lp_alloc pid p h = (c, h')"
  shows "peers_of h' = pm_write pid p (peers_of h)" "cells_wf h'" "lp_cell h' c = p" "lp_look pid h' = Some c"
proof -
  have old: "map (\<lambda>(k, c). (k, ((lp_cell h)(lp_next h := p)) c)) (lp_map h) = map (\<lambda>(k, c). (k, lp_cell h c)) (lp_map h)"
    using assms(1) by (auto simp: cells_wf_def)
  show "peers_of h' = pm_write pid p (peers_of h)"
    using assms(2)
    by (auto simp: lp_alloc_def peers_of_def pm_write_def hput_map_val old fun_upd_same simp del: fun_upd_apply map_eq_conv)
  have "lp_next h \<notin> set (map snd (lp_map h))" using assms(1) by (auto simp: cells_wf_def)
  with assms show "cells_wf h'"
    using hput_distinct_values [of "lp_map h" "lp_next h" pid] hput_values [of pid "lp_next h" "lp_map h"]
    by (fastforce simp: lp_alloc_def cells_wf_def)
qed (use assms(2) in \<open>auto simp: lp_alloc_def lp_look_def\<close>)

lemma write_peers:
  assumes "cells_wf h" "lp_look pid h = Some c"
  shows "peers_of (lp_write c p h) = pm_write pid p (peers_of h)" "cells_wf (lp_write c p h)"
proof -
  have "map (\<lambda>(k, c'). (k, ((lp_cell h)(c := p)) c')) m = AList.update pid p (map (\<lambda>(k, c). (k, lp_cell h c)) m)"
    if "distinct (map snd m)" "map_of m pid = Some c" for m :: "(string \<times> cell) list"
    using that
  proof (induction m)
    case (Cons x m)
    show ?case
    proof (cases "fst x = pid")
      case True
      with Cons.prems show ?thesis by (cases x) force
    next
      case False
      with Cons.prems have "map_of m pid = Some c" by (cases x) auto
      moreover from map_of_SomeD [OF this] have "c \<in> snd ` set m" by force
      with Cons.prems have "snd x \<noteq> c" by auto
      ultimately show ?thesis using Cons False by (cases x) auto
    qed
  qed simp
  from this [of "lp_map h"] assms show "peers_of (lp_write c p h) = pm_write pid p (peers_of h)"
    by (auto simp: cells_wf_def lp_look_def hget_def lp_write_def peers_of_def pm_write_def hput_def simp del: fun_upd_apply)
  show "cells_wf (lp_write c p h)" using assms(1) by (simp add: cells_wf_def lp_write_def)
qed

lemma write_db_peers: "peers_of (h\<lparr>lp_db := db\<rparr>) = (peers_of h)\<lparr>pm_db := db\<rparr>" "cells_wf (h\<lparr>lp_db := db\<rparr>) = cells_wf h"
  by (simp_all add: peers_of_def cells_wf_def)

lemma look_db [simp]: "lp_look pid (h\<lparr>lp_db := db\<rparr>) = lp_look pid h"
  by (simp add: lp_look_def)

lemma look_write [simp]: "lp_look pid (lp_write c p h) = lp_look pid h" "lp_db (lp_write c p h) = lp_db h"
  "lp_cell (lp_write c p h) c = p"
  by (simp_all add: lp_look_def lp_write_def)

lemma get_peers:
  assumes "cells_wf h" "lp_get sd now up pid h = (c, h')"
  shows "pm_get sd now up pid (peers_of h) = (map_option (lp_cell h') c, peers_of h')" "cells_wf h'" "lp_look pid h' = c"
proof -
  have alloc: "peers_of (snd (lp_alloc pid p h)) = pm_write pid p (peers_of h)" "cells_wf (snd (lp_alloc pid p h))"
    "lp_cell (snd (lp_alloc pid p h)) (fst (lp_alloc pid p h)) = p"
    "lp_look pid (snd (lp_alloc pid p h)) = Some (fst (lp_alloc pid p h))" for p
    using alloc_peers [OF assms(1) surjective_pairing, of pid p] by blast+
  have "pm_get sd now up pid (peers_of h) = (map_option (lp_cell h') c, peers_of h') \<and> cells_wf h' \<and> lp_look pid h' = c"
  proof (cases "lp_look pid h")
    case None
    with assms alloc show ?thesis
      by (auto simp: lp_get_def lp_load_def pm_get_def pm_write_def db_get_peer_def Let_def case_prod_beta
          split: option.splits if_splits)
  next
    case (Some c')
    with assms have "c = Some c'" "h' = h" by (simp_all add: lp_get_def)
    with Some assms(1) show ?thesis by (simp add: pm_get_def)
  qed
  then show "pm_get sd now up pid (peers_of h) = (map_option (lp_cell h') c, peers_of h')" "cells_wf h'" "lp_look pid h' = c"
    by blast+
qed

lemma get_or_peers:
  assumes "cells_wf h" "lp_get_or sd now up pid h = (c, h')"
  shows "pm_get_or sd now up pid (peers_of h) = (lp_cell h' c, peers_of h') \<and> cells_wf h' \<and> lp_look pid h' = Some c"
proof -
  obtain r h1 where g: "lp_get sd now up pid h = (r, h1)" by fastforce
  note get = get_peers [OF assms(1) g]
  show ?thesis
  proof (cases r)
    case None
    with assms(2) g get(3) have "lp_alloc pid (peer_default now) h1 = (c, h')" by (simp add: lp_get_or_def)
    from alloc_peers [OF get(2) this] get None show ?thesis by (simp add: pm_get_or_def pm_write_def)
  next
    case (Some c')
    with assms(2) g get show ?thesis by (simp add: lp_get_or_def pm_get_or_def)
  qed
qed

lemma update_peers:
  assumes "cells_wf h" "lp_look pid h = Some c" "lp_update_pk sd now up g pid c addr u k ip h = (res, h')"
  shows "pm_update_pk sd now up g pid (lp_cell h c) addr u k ip (peers_of h) = (res, peers_of h')" "cells_wf h'"
    "lp_look pid h' = Some c"
proof -
  let ?w = "(lp_cell h c)\<lparr>socket_addr := addr, uuid := u, pk := k, last_reg_time := now, info_ip := ip\<rparr>"
  note w = write_peers [OF assms(1,2), of ?w]
  have w2: "peers_of (lp_write c p ((lp_write c ?w h)\<lparr>lp_db := db\<rparr>)) = pm_write pid p ((pm_write pid ?w (peers_of h))\<lparr>pm_db := db\<rparr>)"
    "cells_wf (lp_write c p ((lp_write c ?w h)\<lparr>lp_db := db\<rparr>))" for p db
    using write_peers [of "(lp_write c ?w h)\<lparr>lp_db := db\<rparr>" pid c p] w assms(2) by (simp_all add: write_db_peers)
  have "pm_db (pm_write pid p pm) = pm_db pm" for p pm by (simp add: pm_write_def)
  with assms w w2 show "pm_update_pk sd now up g pid (lp_cell h c) addr u k ip (peers_of h) = (res, peers_of h')" "cells_wf h'"
    "lp_look pid h' = Some c"
    by (auto simp: lp_update_pk_def pm_update_pk_def write_db_peers Let_def split: if_splits prod.splits sum.splits)
qed

section \<open>Properties\<close>

text \<open>
  C17. Shared cells implement the map of peers: looking a peer up, with or without making it, gives
  the cell of the peer that the map would give, the cell a task holds stays the one under its
  id, and registering a key through it is registering it in the map, in memory and in the table,
  with the same answer.
\<close>

theorem cells_refine_map:
  assumes "cells_wf h" "lp_get_or sd now up pid h = (c, h1)"
    and "lp_update_pk sd later up' g pid c addr u k ip h1 = (res, h2)"
  shows "pm_get_or sd now up pid (peers_of h) = (lp_cell h1 c, peers_of h1) \<and>
    pm_update_pk sd later up' g pid (lp_cell h1 c) addr u k ip (peers_of h1) = (res, peers_of h2) \<and>
    cells_wf h2 \<and> lp_get sd now' up'' pid h2 = (Some c, h2) \<and> get_in_memory (peers_of h2) pid = Some (lp_cell h2 c)"
proof -
  note got = get_or_peers [OF assms(1,2)]
  have "lp_look pid h1 = Some c" using got by blast
  from update_peers [OF _ this assms(3)] got show ?thesis by (simp add: lp_get_def get_in_memory_def)
qed

definition example_cells :: peer_cells where
  "example_cells = \<lparr>lp_map = [], lp_cell = (\<lambda>_. peer_default 0), lp_next = 0,
     lp_db = [\<lparr>row_guid = [9], row_id = ''123456'', row_uuid = [3], row_pk = [4], row_info = ''7.7.7.7''\<rparr>]\<rparr>"

lemma example_cells_parts [simp]:
  "lp_map example_cells = []" "lp_next example_cells = 0"
  "lp_db example_cells = [\<lparr>row_guid = [9], row_id = ''123456'', row_uuid = [3], row_pk = [4], row_info = ''7.7.7.7''\<rparr>]"
  "cells_wf example_cells" "lp_look pid example_cells = None" "db_wf (lp_db example_cells)"
  by (simp_all add: example_cells_def cells_wf_def lp_look_def hget_def db_wf_def)

definition example_addr :: sockaddr where
  "example_addr = SocketAddr (v4_of 7 7 7 7) 80"

theorem cells_refine_map_witness:
  "(let (c, h1) = lp_get_or example_serde 1 True ''123456'' example_cells;
        (res, h2) = lp_update_pk example_serde 2 True [8] ''123456'' c example_addr [3] [5] ''7.7.7.7'' h1
    in pm_get_or example_serde 1 True ''123456'' (peers_of example_cells) = (lp_cell h1 c, peers_of h1) \<and>
      get_in_memory (peers_of h2) ''123456'' = Some (lp_cell h2 c) \<and> res = OK \<and> pk (lp_cell h2 c) = [5])"
proof -
  obtain c h1 where g: "lp_get_or example_serde 1 True ''123456'' example_cells = (c, h1)" by fastforce
  obtain res h2 where u: "lp_update_pk example_serde 2 True [8] ''123456'' c example_addr [3] [5] ''7.7.7.7'' h1 = (res, h2)"
    by fastforce
  have "res = OK \<and> pk (lp_cell h2 c) = [5]"
    using g u by (auto simp: lp_get_or_def lp_get_def lp_load_def lp_alloc_def lp_update_pk_def lp_write_def db_get_peer_def
        db_update_pk_def peer_of_row_def Let_def)
  with cells_refine_map [OF _ g u] g u show ?thesis by simp
qed

text \<open>
  C36. Two look-ups that overlap break this: when two tasks look for a stored peer that is not in
  memory before either has loaded it, each gets a cell of its own and only the last one is in the
  map. A key that the first then registers is confirmed and stored, but the server goes on
  answering look-ups with the old one.
\<close>

theorem overlapping_loads_lose_key:
  assumes "cells_wf h" "lp_look pid h = None" "db_wf (lp_db h)" "r \<in> set (lp_db h)" "row_id r = pid" "row_guid r \<noteq> []"
    and "lp_load sd t1 True pid h = (Some c1, h1)" "lp_load sd t2 True pid h1 = (Some c2, h2)"
    and "lp_update_pk sd t3 True g pid c1 addr (row_uuid r) k ip h2 = (res, h3)"
  shows "res = OK \<and> (\<exists>r' \<in> set (lp_db h3). row_id r' = pid \<and> row_pk r' = k) \<and>
    pk (lp_cell h3 c1) = k \<and> get_in_memory (peers_of h3) pid = Some (peer_of_row sd t2 r)"
proof -
  have row: "db_get_peer True (lp_db h) pid = Inr (Some r)"
    using db_find_row [OF assms(3,4)] assms(5) by (simp add: db_get_peer_def)
  have 1: "lp_alloc pid (peer_of_row sd t1 r) h = (c1, h1)"
    using assms(7) row by (auto simp: lp_load_def split: prod.splits)
  then have db1: "lp_db h1 = lp_db h" and n1: "lp_next h1 = Suc c1" "c1 = lp_next h" by (auto simp: lp_alloc_def)
  have 2: "lp_alloc pid (peer_of_row sd t2 r) h1 = (c2, h2)"
    using assms(8) row db1 by (auto simp: lp_load_def split: prod.splits)
  have ne: "c2 \<noteq> c1" and cells: "lp_cell h2 c1 = peer_of_row sd t1 r" "lp_cell h2 c2 = peer_of_row sd t2 r"
    and db2: "lp_db h2 = lp_db h" and look: "lp_look pid h2 = Some c2"
    using 1 2 n1 db1 by (auto simp: lp_alloc_def lp_look_def)
  let ?info = "sd_print sd ip"
  let ?upd = "map (\<lambda>x. if row_guid x = row_guid r then x\<lparr>row_id := pid, row_pk := k, row_info := ?info\<rparr> else x) (lp_db h)"
  have upd: "db_update_pk True (row_guid r) pid k ?info (lp_db h) = (Inr (), ?upd)"
  proof -
    have "\<not> (\<exists>s \<in> set (lp_db h). row_id s = pid \<and> row_guid s \<noteq> row_guid r)"
      using db_row_unique [OF assms(3,4)] assms(5) by metis
    then show ?thesis by (simp add: db_update_pk_def)
  qed
  then have fin: "res = OK" "lp_db h3 = ?upd" "lp_look pid h3 = Some c2" "lp_cell h3 c2 = peer_of_row sd t2 r" "pk (lp_cell h3 c1) = k"
    using assms(6,9) cells ne db2 look
    by (auto simp: lp_update_pk_def peer_of_row_def lp_write_def lp_look_def Let_def)
  have "r\<lparr>row_id := pid, row_pk := k, row_info := ?info\<rparr> \<in> set ?upd" using assms(4) by (auto intro!: image_eqI [of _ _ r])
  with fin show ?thesis by (auto simp: get_in_memory_def intro!: bexI [of _ "r\<lparr>row_id := pid, row_pk := k, row_info := ?info\<rparr>"])
qed

theorem overlapping_loads_lose_key_witness:
  "(let (_, h1) = lp_load example_serde 1 True ''123456'' example_cells;
        (_, h2) = lp_load example_serde 2 True ''123456'' h1;
        (res, h3) = lp_update_pk example_serde 3 True [8] ''123456'' 0 example_addr [3] [5] ''7.7.7.7'' h2
    in res = OK \<and> map row_pk (lp_db h3) = [[5]] \<and> map_option pk (get_in_memory (peers_of h3) ''123456'') = Some [4])"
proof -
  let ?r = "\<lparr>row_guid = [9], row_id = ''123456'', row_uuid = [3], row_pk = [4], row_info = ''7.7.7.7''\<rparr> :: db_row"
  obtain h1 where 1: "lp_load example_serde 1 True ''123456'' example_cells = (Some 0, h1)"
    by (simp add: lp_load_def lp_alloc_def db_get_peer_def)
  then have h1: "lp_next h1 = 1" "lp_db h1 = lp_db example_cells" by (auto simp: lp_load_def lp_alloc_def db_get_peer_def)
  obtain h2 where 2: "lp_load example_serde 2 True ''123456'' h1 = (Some 1, h2)"
    using h1 by (simp add: lp_load_def lp_alloc_def db_get_peer_def)
  obtain res h3 where u: "lp_update_pk example_serde 3 True [8] ''123456'' 0 example_addr [3] [5] ''7.7.7.7'' h2 = (res, h3)"
    by fastforce
  have "map row_pk (lp_db h3) = [[5]]"
    using 1 2 u by (auto simp: lp_load_def lp_alloc_def lp_update_pk_def lp_write_def db_get_peer_def db_update_pk_def
        peer_of_row_def Let_def)
  moreover have "lp_update_pk example_serde 3 True [8] ''123456'' 0 example_addr (row_uuid ?r) [5] ''7.7.7.7'' h2 = (res, h3)"
    using u by simp
  from overlapping_loads_lose_key [OF _ _ _ _ _ _ 1 2 this]
  have "res = OK" "get_in_memory (peers_of h3) ''123456'' = Some (peer_of_row example_serde 2 ?r)"
    using example_cells_parts(6) by simp_all
  ultimately show ?thesis using 1 2 u by (simp add: peer_of_row_def)
qed

end
