(* ===== verification/Process.thy ===== *)
theory Process
  imports Rendezvous_Main
begin

text \<open>
  What ends a server and what runs beside it, \<^verbatim>\<open>src/src/common.rs\<close> (\<^verbatim>\<open>listen_signal\<close>,
  \<^verbatim>\<open>check_software_update\<close>) and the end of \<^verbatim>\<open>start_with_bind\<close> in \<^verbatim>\<open>src/src/rendezvous_server.rs\<close>. The version
  service, the JSON of its answer and the number of a version (\<^verbatim>\<open>hbb_common\<close>) are parameters.
\<close>

section \<open>Signals\<close>

datatype signal_kind = SigTerminate | SigInterrupt | SigQuit | SigOther

definition ends_on :: "signal_kind \<Rightarrow> bool" where
  "ends_on k \<longleftrightarrow> k \<noteq> SigOther"

text \<open>The task installs three handlers, one after the other, and ends with the first signal any of
  them gets, or with an error when one cannot be installed.\<close>

definition handlers_installed :: "(signal_kind \<Rightarrow> bool) \<Rightarrow> bool" where
  "handlers_installed installs \<longleftrightarrow> installs SigTerminate \<and> installs SigInterrupt \<and> installs SigQuit"

definition listen_signal :: "(signal_kind \<Rightarrow> bool) \<Rightarrow> signal_kind list \<Rightarrow> (unit + signal_kind) option" where
  "listen_signal installs sigs =
     (if handlers_installed installs then map_option Inr (List.find ends_on sigs) else Some (Inl ()))"

section \<open>The life of the rendezvous server\<close>

datatype proc_event = Signalled signal_kind | LoopFails loop_failure socket_opens

text \<open>The main loop opens the socket that failed again, and ends with an error when it cannot; it
  never ends by itself otherwise. Whichever of it and the signals comes first ends the server.\<close>

fun main_task :: "ipaddr option \<Rightarrow> int \<Rightarrow> proc_event list \<Rightarrow> sockets \<Rightarrow> (unit + signal_kind) option \<times> sockets" where
  "main_task bind_addr port [] so = (None, so)"
| "main_task bind_addr port (Signalled k # evs) so =
     (if ends_on k then (Some (Inr k), so) else main_task bind_addr port evs so)"
| "main_task bind_addr port (LoopFails f opn # evs) so =
     (case reopen opn bind_addr port f so of
        None \<Rightarrow> (Some (Inl ()), so)
      | Some so' \<Rightarrow> main_task bind_addr port evs so')"

definition hbbs_process ::
  "(signal_kind \<Rightarrow> bool) \<Rightarrow> socket_opens \<Rightarrow> ipaddr option \<Rightarrow> int \<Rightarrow> proc_event list \<Rightarrow> (unit + signal_kind) option" where
  "hbbs_process installs opn bind_addr port evs =
     (case open_sockets opn bind_addr port of
        None \<Rightarrow> Some (Inl ())
      | Some so \<Rightarrow> if handlers_installed installs then fst (main_task bind_addr port evs so) else Some (Inl ()))"

section \<open>The check for a new version\<close>

definition ONE_DAY_IN_SECONDS :: nat where
  "ONE_DAY_IN_SECONDS = 60 * 60 * 24"

text \<open>One check: an error when there is no usable answer, else the version to be announced, if any,
  which is what follows the last slash of the URL in the answer.\<close>

definition latest_release_version :: "string \<Rightarrow> string" where
  "latest_release_version url = last (split_char (CHR ''/'') url)"

definition software_update_once ::
  "(string \<Rightarrow> int) \<Rightarrow> string \<Rightarrow> (bytes \<Rightarrow> string option) \<Rightarrow> bytes option \<Rightarrow> unit + string option" where
  "software_update_once number version url_of reply =
     (case Option.bind reply url_of of
        None \<Rightarrow> Inl ()
      | Some url \<Rightarrow>
          (let latest = latest_release_version url
           in Inr (if number version < number latest then Some latest else None)))"

text \<open>The checks go on day after day, each in a thread of its own, whatever becomes of it.\<close>

definition check_software_update ::
  "(string \<Rightarrow> int) \<Rightarrow> string \<Rightarrow> (bytes \<Rightarrow> string option) \<Rightarrow> bytes option list \<Rightarrow> (nat \<times> string) list" where
  "check_software_update number version url_of replies =
     concat (map (\<lambda>(day, reply).
       case software_update_once number version url_of reply of
         Inr (Some v) \<Rightarrow> [(day * ONE_DAY_IN_SECONDS, v)]
       | _ \<Rightarrow> []) (zip [0..<length replies] replies))"

section \<open>Properties\<close>

fun signals_of :: "proc_event list \<Rightarrow> signal_kind list" where
  "signals_of [] = []"
| "signals_of (Signalled k # evs) = k # signals_of evs"
| "signals_of (LoopFails f opn # evs) = signals_of evs"

text \<open>
  The server runs until it is told to stop: when its sockets can be opened at the start and can be
  opened again whenever one fails, then through any number of failures it is still running, on
  the same sockets, or it has ended with the first signal that asks for it.
\<close>

theorem hbbs_runs_until_signal:
  assumes "open_sockets opn bind_addr port = Some so" "handlers_installed installs"
    and "\<forall>f opn'. LoopFails f opn' \<in> set evs \<longrightarrow> open_sockets opn' bind_addr port = Some so"
  shows "main_task bind_addr port evs so = (map_option Inr (List.find ends_on (signals_of evs)), so) \<and>
    hbbs_process installs opn bind_addr port evs = listen_signal installs (signals_of evs)"
proof -
  have "main_task bind_addr port evs so = (map_option Inr (List.find ends_on (signals_of evs)), so)"
    using assms(3)
  proof (induction evs rule: signals_of.induct)
    case (3 f opn' evs)
    then have "reopen opn' bind_addr port f so = Some so" by (intro reopen_restores) simp
    with 3 show ?case by simp
  qed simp_all
  with assms(1,2) show ?thesis by (simp add: hbbs_process_def listen_signal_def)
qed

theorem hbbs_runs_until_signal_witness:
  "\<exists>so. main_task None 21116 [Signalled SigOther, LoopFails UdpSocket \<lparr>op_udp = (\<lambda>_. True), op_tcp = (\<lambda>_. True), op_console = (\<lambda>_. True)\<rparr>,
     Signalled SigQuit] so = (Some (Inr SigQuit), so)"
proof -
  let ?opn = "\<lparr>op_udp = (\<lambda>_. True), op_tcp = (\<lambda>_. True), op_console = (\<lambda>_. True)\<rparr>"
  have "open_sockets ?opn None 21116 \<noteq> None"
    by (simp add: open_sockets_def create_udp_listener_def create_tcp_listener_def create_console_def
        listen_console_def Let_def split: option.split)
  then obtain so where so: "open_sockets ?opn None 21116 = Some so" by blast
  from hbbs_runs_until_signal [OF this, of "\<lambda>_. True" "[Signalled SigOther, LoopFails UdpSocket ?opn, Signalled SigQuit]"] so
  show ?thesis by (auto simp: handlers_installed_def ends_on_def)
qed

text \<open>A version is announced when the last part of the URL is a newer one, whatever comes before.\<close>

lemma split_after_sep:
  "\<exists>xs. xs \<noteq> [] \<and> split_char (CHR ''/'') (base @ ''/'' @ v) = xs @ split_char (CHR ''/'') v"
proof (induction base)
  case Nil
  show ?case by (rule exI [of _ "[[]]"]) (simp add: split_char_def)
next
  case (Cons c base)
  then obtain x xs where xs: "split_char (CHR ''/'') (base @ ''/'' @ v) = (x # xs) @ split_char (CHR ''/'') v"
    by (metis list.exhaust)
  show ?case
  proof (cases "c = CHR ''/''")
    case True
    with xs show ?thesis by (intro exI [of _ "[] # x # xs"]) (simp add: split_char_def)
  next
    case False
    with xs show ?thesis by (intro exI [of _ "(c # x) # xs"]) (simp add: split_char_def)
  qed
qed

lemma latest_release_version_last:
  assumes "CHR ''/'' \<notin> set v"
  shows "latest_release_version (base @ ''/'' @ v) = v"
proof -
  have none: "split_char (CHR ''/'') v = [v]" using assms by (induction v) (auto simp: split_char_def)
  obtain xs where "split_char (CHR ''/'') (base @ ''/'' @ v) = xs @ split_char (CHR ''/'') v"
    using split_after_sep [of base v] by blast
  with none show ?thesis by (simp add: latest_release_version_def)
qed

theorem newer_version_announced:
  assumes "url_of body = Some (base @ ''/'' @ v)" "CHR ''/'' \<notin> set v"
  shows "software_update_once number version url_of (Some body) = Inr (if number version < number v then Some v else None)"
  using latest_release_version_last [OF assms(2), of base] assms(1) by (simp add: software_update_once_def)

end
