(* ===== verification/Sinks.thy ===== *)
theory Sinks
  imports Rendezvous_Conn
begin

text \<open>
  The write halves of connections, \<^verbatim>\<open>EncryptedSink\<close> and \<^verbatim>\<open>Sink\<close> of \<^verbatim>\<open>src/src/rendezvous_server.rs\<close>: a
  sink keeps its cipher, with the counter of its next frame, wherever it is moved. The cipher of
  \<^verbatim>\<open>hbb_common\<close> and the encoding of messages are parameters.
\<close>

section \<open>Sending\<close>

text \<open>The cipher of each sink that has one: its key and the number of frames it has encrypted.\<close>

type_synonym sink_ciphers = "(sink, bytes \<times> nat) hmap"

datatype wire_frame = TcpFrame bytes | WsBinary bytes | WsPingFrame

definition wire_of :: "sink \<Rightarrow> bytes \<Rightarrow> wire_frame" where
  "wire_of s b = (case s of TcpSink _ \<Rightarrow> TcpFrame b | WsSink _ \<Rightarrow> WsBinary b)"

definition sink_set_key :: "sink \<Rightarrow> bytes \<Rightarrow> sink_ciphers \<Rightarrow> sink_ciphers" where
  "sink_set_key s k cs = hput s (k, 0) cs"

definition sink_ping :: "sink \<Rightarrow> wire_frame list" where
  "sink_ping s = (case s of WsSink _ \<Rightarrow> [WsPingFrame] | TcpSink _ \<Rightarrow> [])"

definition sink_send ::
  "(bytes \<Rightarrow> nat \<Rightarrow> bytes \<Rightarrow> bytes) \<Rightarrow> (rmsg \<Rightarrow> bytes option) \<Rightarrow> sink \<Rightarrow> rmsg \<Rightarrow> sink_ciphers
   \<Rightarrow> wire_frame list \<times> sink_ciphers" where
  "sink_send enc ser s m cs =
     (case ser m of
        None \<Rightarrow> ([], cs)
      | Some b \<Rightarrow>
          (case hget cs s of
             None \<Rightarrow> ([wire_of s b], cs)
           | Some (k, n) \<Rightarrow> ([wire_of s (enc k n b)], hput s (k, Suc n) cs)))"

section \<open>Runs\<close>

text \<open>What happens to sinks, in the order in which the tasks that own them come to it: a key is
  agreed on, a message is sent, by the connection itself or later by another one that took the
  sink over, a ping is sent.\<close>

datatype sink_event = SetKey sink bytes | SendTo sink rmsg | PingTo sink

definition sink_step ::
  "(bytes \<Rightarrow> nat \<Rightarrow> bytes \<Rightarrow> bytes) \<Rightarrow> (rmsg \<Rightarrow> bytes option) \<Rightarrow> sink_event \<Rightarrow> sink_ciphers
   \<Rightarrow> (sink \<times> wire_frame) list \<times> sink_ciphers" where
  "sink_step enc ser ev cs =
     (case ev of
        SetKey s k \<Rightarrow> ([], sink_set_key s k cs)
      | SendTo s m \<Rightarrow> (let (fs, cs') = sink_send enc ser s m cs in (map (Pair s) fs, cs'))
      | PingTo s \<Rightarrow> (map (Pair s) (sink_ping s), cs))"

fun sinks_run ::
  "(bytes \<Rightarrow> nat \<Rightarrow> bytes \<Rightarrow> bytes) \<Rightarrow> (rmsg \<Rightarrow> bytes option) \<Rightarrow> sink_event list \<Rightarrow> sink_ciphers
   \<Rightarrow> (sink \<times> wire_frame) list \<times> sink_ciphers" where
  "sinks_run enc ser [] cs = ([], cs)"
| "sinks_run enc ser (ev # evs) cs =
     (let (fs, cs1) = sink_step enc ser ev cs; (gs, cs2) = sinks_run enc ser evs cs1 in (fs @ gs, cs2))"

text \<open>The other end of a sink: it takes pings aside and opens every frame with its own counter.\<close>

fun payload_of :: "wire_frame \<Rightarrow> bytes option" where
  "payload_of (TcpFrame b) = Some b"
| "payload_of (WsBinary b) = Some b"
| "payload_of WsPingFrame = None"

definition frames_to :: "sink \<Rightarrow> (sink \<times> wire_frame) list \<Rightarrow> bytes list" where
  "frames_to s fs = List.map_filter (\<lambda>(s', f). if s' = s then payload_of f else None) fs"

fun open_frames :: "(bytes \<Rightarrow> nat \<Rightarrow> bytes \<Rightarrow> bytes option) \<Rightarrow> bytes \<Rightarrow> nat \<Rightarrow> bytes list \<Rightarrow> bytes list option" where
  "open_frames dec k n [] = Some []"
| "open_frames dec k n (f # fs) =
     (case dec k n f of None \<Rightarrow> None | Some b \<Rightarrow> map_option ((#) b) (open_frames dec k (Suc n) fs))"

text \<open>What was to be sent to a sink: the encodings of its messages.\<close>

definition sent_bytes :: "(rmsg \<Rightarrow> bytes option) \<Rightarrow> sink \<Rightarrow> sink_event list \<Rightarrow> bytes list" where
  "sent_bytes ser s evs =
     List.map_filter (\<lambda>ev. case ev of SendTo s' m \<Rightarrow> if s' = s then ser m else None | _ \<Rightarrow> None) evs"

definition keyed :: "sink \<Rightarrow> sink_event list \<Rightarrow> bool" where
  "keyed s evs \<longleftrightarrow> (\<exists>k. SetKey s k \<in> set evs)"

section \<open>Lemmas\<close>

lemma payload_wire [simp]: "payload_of (wire_of s b) = Some b"
  by (simp add: wire_of_def split: sink.split)

lemma frames_to_append [simp]: "frames_to s (fs @ gs) = frames_to s fs @ frames_to s gs"
  by (simp add: frames_to_def map_filter_def)

lemma frames_to_step: "frames_to s (fst (sink_step enc ser ev cs)) =
  map (\<lambda>b. case hget cs s of None \<Rightarrow> b | Some (k, n) \<Rightarrow> enc k n b) (sent_bytes ser s [ev])"
  by (auto simp: sink_step_def frames_to_def sent_bytes_def sink_ping_def sink_send_def map_filter_def Let_def
      split: sink_event.split sink.split option.split)

lemma sink_step_cipher: "\<not> keyed s [ev] \<Longrightarrow> hget (snd (sink_step enc ser ev cs)) s =
  map_option (\<lambda>(k, n). (k, n + length (sent_bytes ser s [ev]))) (hget cs s)"
  by (auto simp: sink_step_def sink_send_def sink_set_key_def sent_bytes_def keyed_def map_filter_def Let_def
      option.map_id split: sink_event.split option.split)

lemma sinks_run_append:
  "fst (sinks_run enc ser (evs @ rest) cs) =
   fst (sinks_run enc ser evs cs) @ fst (sinks_run enc ser rest (snd (sinks_run enc ser evs cs)))"
  by (induction evs arbitrary: cs) (auto simp: Let_def case_prod_beta)

lemma sent_bytes_Nil [simp]: "sent_bytes ser s [] = []"
  by (simp add: sent_bytes_def map_filter_def)

lemma sent_bytes_Cons: "sent_bytes ser s (ev # evs) = sent_bytes ser s [ev] @ sent_bytes ser s evs"
  by (simp add: sent_bytes_def map_filter_def)

lemma not_keyed_Cons: "\<not> keyed s (ev # evs) \<Longrightarrow> \<not> keyed s [ev] \<and> \<not> keyed s evs"
  by (auto simp: keyed_def)

lemma sent_bytes_one: "sent_bytes ser s [ev] = [] \<or> (\<exists>b. sent_bytes ser s [ev] = [b])"
  by (auto simp: sent_bytes_def map_filter_def split: sink_event.split)

lemma sinks_run_plain:
  assumes "\<not> keyed s evs" "hget cs s = None"
  shows "frames_to s (fst (sinks_run enc ser evs cs)) = sent_bytes ser s evs"
  using assms
proof (induction evs arbitrary: cs)
  case (Cons ev evs)
  note nk = not_keyed_Cons [OF Cons.prems(1)]
  with Cons.prems(2) have "hget (snd (sink_step enc ser ev cs)) s = None" by (simp add: sink_step_cipher)
  with Cons nk show ?case by (simp add: Let_def case_prod_beta frames_to_step sent_bytes_Cons [of ser s ev evs])
qed (simp add: frames_to_def map_filter_def)

lemma sinks_run_sealed:
  assumes "\<And>k n b. dec k n (enc k n b) = Some b" "\<not> keyed s evs" "hget cs s = Some (k, n)"
  shows "open_frames dec k n (frames_to s (fst (sinks_run enc ser evs cs))) = Some (sent_bytes ser s evs)"
  using assms(2,3)
proof (induction evs arbitrary: cs n)
  case (Cons ev evs)
  note nk = not_keyed_Cons [OF Cons.prems(1)]
  with Cons.prems(2) have "hget (snd (sink_step enc ser ev cs)) s = Some (k, n + length (sent_bytes ser s [ev]))"
    by (simp add: sink_step_cipher)
  from Cons.IH [OF _ this] nk Cons.prems(2) sent_bytes_one [of ser s ev] show ?case
    by (auto simp: Let_def case_prod_beta frames_to_step sent_bytes_Cons [of ser s ev evs] assms(1))
qed (simp add: frames_to_def map_filter_def)

section \<open>Properties\<close>

text \<open>
  C15. What a peer gets on a connection: everything sent before the key is agreed on arrives in
  the clear and in order; from then on every frame is encrypted, by whichever task holds the sink,
  under the counter that follows that of the frame before, so that the peer, which counts its
  frames, opens all of them, in order, and none is lost, repeated or sent in the clear.
\<close>

theorem sink_sealed_in_order:
  assumes "\<And>k n b. dec k n (enc k n b) = Some b"
    and "\<not> keyed s before" "\<not> keyed s after"
  shows "\<exists>plain sealed. frames_to s (fst (sinks_run enc ser (before @ SetKey s k # after) [])) = plain @ sealed \<and>
    plain = sent_bytes ser s before \<and> open_frames dec k 0 sealed = Some (sent_bytes ser s after)"
proof -
  let ?cs = "sink_set_key s k (snd (sinks_run enc ser before []))"
  have "open_frames dec k 0 (frames_to s (fst (sinks_run enc ser after ?cs))) = Some (sent_bytes ser s after)"
    using sinks_run_sealed [of dec enc s after ?cs k 0 ser] assms(1,3) by (simp add: sink_set_key_def)
  moreover have "fst (sinks_run enc ser (SetKey s k # after) (snd (sinks_run enc ser before []))) = fst (sinks_run enc ser after ?cs)"
    by (simp add: sink_step_def Let_def case_prod_beta)
  ultimately show ?thesis
    using sinks_run_plain [OF assms(2), of "[]" enc ser] by (simp add: sinks_run_append hget_def)
qed

theorem sink_sealed_in_order_witness:
  "\<exists>sealed. frames_to (TcpSink 1) (fst (sinks_run (\<lambda>k n b. k @ b) (\<lambda>_. Some [1])
       [SendTo (TcpSink 1) (KeyExchange []), SetKey (TcpSink 1) [7], PingTo (TcpSink 1), SendTo (TcpSink 1) (KeyExchange [])] [])) =
     [1] # sealed \<and> open_frames (\<lambda>k n b. Some (drop (length k) b)) [7] 0 sealed = Some [[1]]"
  using sink_sealed_in_order [of "\<lambda>k n b. Some (drop (length k) b)" "\<lambda>k n b. k @ b" "TcpSink 1"
      "[SendTo (TcpSink 1) (KeyExchange [])]" "[PingTo (TcpSink 1), SendTo (TcpSink 1) (KeyExchange [])]" "\<lambda>_. Some [1]" "[7]"]
  by (auto simp: keyed_def sent_bytes_def map_filter_def simp del: sinks_run.simps)

end
