(* ===== verification/Geo_Update.thy ===== *)
theory Geo_Update
  imports Relay_Geo Config
begin

text \<open>
  Keeping the location database current, \<^verbatim>\<open>src/src/geo_update.rs\<close> and the command \<^verbatim>\<open>geo-update\<close> of
  \<^verbatim>\<open>src/src/utils.rs\<close>: which month is fetched, the two caps on what is read, and the replacement
  of the file. The answer of the web server and the decompression (\<^verbatim>\<open>reqwest\<close>, \<^verbatim>\<open>flate2\<close>) are
  parameters, and so is the reader of the database, as in the placement of relays.
\<close>

section \<open>Settings\<close>

definition DEFAULT_BASE_URL :: string where
  "DEFAULT_BASE_URL = ''https://download.db-ip.com/free''"

definition MAX_DOWNLOAD_BYTES :: nat where
  "MAX_DOWNLOAD_BYTES = 314572800"

definition MAX_UNPACKED_BYTES :: nat where
  "MAX_UNPACKED_BYTES = 1073741824"

definition MIN_NODES :: nat where
  "MIN_NODES = 100000"

record options =
  op_out :: string
  op_base_url :: string
  op_now :: "int \<times> nat"
  op_force :: bool
  op_max_download :: nat
  op_max_unpacked :: nat
  op_min_nodes :: nat

definition options_new :: "string \<Rightarrow> string \<Rightarrow> int \<times> nat \<Rightarrow> options" where
  "options_new out base now =
     \<lparr>op_out = out, op_base_url = base, op_now = now, op_force = False, op_max_download = MAX_DOWNLOAD_BYTES,
      op_max_unpacked = MAX_UNPACKED_BYTES, op_min_nodes = MIN_NODES\<rparr>"

datatype update_outcome = Updated string | UpToDate string

section \<open>Months\<close>

definition pad_left :: "nat \<Rightarrow> string \<Rightarrow> string" where
  "pad_left w s = replicate (w - length s) (CHR ''0'') @ s"

text \<open>A zero padded number; the sign counts for the width.\<close>

definition show_padded :: "nat \<Rightarrow> int \<Rightarrow> string" where
  "show_padded w n = (if n < 0 then ''-'' @ pad_left (w - 1) (show_nat (nat (- n))) else pad_left w (show_nat (nat n)))"

definition label :: "int \<times> nat \<Rightarrow> string" where
  "label ym = show_padded 4 (fst ym) @ ''-'' @ show_padded 2 (int (snd ym))"

definition previous :: "int \<times> nat \<Rightarrow> int \<times> nat" where
  "previous ym = (if snd ym \<le> 1 then (fst ym - 1, 12) else (fst ym, snd ym - 1))"

section \<open>Files\<close>

text \<open>Databases and records by path, and which operations fail: creating, writing, syncing,
  renaming and removing a file, opening a record, which empties it, and writing into it. When
  the last fails, so many characters have got through.\<close>

datatype disk_op = DCreate | DWrite | DSync | DRename | DRemove | DRecord | DFill

record disk =
  dk_files :: "(string, bytes) hmap"
  dk_records :: "(string, string) hmap"
  dk_ok :: "disk_op \<Rightarrow> string \<Rightarrow> bool"
  dk_torn :: "string \<Rightarrow> nat"

definition version_path :: "string \<Rightarrow> string" where
  "version_path out = out @ ''.version''"

definition tmp_path :: "nat \<Rightarrow> string \<Rightarrow> string" where
  "tmp_path pid out = out @ ''.'' @ show_nat pid @ ''.tmp''"

definition installed :: "string \<Rightarrow> disk \<Rightarrow> string option" where
  "installed out dk =
     (if hget (dk_files dk) out = None then None
      else (case hget (dk_records dk) (version_path out) of
              None \<Rightarrow> None
            | Some text \<Rightarrow>
                (let l = trim text
                 in if length l = 7 \<and> l ! 4 = CHR ''-'' \<and> (\<forall>c \<in> set (take 4 l). is_digit c) \<and> (\<forall>c \<in> set (drop 5 l). is_digit c)
                    then Some l else None)))"

definition drop_tmp :: "string \<Rightarrow> disk \<Rightarrow> disk" where
  "drop_tmp tmp dk = (if dk_ok dk DRemove tmp then dk\<lparr>dk_files := hdel tmp (dk_files dk)\<rparr> else dk)"

section \<open>Fetching\<close>

text \<open>\<^verbatim>\<open>Capped\<close> over the pieces its reader delivers: what passes, and whether all of it did.\<close>

fun capped :: "nat \<Rightarrow> bytes list \<Rightarrow> bytes \<times> bool" where
  "capped left [] = ([], True)"
| "capped left (c # cs) =
     (if left < length c then ([], False)
      else (let (rest, ok) = capped (left - length c) cs in (c @ rest, ok)))"

record response =
  rp_status :: nat
  rp_length :: "nat option"
  rp_body :: "bytes list"

record gu_env =
  gu_http :: "string \<Rightarrow> response option"
  gu_unpack :: "bytes \<times> bool \<Rightarrow> bytes list \<times> bool"
  gu_mmap :: "bytes \<Rightarrow> mmdb option"
  gu_pid :: nat

text \<open>The decompressor gets what passed the first cap and whether that was all; it delivers pieces
  and says whether it came to a proper end.\<close>

datatype fetched = Installed | NotPublished

datatype fetch_error =
    NoResponse | BadStatus nat | TooLong nat | CannotCreate | CopyFailed | SyncFailed
  | Invalid city_error | CannotReplace | CannotRecord | NothingPublished

definition trim_slashes :: "string \<Rightarrow> string" where
  "trim_slashes s = rev (dropWhile (\<lambda>c. c = CHR ''/'') (rev s))"

definition month_url :: "options \<Rightarrow> string \<Rightarrow> string" where
  "month_url opt month = trim_slashes (op_base_url opt) @ ''/dbip-city-lite-'' @ month @ ''.mmdb.gz''"

definition unpacked :: "gu_env \<Rightarrow> options \<Rightarrow> response \<Rightarrow> bytes \<times> bool" where
  "unpacked env opt resp =
     (let (pieces, ok) = gu_unpack env (capped (op_max_download opt) (rp_body resp));
          (content, fits) = capped (op_max_unpacked opt) pieces
      in (content, fits \<and> ok))"

definition store_month :: "gu_env \<Rightarrow> options \<Rightarrow> response \<Rightarrow> disk \<Rightarrow> (fetch_error + fetched) \<times> disk" where
  "store_month env opt resp dk =
     (let tmp = tmp_path (gu_pid env) (op_out opt)
      in if \<not> dk_ok dk DCreate tmp then (Inl CannotCreate, drop_tmp tmp dk)
         else
           (let (content, ok) = unpacked env opt resp; dk1 = dk\<lparr>dk_files := hput tmp content (dk_files dk)\<rparr>
            in if \<not> ok \<or> \<not> dk_ok dk DWrite tmp then (Inl CopyFailed, drop_tmp tmp dk1)
               else if \<not> dk_ok dk DSync tmp then (Inl SyncFailed, drop_tmp tmp dk1)
               else (case validate_city (\<lambda>p. Option.bind (hget (dk_files dk1) p) (gu_mmap env)) tmp (op_min_nodes opt) of
                       Inl e \<Rightarrow> (Inl (Invalid e), drop_tmp tmp dk1)
                     | Inr _ \<Rightarrow>
                         if \<not> dk_ok dk DRename (op_out opt) then (Inl CannotReplace, drop_tmp tmp dk1)
                         else (Inr Installed, dk1\<lparr>dk_files := hput (op_out opt) content (hdel tmp (dk_files dk1))\<rparr>))))"

definition fetch_month :: "gu_env \<Rightarrow> options \<Rightarrow> string \<Rightarrow> disk \<Rightarrow> (fetch_error + fetched) \<times> disk" where
  "fetch_month env opt month dk =
     (case gu_http env (month_url opt month) of
        None \<Rightarrow> (Inl NoResponse, dk)
      | Some resp \<Rightarrow>
          if rp_status resp = 404 then (Inr NotPublished, dk)
          else if rp_status resp < 200 \<or> 300 \<le> rp_status resp then (Inl (BadStatus (rp_status resp)), dk)
          else (case rp_length resp of
                  Some len \<Rightarrow>
                    if op_max_download opt < len then (Inl (TooLong len), dk) else store_month env opt resp dk
                | None \<Rightarrow> store_month env opt resp dk))"

section \<open>Updating\<close>

text \<open>\<^verbatim>\<open>fs::write\<close> of the record.\<close>

definition write_record :: "string \<Rightarrow> string \<Rightarrow> disk \<Rightarrow> bool \<times> disk" where
  "write_record path text dk =
     (if \<not> dk_ok dk DRecord path then (False, dk)
      else if \<not> dk_ok dk DFill path then (False, dk\<lparr>dk_records := hput path (take (dk_torn dk path) text) (dk_records dk)\<rparr>)
      else (True, dk\<lparr>dk_records := hput path text (dk_records dk)\<rparr>))"

fun try_months ::
  "gu_env \<Rightarrow> options \<Rightarrow> string option \<Rightarrow> (int \<times> nat) list \<Rightarrow> disk \<Rightarrow> (fetch_error + update_outcome) \<times> disk" where
  "try_months env opt have [] dk =
     ((case have of Some h \<Rightarrow> Inr (UpToDate h) | None \<Rightarrow> Inl NothingPublished), dk)"
| "try_months env opt have (month # rest) dk =
     (let cand = label month
      in if \<not> op_force opt \<and> (\<exists>h \<in> set_option have. cand \<le> h) then (Inr (UpToDate (the have)), dk)
         else (case fetch_month env opt cand dk of
                 (Inl e, dk1) \<Rightarrow> (Inl e, dk1)
               | (Inr NotPublished, dk1) \<Rightarrow> try_months env opt have rest dk1
               | (Inr Installed, dk1) \<Rightarrow>
                   (case write_record (version_path (op_out opt)) (cand @ [newline]) dk1 of
                      (True, dk2) \<Rightarrow> (Inr (Updated cand), dk2)
                    | (False, dk2) \<Rightarrow> (Inl CannotRecord, dk2))))"

definition update :: "gu_env \<Rightarrow> options \<Rightarrow> disk \<Rightarrow> (fetch_error + update_outcome) \<times> disk" where
  "update env opt dk = try_months env opt (installed (op_out opt) dk) [op_now opt, previous (op_now opt)] dk"

section \<open>The command\<close>

text \<open>The arguments of \<^verbatim>\<open>geo-update\<close>: where to, from where, forced, repeated; nothing when an option
  is unknown.\<close>

type_synonym geo_args = "string option \<times> string \<times> bool \<times> bool"

fun geo_update_args :: "string list \<Rightarrow> geo_args \<Rightarrow> geo_args option" where
  "geo_update_args [] acc = Some acc"
| "geo_update_args [a] (out, base, force, looping) =
     (if a = ''--out'' then Some (None, base, force, looping)
      else if a = ''--base-url'' then Some (out, base, force, looping)
      else if a = ''--force'' then Some (out, base, True, looping)
      else if a = ''--loop'' then Some (out, base, force, True)
      else None)"
| "geo_update_args (a # b # rest) (out, base, force, looping) =
     (if a = ''--out'' then geo_update_args rest (Some b, base, force, looping)
      else if a = ''--base-url'' then geo_update_args rest (out, b, force, looping)
      else if a = ''--force'' then geo_update_args (b # rest) (out, base, True, looping)
      else if a = ''--loop'' then geo_update_args (b # rest) (out, base, force, True)
      else None)"

text \<open>What the arguments start from, and the file that is kept current.\<close>

definition non_empty :: "string option \<Rightarrow> string option" where
  "non_empty v = (if v = Some [] then None else v)"

definition geo_update_defaults :: "environ \<Rightarrow> geo_args" where
  "geo_update_defaults env =
     (non_empty (env_var env ''GEO_DB''),
      (case non_empty (env_var env ''GEO_UPDATE_BASE_URL'') of Some v \<Rightarrow> v | None \<Rightarrow> DEFAULT_BASE_URL), False, False)"

definition geo_out :: "string option \<Rightarrow> string" where
  "geo_out out = (case out of Some p \<Rightarrow> p | None \<Rightarrow> ''geo.mmdb'')"

text \<open>One turn of the loop: the seconds until the next one (nothing when it is the last), whether
  the process fails, and the disk.\<close>

definition geo_turn ::
  "gu_env \<Rightarrow> string \<Rightarrow> string \<Rightarrow> int \<times> nat \<Rightarrow> bool \<Rightarrow> bool \<Rightarrow> disk \<Rightarrow> nat option \<times> bool \<times> disk" where
  "geo_turn env out base now force looping dk =
     (let (r, dk') = update env ((options_new out base now)\<lparr>op_force := force\<rparr>) dk
      in if \<not> looping then (None, isl r, dk') else (Some (if isl r then 6 * 3600 else 24 * 3600), False, dk'))"

text \<open>The turns of one process: each has the web server and the month it meets. Forcing is for the
  first turn only.\<close>

fun geo_loop ::
  "gu_env \<Rightarrow> string \<Rightarrow> string \<Rightarrow> bool \<Rightarrow> ((string \<Rightarrow> response option) \<times> int \<times> nat) list \<Rightarrow> disk \<Rightarrow> nat list \<times> disk" where
  "geo_loop env out base force [] dk = ([], dk)"
| "geo_loop env out base force ((http, now) # turns) dk =
     (case geo_turn (env\<lparr>gu_http := http\<rparr>) out base now force True dk of
        (Some wait, _, dk1) \<Rightarrow> (let (waits, dk2) = geo_loop env out base False turns dk1 in (wait # waits, dk2))
      | (None, _, dk1) \<Rightarrow> ([], dk1))"

section \<open>The order of months\<close>

lemma less_snoc:
  fixes xs ys :: "'a :: linorder list"
  assumes "length xs = length ys"
  shows "xs @ zs < ys @ ws \<longleftrightarrow> xs < ys \<or> xs = ys \<and> zs < ws"
  using assms by (induction xs ys rule: list_induct2) auto

lemma digit_char_less: "i < 10 \<Longrightarrow> j < 10 \<Longrightarrow> digit_char i < digit_char j \<longleftrightarrow> i < j"
  by (simp add: digit_char_def less_char_def)

lemma show_nat_step: "10 \<le> n \<Longrightarrow> show_nat n = show_nat (n div 10) @ [digit_char n]"
  by (subst show_nat.simps) simp

lemma show_nat_digit: "n < 10 \<Longrightarrow> show_nat n = [digit_char n]"
  by (subst show_nat.simps) simp

lemma pad_left_step:
  assumes "0 < w"
  shows "pad_left (Suc w) (show_nat n) = pad_left w (show_nat (n div 10)) @ [digit_char n]"
proof (cases "n < 10")
  case True
  have "digit_char 0 = CHR ''0''" by (simp add: digit_char_def char_of_eq_iff)
  with True assms show ?thesis
    by (cases w) (simp_all add: pad_left_def show_nat_digit replicate_append_same)
next
  case False
  then show ?thesis by (simp add: pad_left_def show_nat_step)
qed

lemma less_by_digits: "(m :: nat) < n \<longleftrightarrow> m div 10 < n div 10 \<or> m div 10 = n div 10 \<and> m mod 10 < n mod 10"
proof -
  have "m = 10 * (m div 10) + m mod 10" "n = 10 * (n div 10) + n mod 10" "m mod 10 < 10" "n mod 10 < 10" by simp_all
  then show ?thesis by (cases "m div 10" "n div 10" rule: linorder_cases) linarith+
qed

lemma pad_left_length: "n < 10 ^ w \<Longrightarrow> 0 < w \<Longrightarrow> length (pad_left w (show_nat n)) = w"
  using show_nat_length [of n w] by (simp add: pad_left_def)

lemma pad_left_less:
  "0 < w \<Longrightarrow> m < 10 ^ w \<Longrightarrow> n < 10 ^ w \<Longrightarrow> pad_left w (show_nat m) < pad_left w (show_nat n) \<longleftrightarrow> m < n"
proof (induction w arbitrary: m n)
  case (Suc w)
  have digit: "digit_char m = digit_char (m mod 10)" for m by (simp add: digit_char_def)
  show ?case
  proof (cases "w = 0")
    case True
    with Suc.prems show ?thesis
      by (simp add: pad_left_def show_nat_digit digit_char_less)
  next
    case False
    have below: "m div 10 < 10 ^ w" "n div 10 < 10 ^ w" using Suc.prems by auto
    have lt: "pad_left w (show_nat (m div 10)) < pad_left w (show_nat (n div 10)) \<longleftrightarrow> m div 10 < n div 10"
      "pad_left w (show_nat (n div 10)) < pad_left w (show_nat (m div 10)) \<longleftrightarrow> n div 10 < m div 10"
      using Suc.IH False below by simp_all
    then have eq: "pad_left w (show_nat (m div 10)) = pad_left w (show_nat (n div 10)) \<longleftrightarrow> m div 10 = n div 10"
      by (metis neq_iff)
    have "digit_char m < digit_char n \<longleftrightarrow> m mod 10 < n mod 10"
      using digit_char_less [of "m mod 10" "n mod 10"] digit by simp
    then have "pad_left (Suc w) (show_nat m) < pad_left (Suc w) (show_nat n) \<longleftrightarrow>
        m div 10 < n div 10 \<or> m div 10 = n div 10 \<and> m mod 10 < n mod 10"
      using False below lt eq
      by (simp add: pad_left_step less_snoc pad_left_length)
    also have "\<dots> \<longleftrightarrow> m < n" by (rule less_by_digits [symmetric])
    finally show ?thesis .
  qed
qed simp

text \<open>The text order of two months of four digit years is their order in time.\<close>

lemma label_less:
  assumes "0 \<le> y" "y \<le> 9999" "0 \<le> y'" "y' \<le> 9999" "m \<le> 99" "m' \<le> 99"
  shows "label (y, m) < label (y', m') \<longleftrightarrow> y < y' \<or> y = y' \<and> m < m'"
proof -
  have n: "nat y < 10 ^ 4" "nat y' < 10 ^ 4" "m < 10 ^ 2" "m' < 10 ^ 2" using assms by auto
  have len: "length (pad_left 4 (show_nat (nat y))) = length (pad_left 4 (show_nat (nat y')))"
    using n by (simp only: pad_left_length)
  have eq: "pad_left 4 (show_nat (nat y)) = pad_left 4 (show_nat (nat y')) \<longleftrightarrow> nat y = nat y'"
    using pad_left_less [of 4, OF _ n(1,2)] pad_left_less [of 4, OF _ n(2,1)] by (metis neq_iff zero_less_numeral)
  show ?thesis
    using assms n len pad_left_less [of 4 "nat y" "nat y'"] pad_left_less [of 2 m m'] eq
    by (auto simp: label_def show_padded_def less_snoc)
qed

section \<open>What an update leaves behind\<close>

lemma capped_bound: "length (fst (capped left cs)) \<le> left"
  by (induction left cs rule: capped.induct) (auto simp: case_prod_beta Let_def)

lemma capped_all: "capped left cs = (content, True) \<Longrightarrow> content = concat cs"
  by (induction left cs arbitrary: content rule: capped.induct) (auto simp: Let_def split: prod.splits if_splits)

lemma tmp_path_other: "tmp_path pid out \<noteq> out" "out \<noteq> tmp_path pid out"
  by (simp_all add: tmp_path_def)

definition usable_city :: "gu_env \<Rightarrow> options \<Rightarrow> bytes \<Rightarrow> bool" where
  "usable_city env opt content \<longleftrightarrow> length content \<le> op_max_unpacked opt \<and>
     (\<exists>m. gu_mmap env content = Some m \<and> str_contains ''City'' (mm_database_type m) \<and> op_min_nodes opt \<le> mm_node_count m)"

lemma store_month_result:
  assumes "store_month env opt resp dk = (res, dk')"
  shows "dk_ok dk' = dk_ok dk \<and> dk_records dk' = dk_records dk \<and> res \<noteq> Inr NotPublished \<and>
    (\<forall>p. p \<noteq> op_out opt \<and> p \<noteq> tmp_path (gu_pid env) (op_out opt) \<longrightarrow> hget (dk_files dk') p = hget (dk_files dk) p) \<and>
    (res = Inr Installed \<or> hget (dk_files dk') (op_out opt) = hget (dk_files dk) (op_out opt)) \<and>
    (dk_ok dk DRemove (tmp_path (gu_pid env) (op_out opt)) \<longrightarrow> hget (dk_files dk') (tmp_path (gu_pid env) (op_out opt)) = None)"
proof -
  obtain content ok where u: "unpacked env opt resp = (content, ok)" by fastforce
  show ?thesis
    using assms by (auto simp: store_month_def drop_tmp_def Let_def u tmp_path_other split: if_splits sum.splits)
qed

lemma store_month_installed:
  assumes "store_month env opt resp dk = (Inr Installed, dk')"
  shows "\<exists>content. hget (dk_files dk') (op_out opt) = Some content \<and> usable_city env opt content"
proof -
  obtain content ok where u: "unpacked env opt resp = (content, ok)" by fastforce
  then have "length content \<le> op_max_unpacked opt"
    using capped_bound [of "op_max_unpacked opt"] by (auto simp: unpacked_def Let_def case_prod_beta)
  with assms u show ?thesis
    by (auto simp: store_month_def usable_city_def validate_city_def Let_def tmp_path_other split: if_splits option.splits)
qed

lemma fetch_month_result:
  assumes "fetch_month env opt month dk = (res, dk')"
  shows "dk' = dk \<and> res \<noteq> Inr Installed \<or> (\<exists>resp. store_month env opt resp dk = (res, dk'))"
  using assms by (auto simp: fetch_month_def split: option.splits if_splits)

text \<open>
  The contract of one update, from the file system it starts with to the one it leaves.
\<close>

definition update_contract ::
  "gu_env \<Rightarrow> options \<Rightarrow> string option \<Rightarrow> disk \<Rightarrow> (fetch_error + update_outcome) \<Rightarrow> disk \<Rightarrow> bool" where
  "update_contract env opt have dk res dk' \<longleftrightarrow>
     (case res of
        Inr (Updated m) \<Rightarrow>
          (\<exists>content. hget (dk_files dk') (op_out opt) = Some content \<and> usable_city env opt content) \<and>
          hget (dk_records dk') (version_path (op_out opt)) = Some (m @ [newline]) \<and>
          (op_force opt \<or> (\<forall>h \<in> set_option have. h < m))
      | Inr (UpToDate h) \<Rightarrow> have = Some h \<and> hget (dk_files dk') (op_out opt) = hget (dk_files dk) (op_out opt) \<and> dk_records dk' = dk_records dk
      | Inl CannotRecord \<Rightarrow>
          (\<exists>content. hget (dk_files dk') (op_out opt) = Some content \<and> usable_city env opt content) \<and>
          (\<exists>m. (op_force opt \<or> (\<forall>h \<in> set_option have. h < m)) \<and>
             (dk_records dk' = dk_records dk \<or>
              (\<exists>n. hget (dk_records dk') (version_path (op_out opt)) = Some (take n (m @ [newline])))))
      | Inl _ \<Rightarrow> hget (dk_files dk') (op_out opt) = hget (dk_files dk) (op_out opt) \<and> dk_records dk' = dk_records dk)"

lemma fetch_month_error: "fetch_month env opt month dk = (Inl e, dk') \<Longrightarrow> e \<noteq> CannotRecord"
  by (auto simp: fetch_month_def store_month_def Let_def split: option.splits if_splits prod.splits sum.splits)

lemma write_record_result:
  assumes "write_record path text dk = (done, dk')"
  shows "dk_files dk' = dk_files dk" "dk_ok dk' = dk_ok dk"
    "done \<Longrightarrow> hget (dk_records dk') path = Some text"
    "dk_records dk' = dk_records dk \<or> (\<exists>n. hget (dk_records dk') path = Some (take n text))"
proof -
  have "take (length text) text = text" by simp
  then have "\<exists>n. text = take n text" by metis
  with assms show "dk_files dk' = dk_files dk" "dk_ok dk' = dk_ok dk" "done \<Longrightarrow> hget (dk_records dk') path = Some text"
    "dk_records dk' = dk_records dk \<or> (\<exists>n. hget (dk_records dk') path = Some (take n text))"
    by (auto simp: write_record_def split: if_splits)
qed

lemma try_months_contract:
  assumes "try_months env opt have ms dk = (res, dk')"
    and "dk_ok dk DRemove (tmp_path (gu_pid env) (op_out opt))" "hget (dk_files dk) (tmp_path (gu_pid env) (op_out opt)) = None"
  shows "update_contract env opt have dk res dk' \<and> hget (dk_files dk') (tmp_path (gu_pid env) (op_out opt)) = None"
  using assms
proof (induction ms arbitrary: dk)
  case Nil
  then show ?case by (auto simp: update_contract_def split: option.splits)
next
  case (Cons month ms)
  let ?tmp = "tmp_path (gu_pid env) (op_out opt)"
  show ?case
  proof (cases "\<not> op_force opt \<and> (\<exists>h \<in> set_option have. label month \<le> h)")
    case True
    with Cons.prems show ?thesis by (auto simp: update_contract_def)
  next
    case False
    obtain r dk1 where fetch: "fetch_month env opt (label month) dk = (r, dk1)" by fastforce
    have kept: "dk_ok dk1 = dk_ok dk" "dk_records dk1 = dk_records dk" "hget (dk_files dk1) ?tmp = None"
      "r \<noteq> Inr Installed \<longrightarrow> hget (dk_files dk1) (op_out opt) = hget (dk_files dk) (op_out opt)"
      using fetch_month_result [OF fetch] store_month_result [of env opt _ dk r dk1] Cons.prems(2,3) by auto
    show ?thesis
    proof (cases r)
      case (Inl e)
      with fetch False Cons.prems have "res = Inl e" "dk' = dk1" by auto
      with Inl kept fetch_month_error [of env opt "label month" dk e dk1] fetch show ?thesis
        by (cases e) (auto simp: update_contract_def)
    next
      case (Inr f)
      show ?thesis
      proof (cases f)
        case NotPublished
        with Inr fetch False Cons.prems have "try_months env opt have ms dk1 = (res, dk')" by auto
        from Cons.IH [OF this] kept Cons.prems Inr NotPublished show ?thesis
          by (auto simp: update_contract_def split: sum.splits update_outcome.splits fetch_error.splits)
      next
        case Installed
        then obtain resp where "store_month env opt resp dk = (Inr Installed, dk1)"
          using fetch_month_result [OF fetch] Inr by auto
        from store_month_installed [OF this] obtain content where
          "hget (dk_files dk1) (op_out opt) = Some content" "usable_city env opt content" by blast
        moreover obtain ok dk2 where
          w: "write_record (version_path (op_out opt)) (label month @ [newline]) dk1 = (ok, dk2)" by fastforce
        moreover have "res = (if ok then Inr (Updated (label month)) else Inl CannotRecord)" "dk' = dk2"
          using Installed Inr fetch False Cons.prems(1) w by (auto simp: Let_def split: bool.splits)
        ultimately show ?thesis
          using kept False write_record_result [OF w] by (auto simp: update_contract_def not_le)
      qed
    qed
  qed
qed

section \<open>Properties\<close>


definition example_gu :: gu_env where
  "example_gu = \<lparr>gu_http = (\<lambda>url. Some \<lparr>rp_status = 200, rp_length = None, rp_body = [[1, 2], [3]]\<rparr>),
     gu_unpack = (\<lambda>(b, ok). ([b], ok)),
     gu_mmap = (\<lambda>b. if b = [1, 2, 3] then Some \<lparr>mm_database_type = ''DBIP-City-Lite'', mm_node_count = 7, mm_lookup = (\<lambda>_. None)\<rparr> else None),
     gu_pid = 5\<rparr>"

definition example_opt :: options where
  "example_opt = (options_new ''geo.mmdb'' ''http://x/'' (2026, 3))\<lparr>op_min_nodes := 5\<rparr>"

definition example_dk :: disk where
  "example_dk = \<lparr>dk_files = [(''geo.mmdb'', [9])], dk_records = [(''geo.mmdb.version'', ''2026-02'')], dk_ok = (\<lambda>_ _. True), dk_torn = (\<lambda>_. 0)\<rparr>"

lemma example_label: "label (2026, 3) = ''2026-03''"
  by (simp add: label_def show_padded_def pad_left_def text_eval)

lemma example_installed: "installed ''geo.mmdb'' example_dk = Some ''2026-02''"
  by (simp add: installed_def example_dk_def version_path_def hget_def is_digit_def text_eval)

lemma example_update:
  "fst (update example_gu example_opt example_dk) = Inr (Updated ''2026-03'')"
proof -
  have "\<not> ''2026-03'' \<le> ''2026-02''" by simp
  then show ?thesis
    by (simp add: update_def Let_def example_label example_installed [unfolded example_dk_def] example_opt_def options_new_def fetch_month_def store_month_def
        unpacked_def write_record_def example_gu_def example_dk_def tmp_path_def MAX_DOWNLOAD_BYTES_def MAX_UNPACKED_BYTES_def validate_city_def
        hget_def hput_def text_eval)
qed


section \<open>The loop\<close>

lemma try_months_ok: "try_months env opt have ms dk = (res, dk') \<Longrightarrow> dk_ok dk' = dk_ok dk"
proof (induction ms arbitrary: dk)
  case (Cons month ms)
  obtain r dk1 where fetch: "fetch_month env opt (label month) dk = (r, dk1)" by fastforce
  have kept: "dk_ok dk1 = dk_ok dk"
    using fetch_month_result [OF fetch] store_month_result [of env opt _ dk r dk1] by auto
  from Cons.prems Cons.IH [of dk1] kept fetch show ?case
    by (auto simp: Let_def dest: write_record_result(2) split: if_splits sum.splits fetched.splits prod.splits bool.splits)
qed auto

definition limits_only :: "gu_env \<Rightarrow> bytes \<Rightarrow> bool" where
  "limits_only env content \<longleftrightarrow> usable_city env (options_new [] [] (0, 0)) content"

lemma usable_city_limits:
  "usable_city (env\<lparr>gu_http := h\<rparr>) ((options_new out base now)\<lparr>op_force := force\<rparr>) content \<longleftrightarrow> limits_only env content"
  by (simp add: usable_city_def limits_only_def options_new_def)

lemma geo_turn_keeps:
  assumes "geo_turn (env\<lparr>gu_http := h\<rparr>) out base now force looping dk = (wait, failed, dk')"
    and "dk_ok dk DRemove (tmp_path (gu_pid env) out)" "hget (dk_files dk) (tmp_path (gu_pid env) out) = None"
  shows "dk_ok dk' = dk_ok dk \<and> hget (dk_files dk') (tmp_path (gu_pid env) out) = None \<and>
    (hget (dk_files dk') out = hget (dk_files dk) out \<or>
     (\<exists>content. hget (dk_files dk') out = Some content \<and> limits_only env content))"
proof -
  let ?env = "env\<lparr>gu_http := h\<rparr>" and ?opt = "(options_new out base now)\<lparr>op_force := force\<rparr>"
  obtain r where u: "try_months ?env ?opt (installed out dk) [now, previous now] dk = (r, dk')"
    using assms(1) by (auto simp: geo_turn_def update_def Let_def options_new_def split: prod.splits if_splits)
  have o: "op_out ?opt = out" "gu_pid ?env = gu_pid env" by (simp_all add: options_new_def)
  have "update_contract ?env ?opt (installed out dk) dk r dk' \<and> hget (dk_files dk') (tmp_path (gu_pid env) out) = None"
    using try_months_contract [OF u] assms(2,3) o by simp
  with try_months_ok [OF u] o show ?thesis
    by (auto simp: update_contract_def usable_city_limits split: sum.splits update_outcome.splits fetch_error.splits)
qed

text \<open>
  However many turns the process makes and whatever the web server answers, the file is the one it
  found or a usable City database, and between two turns it waits a day, or six hours after a
  failure: a database that is there never disappears.
\<close>

theorem geo_loop_never_loses:
  assumes "geo_loop env out base force turns dk = (waits, dk')"
    and "dk_ok dk DRemove (tmp_path (gu_pid env) out)" "hget (dk_files dk) (tmp_path (gu_pid env) out) = None"
  shows "length waits = length turns \<and> set waits \<subseteq> {6 * 3600, 24 * 3600} \<and>
    (hget (dk_files dk') out = hget (dk_files dk) out \<or>
     (\<exists>content. hget (dk_files dk') out = Some content \<and> limits_only env content))"
  using assms
proof (induction turns arbitrary: force dk waits)
  case (Cons turn turns)
  obtain http now where turn: "turn = (http, now)" by (rule prod.exhaust)
  obtain wait failed dk1 where t: "geo_turn (env\<lparr>gu_http := http\<rparr>) out base now force True dk = (wait, failed, dk1)"
    by (cases "geo_turn (env\<lparr>gu_http := http\<rparr>) out base now force True dk") auto
  then obtain w where w: "wait = Some w" "w \<in> {6 * 3600, 24 * 3600}"
    by (auto simp: geo_turn_def Let_def split: prod.splits if_splits)
  obtain ws where rest: "geo_loop env out base False turns dk1 = (ws, dk')" "waits = w # ws"
    using Cons.prems(1) t w by (auto simp: turn Let_def split: prod.splits)
  note kept = geo_turn_keeps [OF t Cons.prems(2,3)]
  from Cons.IH [OF rest(1)] kept Cons.prems(2) rest(2) w(2) show ?case by auto
qed simp

end
