(* ===== verification/Desktop_Panel.thy ===== *)
theory Desktop_Panel
  imports Rust_Str
begin

text \<open>
  The desktop panel under \<^verbatim>\<open>src/ui/src\<close>, a window that starts and stops the two services on Windows
  and shows their logs: the presenter (\<^verbatim>\<open>usecase/presenter.rs\<close>), the view (\<^verbatim>\<open>adapter/view/desktop.rs\<close>),
  the watcher of the log folder (\<^verbatim>\<open>usecase/watcher.rs\<close>) and the service (\<^verbatim>\<open>adapter/service/windows.rs\<close>),
  which run side by side and talk over two bounded channels. The window system, the service
  manager and the commands it runs are outside: they appear as what the user does, as the status
  text of a service, and as the commands that are issued.
\<close>

section \<open>Events\<close>

datatype service_state = Paused | Started | Stopped | Unknown

datatype panel_event =
    BrowserAction string
  | BrowserInit
  | BrowserUpdate string string
  | BrowserRender string
  | FileChange string
  | ViewAction string
  | ViewInit
  | ViewUpdate string
  | ViewRender string
  | ViewRenderAppExit
  | ViewRenderServiceState service_state

definition BUFFER :: nat where
  "BUFFER = 10"

section \<open>The service\<close>

text \<open>A batch of commands for a shell window, or one call of the service manager's tool.\<close>

datatype service_call = ShellCall "string list" | Nssm "string list"

definition service_start :: "service_call list" where
  "service_start =
     [ShellCall [''echo.'', ''%nssm% stop hbbr'', ''%nssm% remove hbbr confirm'', ''%nssm% stop hbbs'',
        ''%nssm% remove hbbs confirm'', ''mkdir logs'', ''echo.'', ''service'' @ [CHR 0x5C] @ ''run.cmd hbbs'', ''echo.'',
        ''service'' @ [CHR 0x5C] @ ''run.cmd hbbr'', ''echo.'', ''@ping 127.1 -n 3 >nul'']]"

definition service_stop :: "service_call list" where
  "service_stop =
     [ShellCall [''echo.'', ''%nssm% stop hbbr'', ''%nssm% remove hbbr confirm'', ''echo.'', ''%nssm% stop hbbs'',
        ''%nssm% remove hbbs confirm'', ''echo.'', ''@ping 127.1 -n 3 >nul'']]"

definition service_restart :: "service_call list" where
  "service_restart = [Nssm [''restart'', ''hbbs''], Nssm [''restart'', ''hbbr'']]"

definition service_pause :: "service_call list" where
  "service_pause =
     [ShellCall [''echo.'', ''%nssm% stop hbbr'', ''echo.'', ''%nssm% stop hbbs'', ''echo.'', ''@ping 127.1 -n 3 >nul'']]"

text \<open>The state of the service by the text of its status.\<close>

definition service_check :: "string \<Rightarrow> service_state" where
  "service_check status = (if status = ''Running'' then Started else Stopped)"

text \<open>How the status text comes about: three questions to the service manager, each of which may be
  answered by an error, whose text then counts as the status.\<close>

definition service_status :: "string + unit \<Rightarrow> (string \<Rightarrow> string + unit) \<Rightarrow> (string \<Rightarrow> string + string) \<Rightarrow> string \<Rightarrow> string" where
  "service_status manager open_service query_status name =
     (case manager of
        Inl e \<Rightarrow> e
      | Inr _ \<Rightarrow>
          (case open_service name of
             Inl e \<Rightarrow> e
           | Inr _ \<Rightarrow> (case query_status name of Inl e \<Rightarrow> e | Inr state \<Rightarrow> state)))"

text \<open>The command line of a shell window, and the output of the tool: none when it is no text, the
  text of the error when the tool cannot be run. The tool writes a zero byte after each letter.\<close>

definition shell_call :: "string \<Rightarrow> string list" where
  "shell_call cmd = [''cmd'', ''/c'', ''start'', ''cmd'', ''/c'', cmd]"

definition exec :: "('b \<Rightarrow> string option) \<Rightarrow> string + 'b \<Rightarrow> string" where
  "exec utf8 out = (case out of Inr b \<Rightarrow> (case utf8 b of Some t \<Rightarrow> t | None \<Rightarrow> []) | Inl e \<Rightarrow> e)"

definition nssm :: "('b \<Rightarrow> string option) \<Rightarrow> string + 'b \<Rightarrow> string" where
  "nssm utf8 out = trim (filter (\<lambda>c. c \<noteq> CHR 0x00) (exec utf8 out))"

section \<open>The presenter\<close>

record presenter =
  ps_file :: string
  ps_state :: service_state

definition presenter_start :: "presenter \<times> panel_event list" where
  "presenter_start = (\<lparr>ps_file = ''hbbs.out'', ps_state = Unknown\<rparr>, [ViewRenderServiceState Unknown])"

text \<open>One event: what is sent to the view, the calls of the service, and the new state.\<close>

definition presenter_event :: "panel_event \<Rightarrow> presenter \<Rightarrow> panel_event list \<times> service_call list \<times> presenter" where
  "presenter_event ev p =
     (case ev of
        BrowserInit \<Rightarrow> ([BrowserUpdate ''file'' (ps_file p)], [], p)
      | BrowserAction action \<Rightarrow> ([], if action = ''restart'' then service_restart else [], p)
      | FileChange path \<Rightarrow> (if path = ps_file p then [BrowserUpdate ''file'' (ps_file p)] else [], [], p)
      | ViewAction action \<Rightarrow>
          if action = ''start'' then ([], service_start, p)
          else if action = ''stop'' then ([], service_stop, p)
          else if action = ''restart'' then ([], service_restart, p)
          else if action = ''pause'' then ([], service_pause, p)
          else if action = ''exit'' then ([ViewRenderAppExit], [], p)
          else ([BrowserUpdate ''file'' action], [], p\<lparr>ps_file := action\<rparr>)
      | _ \<Rightarrow> ([], [], p))"

text \<open>The look at the service once a second.\<close>

definition presenter_check :: "string \<Rightarrow> presenter \<Rightarrow> panel_event list \<times> presenter" where
  "presenter_check status p =
     (let st = service_check status
      in if st \<noteq> ps_state p then ([ViewRenderServiceState st], p\<lparr>ps_state := st\<rparr>) else ([], p))"

section \<open>The view\<close>

definition log_files :: "string list" where
  "log_files = [''hbbs.out'', ''hbbs.err'', ''hbbr.out'', ''hbbr.err'', ''.env'']"

definition menu_items :: "string list" where
  "menu_items = [''restart'', ''start'', ''stop'', ''hbbs.out'', ''hbbs.err'', ''hbbr.out'', ''hbbr.err'', ''.env'']"

definition tray_items :: "string list" where
  "tray_items = [''restart'', ''start'', ''stop'', ''exit'']"

definition product :: string where
  "product = ''RustDesk Server''"

definition show_state :: "service_state \<Rightarrow> string" where
  "show_state st = (case st of Paused \<Rightarrow> ''Paused'' | Started \<Rightarrow> ''Started'' | Stopped \<Rightarrow> ''Stopped'' | Unknown \<Rightarrow> ''Unknown'')"

record view =
  vw_title :: string
  vw_shown_title :: string
  vw_blink :: bool
  vw_span :: nat
  vw_enabled :: "string \<Rightarrow> bool"
  vw_selected :: "string \<Rightarrow> bool"
  vw_emitted :: "string list"
  vw_exited :: bool
  vw_visible :: bool

text \<open>The title a window begins with is part of the configuration of the window system.\<close>

definition view_start :: "string \<Rightarrow> view" where
  "view_start configured = \<lparr>vw_title = [], vw_shown_title = configured, vw_blink = False, vw_span = 0, vw_enabled = (\<lambda>_. True),
     vw_selected = (\<lambda>_. False), vw_emitted = [], vw_exited = False, vw_visible = True\<rparr>"

definition enable :: "bool \<Rightarrow> bool \<Rightarrow> bool \<Rightarrow> view \<Rightarrow> view" where
  "enable start stop restart v =
     v\<lparr>vw_enabled := (vw_enabled v)(''start'' := start, ''stop'' := stop, ''restart'' := restart)\<rparr>"

definition view_event :: "panel_event \<Rightarrow> view \<Rightarrow> view" where
  "view_event ev v =
     (case ev of
        BrowserUpdate action data \<Rightarrow>
          if action = ''file'' \<and> data \<in> set log_files
          then v\<lparr>vw_selected := (\<lambda>f. if f \<in> set log_files then f = data else vw_selected v f),
                 vw_emitted := vw_emitted v @ [data]\<rparr>
          else v
      | ViewRenderAppExit \<Rightarrow> v\<lparr>vw_exited := True\<rparr>
      | ViewRenderServiceState st \<Rightarrow>
          (let t = product @ '' '' @ show_state st; v1 = v\<lparr>vw_title := t, vw_shown_title := t\<rparr>
           in case st of
                Started \<Rightarrow> (enable False True True v1)\<lparr>vw_blink := False\<rparr>
              | Stopped \<Rightarrow> (enable True False False v1)\<lparr>vw_blink := True\<rparr>
              | _ \<Rightarrow> (enable False False False v1)\<lparr>vw_blink := True\<rparr>)
      | _ \<Rightarrow> v)"

text \<open>A frame, after some microseconds: the title blinks while the service is not running.\<close>

definition view_frame :: "nat \<Rightarrow> view \<Rightarrow> view" where
  "view_frame elapsed v =
     (if elapsed \<le> 16666 \<or> \<not> vw_blink v then v
      else if 1000000 < vw_span v then v\<lparr>vw_span := 0, vw_shown_title := vw_title v\<rparr>
      else (let span = vw_span v + elapsed
            in if 500000 < span then v\<lparr>vw_span := span, vw_shown_title := product\<rparr> else v\<lparr>vw_span := span\<rparr>))"

text \<open>What the user and the page do: the events of the window system that lead to messages, and
  the two that only concern the window.\<close>

datatype user_event = MenuClick string | TrayClick string | TrayLeftClick | CloseWindow | PageMessage string | Setup

definition quoted :: "string \<Rightarrow> string" where
  "quoted s = [CHR 0x22] @ s @ [CHR 0x22]"

definition user_messages :: "user_event \<Rightarrow> panel_event list" where
  "user_messages u =
     (case u of
        MenuClick item \<Rightarrow> [ViewAction item]
      | TrayClick item \<Rightarrow> [ViewAction item]
      | PageMessage m \<Rightarrow>
          if m = quoted ''__init__'' then [BrowserInit]
          else if m = quoted ''restart'' then [BrowserAction ''restart''] else []
      | Setup \<Rightarrow> [ViewInit]
      | _ \<Rightarrow> [])"

definition user_window :: "user_event \<Rightarrow> view \<Rightarrow> view" where
  "user_window u v =
     (case u of
        CloseWindow \<Rightarrow> v\<lparr>vw_visible := False\<rparr>
      | TrayLeftClick \<Rightarrow> v\<lparr>vw_visible := \<not> vw_visible v\<rparr>
      | _ \<Rightarrow> v)"

section \<open>The watcher\<close>

definition watch_events :: "string list \<Rightarrow> panel_event list" where
  "watch_events names = map FileChange (filter (\<lambda>n. n \<noteq> []) names)"

section \<open>The panel as a whole\<close>

text \<open>The exit of the view ends the process. Sending on a full channel blocks the sender until there is room: the rest of what a side
  still has to send is pending.\<close>

record panel =
  pn_view :: view
  pn_presenter :: presenter
  pn_to_view :: "panel_event list"
  pn_to_presenter :: "panel_event list"
  pn_view_pending :: "panel_event list"
  pn_presenter_pending :: "panel_event list"
  pn_calls :: "service_call list"

definition panel_start :: "string \<Rightarrow> panel" where
  "panel_start configured = \<lparr>pn_view = view_start configured, pn_presenter = fst presenter_start, pn_to_view = [], pn_to_presenter = [],
     pn_view_pending = [], pn_presenter_pending = snd presenter_start, pn_calls = []\<rparr>"

inductive panel_step :: "panel \<Rightarrow> panel \<Rightarrow> bool" where
  view_receives: "\<not> vw_exited (pn_view p) \<Longrightarrow> pn_view_pending p = [] \<Longrightarrow> pn_to_view p = ev # q \<Longrightarrow>
    panel_step p (p\<lparr>pn_view := view_event ev (pn_view p), pn_to_view := q\<rparr>)"
| view_iterates: "\<not> vw_exited (pn_view p) \<Longrightarrow> pn_view_pending p = [] \<Longrightarrow>
    panel_step p (p\<lparr>pn_view := user_window u (view_frame elapsed (pn_view p)), pn_view_pending := user_messages u\<rparr>)"
| view_sends: "\<not> vw_exited (pn_view p) \<Longrightarrow> pn_view_pending p = ev # rest \<Longrightarrow> length (pn_to_presenter p) < BUFFER \<Longrightarrow>
    panel_step p (p\<lparr>pn_to_presenter := pn_to_presenter p @ [ev], pn_view_pending := rest\<rparr>)"
| presenter_receives: "\<not> vw_exited (pn_view p) \<Longrightarrow> pn_presenter_pending p = [] \<Longrightarrow> pn_to_presenter p = ev # q \<Longrightarrow>
    presenter_event ev (pn_presenter p) = (outs, calls, ps) \<Longrightarrow>
    panel_step p (p\<lparr>pn_presenter := ps, pn_to_presenter := q, pn_presenter_pending := outs, pn_calls := pn_calls p @ calls\<rparr>)"
| presenter_checks: "\<not> vw_exited (pn_view p) \<Longrightarrow> pn_presenter_pending p = [] \<Longrightarrow> presenter_check status (pn_presenter p) = (outs, ps) \<Longrightarrow>
    panel_step p (p\<lparr>pn_presenter := ps, pn_presenter_pending := outs\<rparr>)"
| presenter_sends: "\<not> vw_exited (pn_view p) \<Longrightarrow> pn_presenter_pending p = ev # rest \<Longrightarrow> length (pn_to_view p) < BUFFER \<Longrightarrow>
    panel_step p (p\<lparr>pn_to_view := pn_to_view p @ [ev], pn_presenter_pending := rest\<rparr>)"
| watcher_sends: "\<not> vw_exited (pn_view p) \<Longrightarrow> ev \<in> set (watch_events names) \<Longrightarrow> length (pn_to_presenter p) < BUFFER \<Longrightarrow>
    panel_step p (p\<lparr>pn_to_presenter := pn_to_presenter p @ [ev]\<rparr>)"

inductive_cases panel_stepE: "panel_step p p'"

definition panel_reachable :: "panel \<Rightarrow> bool" where
  "panel_reachable p \<longleftrightarrow> (\<exists>configured. panel_step\<^sup>*\<^sup>* (panel_start configured) p)"

section \<open>The state that is shown\<close>

text \<open>The title of the window names the state; unless the service runs it blinks, that is, it is the
  bare name of the product from time to time.\<close>

definition view_shows :: "service_state \<Rightarrow> view \<Rightarrow> bool" where
  "view_shows st v \<longleftrightarrow> vw_title v = product @ '' '' @ show_state st \<and>
     (vw_shown_title v = product @ '' '' @ show_state st \<or> st \<noteq> Started \<and> vw_shown_title v = product) \<and>
     vw_blink v = (st \<noteq> Started) \<and>
     vw_enabled v ''start'' = (st = Stopped) \<and> vw_enabled v ''stop'' = (st = Started) \<and>
     vw_enabled v ''restart'' = (st = Started)"

definition in_flight :: "panel \<Rightarrow> panel_event list" where
  "in_flight p = pn_to_view p @ pn_presenter_pending p"

definition panel_wf :: "panel \<Rightarrow> bool" where
  "panel_wf p \<longleftrightarrow> view_shows (ps_state (pn_presenter p)) (fold view_event (in_flight p) (pn_view p)) \<and>
     length (pn_to_view p) \<le> BUFFER \<and> length (pn_to_presenter p) \<le> BUFFER \<and>
     length (pn_presenter_pending p) \<le> 1 \<and> length (pn_view_pending p) \<le> 1"

lemma view_shows_state [simp]: "view_shows st (view_event (ViewRenderServiceState st) v)"
  by (auto simp: view_shows_def view_event_def enable_def Let_def split: service_state.split)

definition same_status :: "view \<Rightarrow> view \<Rightarrow> bool" where
  "same_status v v' \<longleftrightarrow> vw_title v' = vw_title v \<and> vw_blink v' = vw_blink v \<and> vw_enabled v' = vw_enabled v \<and>
     (vw_shown_title v' = vw_shown_title v \<or> vw_blink v \<and> vw_shown_title v' \<in> {vw_title v, product})"

lemma view_shows_same: "same_status v v' \<Longrightarrow> view_shows st v \<Longrightarrow> view_shows st v'"
  by (auto simp: same_status_def view_shows_def)

lemma view_event_same:
  "same_status v v' \<Longrightarrow> same_status (view_event ev v) (view_event ev v')"
  by (auto simp: same_status_def view_event_def enable_def Let_def split: panel_event.split service_state.split)

lemma fold_view_event_same: "same_status v v' \<Longrightarrow> same_status (fold view_event evs v) (fold view_event evs v')"
  by (induction evs arbitrary: v v') (simp_all add: view_event_same)

lemma window_same: "same_status v (user_window u (view_frame elapsed v))"
  by (auto simp: same_status_def user_window_def view_frame_def Let_def split: user_event.split)

lemma presenter_event_status:
  assumes "presenter_event ev p = (outs, calls, p')"
  shows "ps_state p' = ps_state p \<and> length outs \<le> 1 \<and> same_status v (fold view_event outs v)"
  using assms
  by (auto simp: presenter_event_def same_status_def view_event_def split: panel_event.splits if_splits)

lemma presenter_check_status:
  assumes "presenter_check status p = (outs, p')" "view_shows (ps_state p) v"
  shows "view_shows (ps_state p') (fold view_event outs v) \<and> length outs \<le> 1"
  using assms by (auto simp: presenter_check_def Let_def split: if_splits)

lemma user_messages_one: "length (user_messages u) \<le> 1"
  by (simp add: user_messages_def split: user_event.split)

lemma panel_step_wf: "panel_step p p' \<Longrightarrow> panel_wf p \<Longrightarrow> panel_wf p'"
proof (induction rule: panel_step.induct)
  case (view_iterates p u elapsed)
  have "same_status (fold view_event (in_flight p) (pn_view p))
      (fold view_event (in_flight p) (user_window u (view_frame elapsed (pn_view p))))"
    by (intro fold_view_event_same window_same)
  with view_iterates user_messages_one [of u] view_shows_same show ?case
    by (auto simp: panel_wf_def in_flight_def)
next
  case (presenter_receives p ev q outs calls ps)
  note st = presenter_event_status [OF presenter_receives(4), of "fold view_event (pn_to_view p) (pn_view p)"]
  then have "view_shows (ps_state ps) (fold view_event outs (fold view_event (pn_to_view p) (pn_view p)))"
    if "view_shows (ps_state (pn_presenter p)) (fold view_event (pn_to_view p) (pn_view p))"
    using view_shows_same that by metis
  with presenter_receives st show ?case by (simp add: panel_wf_def in_flight_def)
next
  case (presenter_checks p status outs ps)
  with presenter_check_status [OF presenter_checks(3), of "fold view_event (pn_to_view p) (pn_view p)"] show ?case
    by (simp add: panel_wf_def in_flight_def)
qed (auto simp: panel_wf_def in_flight_def)

lemma panel_start_wf: "panel_wf (panel_start configured)"
  by (simp add: panel_wf_def panel_start_def presenter_start_def in_flight_def)

interpretation panel: invariant_system panel_step "\<lambda>p. \<exists>configured. p = panel_start configured" panel_wf
  by unfold_locales (auto intro: panel_start_wf panel_step_wf)

lemma panel_reachable_wf: "panel_reachable p \<Longrightarrow> panel_wf p"
  unfolding panel_reachable_def using panel.reachable_inv by blast

section \<open>Properties\<close>

text \<open>
  C34. The panel shows the state of the service: whatever the user, the page, the log files and the
  service do, once the messages on their way have arrived the window shows the state the presenter
  saw last. While the service runs its title is the name of the product with the state; else the
  title blinks between that and the bare name of the product. Exactly the commands that make sense
  can be clicked: start when it is stopped, stop and restart when it runs.
\<close>

theorem panel_shows_service_state:
  assumes "panel_reachable p"
  shows "view_shows (ps_state (pn_presenter p)) (fold view_event (in_flight p) (pn_view p)) \<and>
    (in_flight p = [] \<longrightarrow> view_shows (ps_state (pn_presenter p)) (pn_view p))"
  using panel_reachable_wf [OF assms] by (auto simp: panel_wf_def)

text \<open>The panel after its presenter has found the service running and told the view.\<close>

definition example_panel :: panel where
  "example_panel = (panel_start ''Panel'')\<lparr>pn_presenter := \<lparr>ps_file = ''hbbs.out'', ps_state = Started\<rparr>,
     pn_view := view_event (ViewRenderServiceState Started) (view_event (ViewRenderServiceState Unknown) (view_start ''Panel'')),
     pn_presenter_pending := []\<rparr>"

lemma example_panel_reachable: "panel_reachable example_panel"
proof -
  let ?u = "ViewRenderServiceState Unknown" and ?s = "ViewRenderServiceState Started"
    and ?p0 = "(panel_start ''Panel'')\<lparr>pn_presenter_pending := []\<rparr>" and ?ps = "\<lparr>ps_file = ''hbbs.out'', ps_state = Started\<rparr>"
  note defs = panel_start_def presenter_start_def view_start_def BUFFER_def
  have "panel_step\<^sup>*\<^sup>* (panel_start ''Panel'') (?p0\<lparr>pn_to_view := [?u]\<rparr>)"
    using presenter_sends [of "panel_start ''Panel''" ?u "[]"] by (simp add: defs r_into_rtranclp)
  also have "panel_step \<dots> (?p0\<lparr>pn_to_view := [?u], pn_presenter := ?ps, pn_presenter_pending := [?s]\<rparr>)"
    using presenter_checks [of "?p0\<lparr>pn_to_view := [?u]\<rparr>" "''Running''" "[?s]" ?ps]
    by (simp add: defs presenter_check_def service_check_def)
  also have "panel_step \<dots> (?p0\<lparr>pn_to_view := [?u, ?s], pn_presenter := ?ps\<rparr>)"
    using presenter_sends [of "?p0\<lparr>pn_to_view := [?u], pn_presenter := ?ps, pn_presenter_pending := [?s]\<rparr>" ?s "[]"]
    by (simp add: defs)
  also have "panel_step \<dots> (?p0\<lparr>pn_to_view := [?s], pn_presenter := ?ps, pn_view := view_event ?u (view_start ''Panel'')\<rparr>)"
    using view_receives [of "?p0\<lparr>pn_to_view := [?u, ?s], pn_presenter := ?ps\<rparr>" ?u "[?s]"] by (simp add: defs)
  also have "panel_step \<dots> example_panel"
    using view_receives [of "?p0\<lparr>pn_to_view := [?s], pn_presenter := ?ps, pn_view := view_event ?u (view_start ''Panel'')\<rparr>" ?s "[]"]
    by (simp add: example_panel_def defs view_event_def enable_def Let_def)
  finally show ?thesis unfolding panel_reachable_def by blast
qed

theorem panel_shows_service_state_witness:
  "vw_shown_title (pn_view example_panel) = ''RustDesk Server Started'' \<and> vw_enabled (pn_view example_panel) ''stop'' \<and>
   \<not> vw_enabled (pn_view example_panel) ''start''"
proof -
  have "in_flight example_panel = []" "ps_state (pn_presenter example_panel) = Started"
    by (simp_all add: example_panel_def in_flight_def panel_start_def)
  with panel_shows_service_state [OF example_panel_reachable] show ?thesis
    by (simp add: view_shows_def product_def show_state_def)
qed

lemma log_file_action:
  "item \<in> set log_files \<Longrightarrow>
   presenter_event (ViewAction item) p = ([BrowserUpdate ''file'' item], [], p\<lparr>ps_file := item\<rparr>)"
  unfolding log_files_def presenter_event_def by (simp, elim disjE; simp)

lemma command_action:
  "presenter_event (ViewAction ''start'') p = ([], service_start, p)"
  "presenter_event (ViewAction ''stop'') p = ([], service_stop, p)"
  "presenter_event (ViewAction ''restart'') p = ([], service_restart, p)"
  "presenter_event (ViewAction ''exit'') p = ([ViewRenderAppExit], [], p)"
  by (simp_all add: presenter_event_def)

lemma menu_or_file:
  "item \<in> set (menu_items @ tray_items) \<Longrightarrow> item \<in> set log_files \<or> item \<in> {''start'', ''stop'', ''restart'', ''exit''}"
  unfolding menu_items_def tray_items_def log_files_def by (simp, elim disjE; simp)

text \<open>What the items of the menus do: a file is shown and marked, alone; the others are commands
  to the service, or the end of the panel.\<close>

theorem menu_items_handled:
  assumes "item \<in> set (menu_items @ tray_items)"
    and "presenter_event (ViewAction item) p = (outs, calls, p')"
  shows "if item \<in> set log_files
    then calls = [] \<and> ps_file p' = item \<and> vw_emitted (fold view_event outs v) = vw_emitted v @ [item] \<and>
      (\<forall>f \<in> set log_files. vw_selected (fold view_event outs v) f = (f = item))
    else p' = p \<and> (if item = ''exit'' then calls = [] \<and> vw_exited (fold view_event outs v) else outs = [] \<and> calls \<noteq> [])"
proof (cases "item \<in> set log_files")
  case True
  then have "outs = [BrowserUpdate ''file'' item] \<and> calls = [] \<and> p' = p\<lparr>ps_file := item\<rparr>"
    using assms(2) by (simp add: log_file_action)
  with True show ?thesis by (simp add: view_event_def)
next
  case False
  with menu_or_file [OF assms(1)] have "item \<in> {''start'', ''stop'', ''restart'', ''exit''}" by blast
  with assms(2) False show ?thesis
    by (elim insertE)
       (auto simp: command_action service_start_def service_stop_def service_restart_def view_event_def)
qed

section \<open>A deadlock\<close>

definition busy_panel :: "nat \<Rightarrow> nat \<Rightarrow> panel_event list \<Rightarrow> panel_event list \<Rightarrow> panel" where
  "busy_panel shown waiting pres_pending view_pending =
     \<lparr>pn_view = view_start [], pn_presenter = fst presenter_start,
      pn_to_view = ViewRenderServiceState Unknown # replicate shown (BrowserUpdate ''file'' ''hbbs.out''),
      pn_to_presenter = replicate waiting (FileChange ''hbbs.out''),
      pn_view_pending = view_pending, pn_presenter_pending = pres_pending, pn_calls = []\<rparr>"

lemma watcher_fills:
  assumes "waiting < BUFFER"
  shows "panel_step (busy_panel shown waiting pp vp) (busy_panel shown (Suc waiting) pp vp)"
proof -
  have "FileChange ''hbbs.out'' \<in> set (watch_events [''hbbs.out''])" by (simp add: watch_events_def)
  from watcher_sends [OF _ this, of "busy_panel shown waiting pp vp"] assms show ?thesis
    by (simp add: busy_panel_def view_start_def replicate_append_same)
qed

lemma presenter_turns:
  "panel_step (busy_panel shown (Suc waiting) [] vp) (busy_panel shown waiting [BrowserUpdate ''file'' ''hbbs.out''] vp)"
  using presenter_receives [of "busy_panel shown (Suc waiting) [] vp" "FileChange ''hbbs.out''"
      "replicate waiting (FileChange ''hbbs.out'')" "[BrowserUpdate ''file'' ''hbbs.out'']" "[]" "fst presenter_start"]
  by (simp add: busy_panel_def view_start_def presenter_event_def presenter_start_def)

lemma presenter_fills:
  assumes "Suc shown < BUFFER"
  shows "panel_step (busy_panel shown waiting [BrowserUpdate ''file'' ''hbbs.out''] vp) (busy_panel (Suc shown) waiting [] vp)"
  using presenter_sends [of "busy_panel shown waiting [BrowserUpdate ''file'' ''hbbs.out''] vp"] assms
  by (simp add: busy_panel_def view_start_def replicate_append_same)

lemma view_fills: "Suc n \<le> BUFFER \<Longrightarrow> panel_step\<^sup>*\<^sup>* (panel_start []) (busy_panel n 0 [] [])"
proof (induction n)
  case 0
  have "panel_step (panel_start []) (busy_panel 0 0 [] [])"
    using presenter_sends [of "panel_start []"]
    by (simp add: panel_start_def busy_panel_def view_start_def presenter_start_def BUFFER_def)
  then show ?case by blast
next
  case (Suc n)
  have "panel_step\<^sup>*\<^sup>* (panel_start []) (busy_panel n 0 [] [])" using Suc by simp
  also have "panel_step \<dots> (busy_panel n 1 [] [])" using watcher_fills [of 0 n "[]" "[]"] by (simp add: BUFFER_def)
  also have "panel_step \<dots> (busy_panel n 0 [BrowserUpdate ''file'' ''hbbs.out''] [])" using presenter_turns [of n 0] by simp
  also have "panel_step \<dots> (busy_panel (Suc n) 0 [] [])" using Suc.prems by (intro presenter_fills) simp
  finally show ?case .
qed

lemma presenter_channel_fills:
  "n \<le> BUFFER \<Longrightarrow> panel_step\<^sup>*\<^sup>* (panel_start []) (busy_panel 9 n [BrowserUpdate ''file'' ''hbbs.out''] [])"
proof (induction n)
  case 0
  have "panel_step\<^sup>*\<^sup>* (panel_start []) (busy_panel 9 0 [] [])" by (rule view_fills) (simp add: BUFFER_def)
  also have "panel_step \<dots> (busy_panel 9 1 [] [])" using watcher_fills [of 0 9 "[]" "[]"] by (simp add: BUFFER_def)
  also have "panel_step \<dots> (busy_panel 9 0 [BrowserUpdate ''file'' ''hbbs.out''] [])" using presenter_turns [of 9 0] by simp
  finally show ?case .
next
  case (Suc n)
  then have "panel_step\<^sup>*\<^sup>* (panel_start []) (busy_panel 9 n [BrowserUpdate ''file'' ''hbbs.out''] [])" by simp
  also have "panel_step \<dots> (busy_panel 9 (Suc n) [BrowserUpdate ''file'' ''hbbs.out''] [])"
    using Suc.prems by (intro watcher_fills) simp
  finally show ?case .
qed

text \<open>
  The panel can lock up: while the view is held up in the window system (an open menu) the
  log file that is shown keeps changing, until the channel to the view is full and the presenter
  waits for room in it, and then the channel to the presenter is full; the click that ends the hold
  up makes the view wait for room there. Neither side can ever go on.
\<close>

theorem panel_can_lock_up:
  "\<exists>p. panel_reachable p \<and> \<not> vw_exited (pn_view p) \<and> pn_view_pending p = [ViewAction ''stop''] \<and>
     (\<forall>p'. \<not> panel_step p p')"
proof -
  let ?p = "busy_panel 9 BUFFER [BrowserUpdate ''file'' ''hbbs.out''] [ViewAction ''stop'']"
  have "panel_step\<^sup>*\<^sup>* (panel_start []) (busy_panel 9 BUFFER [BrowserUpdate ''file'' ''hbbs.out''] [])"
    by (rule presenter_channel_fills) simp
  also have "panel_step \<dots> ?p"
    using view_iterates [of "busy_panel 9 BUFFER [BrowserUpdate ''file'' ''hbbs.out''] []" "MenuClick ''stop''" 0]
    by (simp add: busy_panel_def view_start_def user_messages_def user_window_def view_frame_def)
  finally have "panel_reachable ?p" unfolding panel_reachable_def by blast
  moreover have "\<not> panel_step ?p p'" for p'
    by (auto simp: busy_panel_def BUFFER_def elim!: panel_stepE)
  ultimately show ?thesis by (intro exI [of _ ?p]) (simp add: busy_panel_def view_start_def)
qed

text \<open>
  The service counts as started only if every question was answered and the state is that it runs;
  when the manager cannot be reached, the service is unknown to it or no state can be had, it
  counts as stopped.
\<close>

theorem started_only_if_running:
  assumes "\<And>e. manager = Inl e \<or> open_service ''hbbs'' = Inl e \<or> query_status ''hbbs'' = Inl e \<Longrightarrow> e \<noteq> ''Running''"
  shows "service_check (service_status manager open_service query_status ''hbbs'') =
    (if manager = Inr () \<and> open_service ''hbbs'' = Inr () \<and> query_status ''hbbs'' = Inr ''Running'' then Started else Stopped)"
  using assms by (auto simp: service_check_def service_status_def split: sum.split)

end
