(* ===== verification/Spec2Isabelle.thy ===== *)
theory Spec2Isabelle
  imports Hbbs_Registry End_To_End Db_Open Peer_Refs Process Sinks Geo_Update Desktop_Panel
begin

text \<open>
  A verification of RustDesk Server: the rendezvous server \<^verbatim>\<open>hbbs\<close>, through which two devices find
  each other, and the relay server \<^verbatim>\<open>hbbr\<close>, which carries their traffic when no direct connection
  comes about.

  \<^bold>\<open>How the parts interact.\<close> A device registers its id, uuid and key with \<^verbatim>\<open>hbbs\<close> over UDP, TCP or
  a websocket; the peers in memory are a cache over an SQLite table. A controller asks \<^verbatim>\<open>hbbs\<close> for
  an id; unless the request is refused, a message goes to the device, naming a relay that the
  relay selection chose, and the answer of the device goes back on the connection of the
  controller, which waits in a table, or through the registry of websockets. When they need a
  relay, both ends connect to \<^verbatim>\<open>hbbr\<close> with the same identifier, are paired and their bytes are
  passed on under bandwidth limits. Both servers have a console on the machine itself.

  \<^bold>\<open>Theories and sources\<close> (paths under \<^verbatim>\<open>src/src/\<close>):
  \<^item> \<^verbatim>\<open>Prelude\<close>: hash maps as association lists with the interface \<^verbatim>\<open>sized_map\<close>, the contract
    \<^verbatim>\<open>invariant_system\<close> of every step relation and its extension \<^verbatim>\<open>simulation\<close> for one that
    implements a specification, shared lemmas;
    \<^verbatim>\<open>Rust_Str\<close>, \<^verbatim>\<open>Rust_F64\<close>, \<^verbatim>\<open>Rust_Fs\<close>: what the sources use of Rust's strings, numbers, floats
    (reals rounded to binary64, with the infinities and NaN; a distance is rounded once, not at every
    operation) and files;
    \<^verbatim>\<open>Net\<close>: addresses and their text.
  \<^item> \<^verbatim>\<open>Config\<close> (\<^verbatim>\<open>common.rs\<close>, \<^verbatim>\<open>main.rs\<close>, \<^verbatim>\<open>hbbr.rs\<close>): arguments under every spelling, precedence of
    command line and file, where the servers and their consoles listen.
  \<^item> \<^verbatim>\<open>Key_Files\<close> (\<^verbatim>\<open>common.rs\<close>): the key pair on disk, with links, permissions and failures.
  \<^item> \<^verbatim>\<open>Relay_Routes\<close> (\<^verbatim>\<open>relay_routes.rs\<close>), \<^verbatim>\<open>Relay_Geo\<close> (\<^verbatim>\<open>relay_geo.rs\<close>): the table of costs with
    its longest prefix match, places and distances; both give costs to the choice of the cheapest
    relay through the interface \<^verbatim>\<open>cost_source\<close>.
  \<^item> \<^verbatim>\<open>Relay_Select\<close> (\<^verbatim>\<open>relay_select.rs\<close>): the choice of a relay, held choices, the preferred relay,
    reloading, console.
  \<^item> \<^verbatim>\<open>Geo_Update\<close> (\<^verbatim>\<open>geo_update.rs\<close>, \<^verbatim>\<open>utils.rs\<close>): keeping the location database current.
  \<^item> \<^verbatim>\<open>Peer_Store\<close> (\<^verbatim>\<open>database.rs\<close>, \<^verbatim>\<open>peer.rs\<close>): the table, the peers in memory over it, a restart;
    \<^verbatim>\<open>Peer_Refs\<close>: the shared peers behind the map, and that working by id is working on them;
    \<^verbatim>\<open>Db_Open\<close>: how the table is opened.
  \<^item> \<^verbatim>\<open>Rate_Limits\<close> (\<^verbatim>\<open>peer.rs\<close>, \<^verbatim>\<open>rendezvous_server.rs\<close>): the counters in a window, through the
    interface \<^verbatim>\<open>window_counter\<close>, and the log of requests.
  \<^item> \<^verbatim>\<open>Ws_Registry\<close> (\<^verbatim>\<open>rendezvous_server.rs\<close>): the registry of websockets with its guards.
  \<^item> \<^verbatim>\<open>Jwt\<close> (\<^verbatim>\<open>jwt.rs\<close>): login tokens.
  \<^item> \<^verbatim>\<open>Rendezvous\<close> (\<^verbatim>\<open>rendezvous_server.rs\<close>): messages and their handlers over UDP and TCP;
    \<^verbatim>\<open>Rendezvous_Spec\<close>: the reachable states and the properties of the handlers; \<^verbatim>\<open>Registry\<close>: the
    abstract registry that registration refines; \<^verbatim>\<open>Registration_Race\<close>: registrations that overlap;
    \<^verbatim>\<open>Rendezvous_Conn\<close>: key exchange and life of
    connections; \<^verbatim>\<open>Sinks\<close>: their write halves and what reaches the other end;
    \<^verbatim>\<open>Rendezvous_Console\<close>: start, queue, check of the relays, console; \<^verbatim>\<open>Rendezvous_Main\<close>: the main
    loop, its sockets, the self test, and the step relation of the whole server;
    \<^verbatim>\<open>Hbbs_Registry\<close>: that step relation as an implementation of the registry; \<^verbatim>\<open>Process\<close> (also
    \<^verbatim>\<open>common.rs\<close>): signals, the end of the server, the check for a new version.
  \<^item> \<^verbatim>\<open>Relay_Server\<close> (\<^verbatim>\<open>relay_server.rs\<close>): lists, settings, console, pairing, the loop of a
    session; \<^verbatim>\<open>Relay_Pairs\<close>: the step relation of the pairing of many connections;
    \<^verbatim>\<open>Relay_Streams\<close>: plain and websocket streams, the main loop.
  \<^item> \<^verbatim>\<open>Key_Tools\<close> (\<^verbatim>\<open>utils.rs\<close>): making and checking key pairs, the connection check.
  \<^item> \<^verbatim>\<open>Desktop_Panel\<close> (\<^verbatim>\<open>src/ui/src\<close>): the window that starts and stops the services.
  \<^item> \<^verbatim>\<open>End_To_End\<close> and this theory: what the two servers do together.

  \<^bold>\<open>State and operations.\<close> The state of \<^verbatim>\<open>hbbs\<close> that its tasks share is the record \<open>server\<close>, what
  never changes while it runs is \<open>conf\<close>, the clock and the random values of one call are
  \<open>inputs\<close>. A handler takes them and returns what is sent, as a list of outcomes, and the new
  state. The state of \<^verbatim>\<open>hbbr\<close> is \<open>relay_state\<close>, the variables of one session are \<open>session\<close>. A
  handler that holds no lock across two accesses is cut into its atomic pieces where other tasks
  can come in between: the pairing of \<^verbatim>\<open>hbbr\<close>, the registration of a key (\<open>race_step\<close>), the load of
  a stored peer (\<open>lp_look\<close>, \<open>lp_load\<close>), the two accesses to the held choices in the relay selection,
  and the frames of a connection, which get the shared state anew each time. The whole of \<^verbatim>\<open>hbbs\<close> is
  the step relation \<open>hbbs_step\<close>, in which datagrams, frames, console commands, queued messages, timers
  and probes of relays come in any order. There every handler is one step, registration included: what
  is proved of it holds when each is handled to its end before the next, and what
  overlap adds is shown for the pieces above. It is a family, \<open>hbbs_step_with\<close>, over what is known of the inputs of a step: that new
  guids are not empty for the invariant, and that the table can be reached for the registry.

  \<^bold>\<open>What the lemmas show.\<close>
  \<^item> Registration: an id bound to a device cannot be taken over, what is accepted is in force,
    survives a restart and amounts to a claim in an abstract registry; the limits bound how often
    this can be tried. Overlapping registrations never move an id that is bound, but two of them for
    a new id can leave a row with the uuid of one device and the key of the other. Seen from
    outside, the whole server only ever grants allowed claims, as long as the table can be
    reached and its handlers do not overlap; while the table cannot be reached, a stored id can be taken over. Working on a shared peer is working on
    the map, except when two first look-ups of it overlap.
  \<^item> Requests: who is let through, what is sent where, that the answer comes back to the
    requester once, which bits an online request gets; that UDP answers go to the sender only. A
    request for a relay is checked by no one.
  \<^item> Both servers together: a connection over the relay comes about, from the request of the
    controller to the bytes that arrive; servers of one folder ask for the same key.
  \<^item> Connections: no stale entry in the registry of websockets, a silent websocket is closed, a
    key is agreed on with the first frame or never, and from then on every frame is encrypted and
    can be opened by the other end, in order.
  \<^item> The whole of \<^verbatim>\<open>hbbs\<close>: its invariant in every reachable state, the relays it can hand out, the
    self test, the recovery of sockets, and a change of relays that gets lost.
  \<^item> Relays: the choice is always a healthy relay, the same for all questions about one attempt,
    and the cheapest by the table or by distance; failed reloads keep what was there.
  \<^item> \<^verbatim>\<open>hbbr\<close>: two streams are paired only when both asked for the same identifier with the key of
    the server, no stream is in two sessions, bytes are passed on unchanged and in order, silence
    ends a session, the limits take hold. Two ends that come at the same moment can miss each other.
  \<^item> Files: the key pair is stable and private, links are followed at most forty times, the update
    of the location database never loses it, a generated pair works with both servers.
  \<^item> The panel: it shows the state of the service, and it can lock up.

  \<^bold>\<open>Parameters.\<close> Code outside of the repository is an argument: protobuf and \<^verbatim>\<open>AddrMangle\<close>
  (\<open>surroundings\<close>), \<^verbatim>\<open>sodiumoxide\<close> and base64 (\<open>key_ops\<close>, \<open>crypto\<close>), \<^verbatim>\<open>jsonwebtoken\<close> (\<open>jwt_laws\<close> are
  its documented behaviour), \<^verbatim>\<open>ipnetwork\<close>, \<^verbatim>\<open>maxminddb\<close>, \<^verbatim>\<open>reqwest\<close>, \<^verbatim>\<open>flate2\<close>, \<^verbatim>\<open>clap\<close>, \<^verbatim>\<open>rust-ini\<close>, and
  the bandwidth limiters of \<^verbatim>\<open>async_speed_limit\<close>, which appear as what is consumed from them; the URLs
  of \<^verbatim>\<open>sqlx\<close> and the waiting of a pool of \<^verbatim>\<open>deadpool\<close> (\<open>db_ops\<close>).

  \<^bold>\<open>Bounds and fuel.\<close> Links of key files are followed with the code's own limit of forty, at which it
  is shown to give up exactly when there are that many, and with the kernel's limit where the system
  follows them. The choice of a key pair takes at most the 300 attempts of the code. Every other
  loop is structural, over the events or the entries it consumes. Integers are words, or \<^verbatim>\<open>nat\<close> and
  \<^verbatim>\<open>int\<close> with the remainder written out, where they can overflow; counters that would need more
  than 2 to the 64 bits, milliseconds or events to do so, such as those of a relay session, are
  plain \<^verbatim>\<open>nat\<close>.

  \<^bold>\<open>Not modelled.\<close> Log lines and the logger. The columns of the table of peers that nothing reads, and
  that the pool may hold several connections, which SQLite serialises. What only the build for
  Windows has in the servers. The window system behind the panel, what the shell commands and the
  service manager do. The text of console answers and of the tools is given as structured lines.
  Module declarations and build scripts have nothing to model.
\<close>

section \<open>The two servers together\<close>

text \<open>
  C3. A connection over the relay comes about, through both servers: the request of a controller goes
  to the device it names, the answer of the device goes back on the connection of the controller
  alone, with the key of the device signed by the server; both then ask the relay for the
  identifier of the request, which has reached the device unchanged, are paired with each
  other, and as long as their session runs each gets exactly what the other sends.
\<close>

theorem relayed_connection:
  assumes
    "server_wf su sv" "su_parse su ask = Some (RequestRelay rf)"
    and "handle_tcp su i cf ask (Some k) a key False None sv = (stay, [QueueUdp (RequestRelay rf') to], s', sv1)"
    and
    "server_wf su sv2" "hget (sv_tcp_punch sv2) (su_into_v4 su a) = hget (sv_tcp_punch sv1) (su_into_v4 su a)"
    "hget (ws_peers (sv_ws sv2)) (su_into_v4 su a) = None"
    "su_into_v4 su (su_unmangle su (su_mangle su a)) = su_into_v4 su a"
    and
    "su_parse su reply = Some (RelayResponse rr)" "rr_socket_addr rr = rf_socket_addr rf'"
    "handle_tcp su j cf' reply s2 b key' ws wc sv2 = (stay2, outs, s2', sv3)"
    and
    "Option.bind frame1 rparse = Some q1" "rq_uuid q1 = ident (rf_rest rf')"
    "Option.bind frame2 rparse = Some q2" "rq_uuid q2 = ident (rf_rest rf)" "ident (rf_rest rf) \<noteq> []"
    "rkey = [] \<or> rq_licence_key q1 = rkey \<and> rq_licence_key q2 = rkey"
    "hget (rl_peers st) (ident (rf_rest rf)) = None" "\<not> st_raw x1" "\<not> st_raw x2"
    "make_pair_first rparse rkey addr1 frame1 x1 st = (r1, st1)"
    "hget (rl_peers st2) (ident (rf_rest rf)) = hget (rl_peers (park (ident (rf_rest rf)) x1 st1)) (ident (rf_rest rf))"
    "make_pair_first rparse rkey addr2 frame2 x2 st2 = (r2, st3)"
  shows "(\<exists>p. get_in_memory (sv_pm sv) (rf_id rf) = Some p \<and> to = socket_addr p) \<and>
    (\<exists>rr'. outs = [ToSink k (RelayResponse rr')] \<and> rr_rest rr' = rr_rest rr \<and>
       (\<forall>pid. rr_union rr = RrId pid \<and> pid \<noteq> [] \<longrightarrow>
          rr_union rr' = RrPk (fst (get_pk su j cf' (rr_version rr) pid sv2)))) \<and>
    r1 = Unpaired (ident (rf_rest rf)) \<and>
    (\<exists>sid e1 e2. r2 = Paired sid e2 e1 \<and> st_id e1 = st_id x1 \<and> st_id e2 = st_id x2 \<and>
       (\<forall>ip th ins t out sn d. relay ip sid th ins (session_start t) = (out, Inr sn) \<longrightarrow>
          sent_to (other_side d) out = received_from d ins))"
proof -
  note ask = request_relay_passed_on [OF assms(1-3)]
  have rest: "rf_rest rf' = rf_rest rf" and ret: "rr_socket_addr rr = su_mangle su a" using ask(1) assms(9) by simp_all
  obtain sv3' where reply: "handle_relay_response su j cf' rr b sv2 = (outs, sv3')"
    using assms(8,10) by (auto simp: handle_tcp_def split: prod.splits)
  have route: "hget (sv_tcp_punch sv2) (su_into_v4 su a) = Some k" using assms(5) ask(3) by simp
  have answer: "\<exists>rr'. outs = [ToSink k (RelayResponse rr')] \<and> rr_rest rr' = rr_rest rr \<and>
       (\<forall>pid. rr_union rr = RrId pid \<and> pid \<noteq> [] \<longrightarrow>
          rr_union rr' = RrPk (fst (get_pk su j cf' (rr_version rr) pid sv2)))"
    using relay_response_to_route(1) [OF assms(4) reply _ assms(6)] assms(7) ret route by (auto simp: send_to_sink_def)
  have "fst (make_pair_first rparse rkey addr1 frame1 x1 st) = Unpaired (ident (rf_rest rf)) \<and>
    (\<exists>sid e2 e1. fst (make_pair_first rparse rkey addr2 frame2 x2 st2) = Paired sid e2 e1 \<and> st_id e2 = st_id x2 \<and>
       st_id e1 = st_id x1)"
    using two_requests_meet [OF assms(11,13) assms(12) [unfolded rest] assms(14,15,16,17,18,19), of st2 addr1 addr2] assms(20,21) by auto
  with answer ask(2) assms(20,22) relay_run_total show ?thesis by (auto 0 3)
qed

definition example_ask :: request_relay where
  "example_ask = \<lparr>rf_id = ''123456'', rf_socket_addr = [], rf_rest = [42]\<rparr>"

definition example_reply :: relay_response where
  "example_reply = \<lparr>rr_socket_addr = [5, 5, 5, 5, 50], rr_relay_server = [], rr_version = ''1'', rr_union = RrId ''123456'', rr_rest = [1]\<rparr>"

definition example_relaying :: "(ipaddr \<times> nat) surroundings" where
  "example_relaying = example_su\<lparr>su_parse := (\<lambda>d. if d = [5] then Some (RequestRelay example_ask)
     else if d = [6] then Some (RelayResponse example_reply) else None)\<rparr>"

lemma example_relaying_wf: "server_wf example_relaying example_sv"
  using example_sv_wf by (simp add: server_wf_def example_relaying_def)

lemma example_asked:
  "\<exists>sv1. handle_tcp example_relaying example_in example_cf [5] (Some (TcpSink 3)) addr_a [] False None example_sv =
     (True, [QueueUdp (RequestRelay (example_ask\<lparr>rf_socket_addr := [5, 5, 5, 5, 50]\<rparr>)) addr_b], None, sv1) \<and>
     sv_ws sv1 = ws_empty"
  by (simp add: handle_tcp_def keep_route_def push_ws_def push_to_ws_peer_def get_in_memory_def example_relaying_def
      example_mangle_a [symmetric] example_ask_def)
     (simp add: example_defs push_ws_def push_to_ws_peer_def hget_def ws_empty_def Let_def)

theorem relayed_connection_witness:
  "\<exists>sv1 rr'. fst (snd (handle_tcp example_relaying example_in example_cf [6] None addr_b [] False None sv1)) =
       [ToSink (TcpSink 3) (RelayResponse rr')] \<and> rr_rest rr' = [1] \<and>
     fst (make_pair_first example_frame ''k'' addr_b (Some [9]) (example_stream 0) relay_start) = Unpaired ''u'' \<and>
     (\<exists>sid e1 e2. fst (make_pair_first example_frame ''k'' addr_a (Some [9]) (example_stream 1)
       (park ''u'' (example_stream 0) relay_start)) = Paired sid e2 e1 \<and> st_id e1 = 0 \<and> st_id e2 = 1)"
proof -
  obtain sv1 where ask: "handle_tcp example_relaying example_in example_cf [5] (Some (TcpSink 3)) addr_a [] False None example_sv =
      (True, [QueueUdp (RequestRelay (example_ask\<lparr>rf_socket_addr := [5, 5, 5, 5, 50]\<rparr>)) addr_b], None, sv1)"
    and ws: "sv_ws sv1 = ws_empty" using example_asked by blast
  have wf1: "server_wf example_relaying sv1"
    using handle_tcp_wf [OF example_relaying_wf, of example_in addr_a None example_cf "[5]" "Some (TcpSink 3)" "[]" False] ask
    by (simp add: own_conn_def example_in_def)
  obtain stay2 outs s2' sv3 where reply: "handle_tcp example_relaying example_in example_cf [6] None addr_b [] False None sv1 =
      (stay2, outs, s2', sv3)" by (metis prod.collapse)
  have no_ws: "hget (ws_peers (sv_ws sv1)) (su_into_v4 example_relaying addr_a) = None" by (simp add: ws ws_empty_def)
  have parse: "su_parse example_relaying [5] = Some (RequestRelay example_ask)"
    "su_parse example_relaying [6] = Some (RelayResponse example_reply)"
    "su_into_v4 example_relaying (su_unmangle example_relaying (su_mangle example_relaying addr_a)) = su_into_v4 example_relaying addr_a"
    by (simp_all add: example_relaying_def example_su_def example_mangle_a example_unmangle_a)
  obtain r1 st1 where p1: "make_pair_first example_frame ''k'' addr_b (Some [9]) (example_stream 0) relay_start = (r1, st1)" by fastforce
  have st1: "st1 = relay_start" using p1 by (simp add: make_pair_first_def example_frame_def relay_start_def)
  obtain r2 st3 where p2: "make_pair_first example_frame ''k'' addr_a (Some [9]) (example_stream 1)
      (park ''u'' (example_stream 0) relay_start) = (r2, st3)" by fastforce
  let ?q = "\<lparr>rq_uuid = ''u'', rq_licence_key = ''k''\<rparr>"
  have "fst (snd (handle_tcp example_relaying example_in example_cf [6] None addr_b [] False None sv1)) = outs" using reply by simp
  moreover note relayed_connection [where ident = "\<lambda>_. ''u''" and ?q1.0 = ?q and ?q2.0 = ?q,
      OF example_relaying_wf parse(1) ask wf1 refl no_ws parse(3,2) _ reply _ _ _ _ _ _ _ _ _ p1 _ p2]
  ultimately show ?thesis
    using p1 p2 by (fastforce simp: example_reply_def example_frame_def example_stream_def relay_start_def st1)
qed

text \<open>
  C16. The servers of one folder agree on the key: when one of them makes the key pair, the other
  one, started later with \<open>-\<close> or \<open>_\<close> as its key, asks its clients for the
  same public key, the one in the public key file. So a client with that key passes both, and one
  with another key neither.
\<close>

theorem servers_share_key:
  assumes "gen_sk ko uid gen wait waited fs0 = (Inr (kt, sec), fs')"
    and "\<forall>fs \<in> {fs0, waited fs0}. open_read fs sk_file = Inr None"
    and "\<forall>fs \<in> {fs0, waited fs0}. \<forall>p. resolve_key_path fs pub_file = Inr p \<longrightarrow>
      path_comps p = [] \<or> last (path_comps p) \<noteq> temp_name uid"
    and "\<forall>b. ko_decode ko (ko_encode ko b) = Some b \<and> trim (ko_encode ko b) = ko_encode ko b"
    and "\<forall>n. ko_public ko (snd (gen n)) = fst (gen n) \<and> ko_valid ko (snd (gen n))"
    and "\<forall>op q. op \<in> {Lstat, OpenRead, ReadAll, Stat} \<longrightarrow> kf_ok fs' op q"
    and "a \<in> {''-'', ''_''}" "b \<in> {''-'', ''_''}" "\<forall>s \<in> {a, b}. \<forall>bs. ko_decode ko s = Some bs \<longrightarrow> length bs \<noteq> 64"
    and "kt \<noteq> []"
  shows "get_server_sk ko (Inr (kt, sec)) a = Inr (kt, Some sec) \<and>
    relay_get_server_sk ko (fst (gen_sk ko uid' gen' wait' waited' fs')) b = Inr kt \<and>
    relay_get_server_sk ko (Inr (kt, sec)) b = Inr kt \<and>
    get_server_sk ko (fst (gen_sk ko uid' gen' wait' waited' fs')) a = Inr (kt, Some sec) \<and>
    (refuse_punch su i kt False ph = None \<longleftrightarrow> ph_licence_key ph = kt) \<and>
    (Option.bind frame rparse = Some rf \<and> rq_uuid rf \<noteq> [] \<longrightarrow>
       (fst (make_pair_first rparse kt addr frame x st) \<noteq> Refused \<longleftrightarrow> rq_licence_key rf = kt))"
proof -
  have again: "fst (gen_sk ko uid' gen' wait' waited' fs') = Inr (kt, sec)"
    using gen_sk_again [OF assms(1-6), of uid' gen' wait' waited'] by simp
  have keys: "get_server_sk ko (Inr (kt, sec)) a = Inr (kt, Some sec)" "relay_get_server_sk ko (Inr (kt, sec)) b = Inr kt"
    using folder_key(1) [OF assms(7), of ko kt sec] folder_key(2) [OF assms(8), of ko kt sec] assms(9) by simp_all
  have "refuse_punch su i kt False ph = None \<longleftrightarrow> ph_licence_key ph = kt"
    using assms(10) by (simp add: refuse_punch_def)
  moreover have "fst (make_pair_first rparse kt addr frame x st) \<noteq> Refused \<longleftrightarrow> rq_licence_key rf = kt"
    if "Option.bind frame rparse = Some rf" "rq_uuid rf \<noteq> []"
    using that assms(10) by (simp add: make_pair_first_def Let_def split: option.split)
  ultimately show ?thesis unfolding again using keys by simp
qed

theorem servers_share_key_witness:
  "relay_get_server_sk example_keys (fst (gen_sk example_keys ''v'' (\<lambda>_. ([9], [1, 9])) 0 (\<lambda>fs. fs)
     (empty_disk\<lparr>kf_nodes := [(sk_file, Regular (ko_encode example_keys [3, 7]) 0x180), (pub_file, Regular (ko_encode example_keys [7]) 0x1B6)]\<rparr>)))
     ''_'' = Inr (ko_encode example_keys [7])"
proof -
  have short: "\<forall>s \<in> {''-'', ''_''}. \<forall>bs. ko_decode example_keys s = Some bs \<longrightarrow> length bs \<noteq> 64"
    by (simp add: example_keys_def)
  show ?thesis
    by (rule servers_share_key [OF example_gen_sk, where a = "''-''" and b = "''_''", THEN conjunct2, THEN conjunct1])
       (simp_all add: example_keys_decode example_keys_trim short, simp_all add: example_keys_def key_eval letters_of_def)
qed

end
